(* ===== verification/GoLib.thy ===== *)
theory GoLib
  imports "HOL-Library.Word" "HOL-Library.Sublist"
begin

section \<open>The part of Go's standard library that the program uses\<close>

text \<open>
  Shared vocabulary of the development. A Go string is the list of its UTF-8 bytes, which is what
  HOL's \<open>string\<close> is: \<open>len\<close>, \<open>strings.Contains\<close>, \<open>strings.HasPrefix\<close> and
  comparison work on bytes in both. Cyrillic text is therefore written byte by byte.

  The theory models \<open>strconv.ParseUint\<close>, \<open>ParseInt\<close> and \<open>FormatUint\<close> (base 10),
  the functions of package \<open>strings\<close> and the channel operations used by the components, and
  states the codec interface that the key formats of the program share.
\<close>

named_theorems go_defs \<open>definitions that a case analysis of an operation unfolds\<close>
named_theorems inv_intros \<open>invariant preservation, one rule per operation\<close>

type_synonym byte = "8 word"
type_synonym u16 = "16 word"
type_synonym u32 = "32 word"
type_synonym u64 = "64 word"

subsection \<open>Package strings\<close>

abbreviation str_contains :: "string \<Rightarrow> string \<Rightarrow> bool" where
  "str_contains s sub \<equiv> sublist sub s"

definition trim_prefix :: "string \<Rightarrow> string \<Rightarrow> string" where
  "trim_prefix s p = (if prefix p s then drop (length p) s else s)"

definition trim_suffix :: "string \<Rightarrow> string \<Rightarrow> string" where
  "trim_suffix s p = (if suffix p s then take (length s - length p) s else s)"

text \<open>ASCII white space, as \<open>strings.Fields\<close> and \<open>strings.TrimSpace\<close> see it.\<close>

definition is_space :: "char \<Rightarrow> bool" where
  "is_space c \<longleftrightarrow> c \<in> {CHR 0x09, CHR 0x0A, CHR 0x0B, CHR 0x0C, CHR 0x0D, CHR 0x20}"

definition trim_space :: "string \<Rightarrow> string" where
  "trim_space s = rev (dropWhile is_space (rev (dropWhile is_space s)))"

fun fields_from :: "string \<Rightarrow> string \<Rightarrow> string list" where
  "fields_from cur [] = (if cur = [] then [] else [cur])"
| "fields_from cur (c # cs) =
     (if is_space c then (if cur = [] then fields_from [] cs else cur # fields_from [] cs)
      else fields_from (cur @ [c]) cs)"

definition str_fields :: "string \<Rightarrow> string list" where
  "str_fields s = fields_from [] s"

text \<open>\<open>strings.SplitN(s, " ", 2)\<close>: the part before the first space and, if there is one, the rest.\<close>

fun split_space2 :: "string \<Rightarrow> string \<times> string option" where
  "split_space2 [] = ([], None)"
| "split_space2 (c # cs) =
     (if c = CHR 0x20 then ([], Some cs)
      else (case split_space2 cs of (a, r) \<Rightarrow> (c # a, r)))"

text \<open>\<open>strings.ToLower\<close> on ASCII letters.\<close>

definition to_lower_char :: "char \<Rightarrow> char" where
  "to_lower_char c =
     (let n = (of_char c :: nat) in if 65 \<le> n \<and> n \<le> 90 then char_of (n + 32) else c)"

definition to_lower :: "string \<Rightarrow> string" where
  "to_lower s = map to_lower_char s"

lemma split_space2_join:
  "(case split_space2 s of (a, None) \<Rightarrow> s = a | (a, Some b) \<Rightarrow> s = a @ CHR 0x20 # b)"
  by (induction s) (auto split: prod.splits option.splits)

lemma split_space2_no_space: "CHR 0x20 \<notin> set (fst (split_space2 s))"
  by (induction s) (auto split: prod.splits)

lemma fields_from_nonempty: "w \<in> set (fields_from cur s) \<Longrightarrow> w \<noteq> []"
  by (induction cur s rule: fields_from.induct) (auto split: if_splits)

subsection \<open>Package strconv, base 10\<close>

datatype num_error = ErrSyntax | ErrRange

definition digit_char :: "nat \<Rightarrow> char" where
  "digit_char n = char_of (48 + n)"

definition digit_val :: "char \<Rightarrow> nat option" where
  "digit_val c = (let n = (of_char c :: nat) in if 48 \<le> n \<and> n \<le> 57 then Some (n - 48) else None)"

fun format_uint :: "nat \<Rightarrow> string" where
  "format_uint n =
     (if n < 10 then [digit_char n] else format_uint (n div 10) @ [digit_char (n mod 10)])"

declare format_uint.simps [simp del]

definition format_int :: "int \<Rightarrow> string" where
  "format_int i = (if i < 0 then CHR ''-'' # format_uint (nat (- i)) else format_uint (nat i))"

text \<open>
  The loop of \<open>ParseUint\<close> reads one digit at a time and stops at the first byte that is not a
  digit or at the first overflow of the maximum, whichever comes first.
\<close>

fun parse_digits :: "nat \<Rightarrow> nat \<Rightarrow> string \<Rightarrow> num_error + nat" where
  "parse_digits mx acc [] = Inr acc"
| "parse_digits mx acc (c # cs) =
     (case digit_val c of
        None \<Rightarrow> Inl ErrSyntax
      | Some d \<Rightarrow> if acc * 10 + d > mx then Inl ErrRange else parse_digits mx (acc * 10 + d) cs)"

definition parse_uint :: "nat \<Rightarrow> string \<Rightarrow> num_error + nat" where
  "parse_uint bits s = (if s = [] then Inl ErrSyntax else parse_digits (2 ^ bits - 1) 0 s)"

text \<open>\<open>ParseInt\<close> strips one sign, calls \<open>ParseUint\<close> and checks the signed range.\<close>

definition parse_int :: "nat \<Rightarrow> string \<Rightarrow> num_error + int" where
  "parse_int bits s =
     (case s of
        [] \<Rightarrow> Inl ErrSyntax
      | c # cs \<Rightarrow>
          let neg = (c = CHR ''-''); body = (if c = CHR ''+'' \<or> neg then cs else s)
          in (case parse_uint bits body of
                Inl e \<Rightarrow> Inl e
              | Inr un \<Rightarrow>
                  if \<not> neg \<and> un \<ge> 2 ^ (bits - 1) then Inl ErrRange
                  else if neg \<and> un > 2 ^ (bits - 1) then Inl ErrRange
                  else Inr (if neg then - int un else int un)))"

lemma digit_val_digit_char [simp]: "d < 10 \<Longrightarrow> digit_val (digit_char d) = Some d"
  by (simp add: digit_val_def digit_char_def)

lemma digit_val_less: "digit_val c = Some d \<Longrightarrow> d < 10"
  by (auto simp: digit_val_def Let_def split: if_splits)

lemma digit_char_eq_iff: "a < 10 \<Longrightarrow> b < 10 \<Longrightarrow> digit_char a = digit_char b \<longleftrightarrow> a = b"
  by (metis digit_val_digit_char option.inject)

lemma format_uint_neq_Nil [simp]: "format_uint n \<noteq> []"
  by (subst format_uint.simps) simp

lemma digit_val_format_uint: "c \<in> set (format_uint n) \<Longrightarrow> digit_val c \<noteq> None"
proof (induction n rule: format_uint.induct)
  case (1 n)
  then show ?case
    by (cases "n < 10") (auto simp: format_uint.simps [of n])
qed

lemma no_digit_in_format:
  "digit_val c = None \<Longrightarrow> c \<notin> set (format_uint n)"
  using digit_val_format_uint by blast

lemma parse_digits_append:
  "parse_digits mx acc (xs @ ys) =
     (case parse_digits mx acc xs of Inl e \<Rightarrow> Inl e | Inr a \<Rightarrow> parse_digits mx a ys)"
  by (induction mx acc xs rule: parse_digits.induct) (auto split: option.splits)

lemma parse_digits_le: "parse_digits mx acc s = Inr n \<Longrightarrow> acc \<le> mx \<Longrightarrow> n \<le> mx"
  by (induction mx acc s rule: parse_digits.induct) (auto split: option.splits if_splits)

lemma parse_digits_format: "n \<le> mx \<Longrightarrow> parse_digits mx 0 (format_uint n) = Inr n"
proof (induction n rule: format_uint.induct)
  case (1 n)
  show ?case
  proof (cases "n < 10")
    case True
    with "1.prems" show ?thesis by (simp add: format_uint.simps [of n])
  next
    case False
    with 1 have "parse_digits mx 0 (format_uint (n div 10)) = Inr (n div 10)"
      by (meson div_le_dividend order_trans)
    with False "1.prems" show ?thesis
      by (simp add: format_uint.simps [of n] parse_digits_append)
  qed
qed

lemma parse_uint_format [simp]: "n < 2 ^ bits \<Longrightarrow> parse_uint bits (format_uint n) = Inr n"
  by (simp add: parse_uint_def parse_digits_format)

lemma parse_uint_bound: "parse_uint bits s = Inr n \<Longrightarrow> n < 2 ^ bits"
proof -
  assume "parse_uint bits s = Inr n"
  then have "n \<le> 2 ^ bits - 1"
    using parse_digits_le [of "2 ^ bits - 1" 0 s n] by (simp add: parse_uint_def split: if_splits)
  then show ?thesis by (simp add: le_less_trans [where y = "2 ^ bits - 1"])
qed

lemma parse_digits_Inr_digits: "parse_digits mx acc s = Inr n \<Longrightarrow> c \<in> set s \<Longrightarrow> digit_val c \<noteq> None"
  by (induction mx acc s rule: parse_digits.induct) (auto split: option.splits if_splits)

lemma parse_uint_digits: "parse_uint bits s = Inr n \<Longrightarrow> c \<in> set s \<Longrightarrow> digit_val c \<noteq> None"
  using parse_digits_Inr_digits by (fastforce simp: parse_uint_def split: if_splits)

lemma parse_uint_nonempty: "parse_uint bits s = Inr n \<Longrightarrow> s \<noteq> []"
  by (auto simp: parse_uint_def)

lemma format_uint_inject [simp]: "format_uint m = format_uint n \<longleftrightarrow> m = n"
proof
  assume eq: "format_uint m = format_uint n"
  have "m < 2 ^ (m + n)" "n < 2 ^ (m + n)"
    by (meson le_add1 le_add2 le_less_trans less_exp order_less_le_trans
        power_increasing_iff one_less_numeral_iff semiring_norm(76))+
  then show "m = n" by (metis eq parse_uint_format sum.inject(2))
qed simp

lemma minus_not_in_format [simp]: "CHR ''-'' \<notin> set (format_uint n)"
  and plus_not_in_format [simp]: "CHR ''+'' \<notin> set (format_uint n)"
  and colon_not_in_format [simp]: "CHR '':'' \<notin> set (format_uint n)"
  by (rule no_digit_in_format, simp add: digit_val_def)+

lemma parse_int_unsigned:
  "s \<noteq> [] \<Longrightarrow> hd s \<noteq> CHR ''-'' \<Longrightarrow> hd s \<noteq> CHR ''+'' \<Longrightarrow>
   parse_int bits s = (case parse_uint bits s of Inl e \<Rightarrow> Inl e | Inr un \<Rightarrow>
     if un \<ge> 2 ^ (bits - 1) then Inl ErrRange else Inr (int un))"
  by (cases s) (auto simp: parse_int_def Let_def split: sum.splits)

lemma hd_format_uint: "hd (format_uint n) \<noteq> CHR ''-''" "hd (format_uint n) \<noteq> CHR ''+''"
  by (metis format_uint_neq_Nil list.set_sel(1) minus_not_in_format,
      metis format_uint_neq_Nil list.set_sel(1) plus_not_in_format)

lemma parse_int_format [simp]:
  assumes "0 < bits" "- (2 ^ (bits - 1)) \<le> i" "i < 2 ^ (bits - 1)"
  shows "parse_int bits (format_int i) = Inr i"
proof (cases "i < 0")
  case True
  have "(2::nat) ^ (bits - 1) < 2 ^ bits" using assms(1) by simp
  moreover have le: "nat (- i) \<le> 2 ^ (bits - 1)"
    using assms(2) by (simp add: nat_le_iff)
  ultimately have "parse_uint bits (format_uint (nat (- i))) = Inr (nat (- i))"
    by (meson le_less_trans parse_uint_format)
  with True le show ?thesis by (simp add: format_int_def parse_int_def Let_def)
next
  case False
  have "(2::nat) ^ (bits - 1) < 2 ^ bits" using assms(1) by simp
  moreover have lt: "nat i < 2 ^ (bits - 1)"
    using assms(3) False by (simp add: nat_less_iff)
  ultimately have "parse_uint bits (format_uint (nat i)) = Inr (nat i)"
    by (meson less_trans parse_uint_format)
  with False lt show ?thesis
    by (simp add: format_int_def parse_int_unsigned hd_format_uint)
qed

subsection \<open>Channels\<close>

text \<open>
  A buffered channel: its capacity, the values in its buffer, whether it has been closed, and the
  values its receiver has already taken (a record kept for specifications only: no operation
  depends on it). Sending on a closed channel and closing a closed channel panic; the operations
  below are defined for open channels and their callers model the panic.
\<close>

record 'a chan =
  ch_cap :: nat
  ch_buf :: "'a list"
  ch_closed :: bool
  ch_taken :: "'a list"

definition make_chan :: "nat \<Rightarrow> 'a chan" where
  "make_chan n = \<lparr>ch_cap = n, ch_buf = [], ch_closed = False, ch_taken = []\<rparr>"

definition chan_full :: "'a chan \<Rightarrow> bool" where
  "chan_full c \<longleftrightarrow> ch_cap c \<le> length (ch_buf c)"

text \<open>\<open>select { case c <- x: default: }\<close> on an open channel: the value is dropped when the buffer is full.\<close>

definition chan_offer :: "'a \<Rightarrow> 'a chan \<Rightarrow> 'a chan" where
  "chan_offer x c = (if chan_full c then c else c\<lparr>ch_buf := ch_buf c @ [x]\<rparr>)"

definition chan_close :: "'a chan \<Rightarrow> 'a chan" where
  "chan_close c = c\<lparr>ch_closed := True\<rparr>"

datatype 'a recv_result = Received 'a | Recv_closed | Recv_blocks

definition chan_recv :: "'a chan \<Rightarrow> 'a recv_result \<times> 'a chan" where
  "chan_recv c =
     (case ch_buf c of
        x # xs \<Rightarrow> (Received x, c\<lparr>ch_buf := xs, ch_taken := ch_taken c @ [x]\<rparr>)
      | [] \<Rightarrow> (if ch_closed c then Recv_closed else Recv_blocks, c))"

text \<open>Everything that has passed through the channel so far, in order.\<close>

definition chan_stream :: "'a chan \<Rightarrow> 'a list" where
  "chan_stream c = ch_taken c @ ch_buf c"

lemma chan_stream_simps [simp]:
  "chan_stream (make_chan n) = []"
  "chan_stream (chan_close c) = chan_stream c"
  "chan_stream (snd (chan_recv c)) = chan_stream c"
  by (auto simp: chan_stream_def make_chan_def chan_close_def chan_recv_def split: list.splits)

lemma chan_stream_offer:
  "chan_stream (chan_offer x c) = (if chan_full c then chan_stream c else chan_stream c @ [x])"
  by (simp add: chan_stream_def chan_offer_def)

lemma chan_offer_simps [simp]:
  "ch_closed (chan_offer x c) = ch_closed c"
  "ch_cap (chan_offer x c) = ch_cap c"
  "ch_taken (chan_offer x c) = ch_taken c"
  by (simp_all add: chan_offer_def)

lemma chan_recv_simps [simp]:
  "ch_closed (snd (chan_recv c)) = ch_closed c"
  "ch_cap (snd (chan_recv c)) = ch_cap c"
  "length (ch_buf (snd (chan_recv c))) \<le> length (ch_buf c)"
  by (simp_all add: chan_recv_def split: list.splits)

lemma chan_offer_bound: "length (ch_buf c) \<le> ch_cap c \<Longrightarrow> length (ch_buf (chan_offer x c)) \<le> ch_cap c"
  by (simp add: chan_offer_def chan_full_def)

lemma chan_offer_buf: "ch_buf (chan_offer x c) = take (max (length (ch_buf c)) (ch_cap c)) (ch_buf c @ [x])"
  by (auto simp: chan_offer_def chan_full_def max_def)

text \<open>Updating a list at an index, and at each of several distinct indices in turn.\<close>

definition update_at :: "('a \<Rightarrow> 'a) \<Rightarrow> nat \<Rightarrow> 'a list \<Rightarrow> 'a list" where
  "update_at f i xs = xs[i := f (xs ! i)]"

lemma length_update_at [simp]: "length (update_at f i xs) = length xs"
  by (simp add: update_at_def)

lemma nth_update_at: "i < length xs \<Longrightarrow> update_at f i xs ! j = (if j = i then f (xs ! j) else xs ! j)"
  by (simp add: update_at_def nth_list_update)

lemma update_at_beyond [simp]: "\<not> i < length xs \<Longrightarrow> update_at f i xs = xs"
  by (simp add: update_at_def list_update_beyond)

lemma update_at_update_at [simp]: "update_at f i (update_at g i xs) = update_at (\<lambda>x. f (g x)) i xs"
  by (cases "i < length xs") (simp add: update_at_def, simp)

lemma update_at_id: "f (xs ! i) = xs ! i \<Longrightarrow> update_at f i xs = xs"
  by (simp add: update_at_def)

lemma map_update_at: "(\<And>x. f (g x) = f x) \<Longrightarrow> map f (update_at g i xs) = map f xs"
  by (rule nth_equalityI; cases "i < length xs") (simp_all add: nth_update_at)

lemma set_update_at: "x \<in> set (update_at f i xs) \<Longrightarrow> x \<in> set xs \<or> (i < length xs \<and> x = f (xs ! i))"
proof (cases "i < length xs")
  case True
  assume "x \<in> set (update_at f i xs)"
  then show ?thesis using True set_update_subset_insert [of xs i "f (xs ! i)"] by (auto simp: update_at_def)
qed simp

lemma length_filter_update_at_split:
  "i < length xs \<Longrightarrow> length (filter P (update_at f i xs)) + (if P (xs ! i) then 1 else 0) =
     length (filter P xs) + (if P (f (xs ! i)) then 1 else 0)"
proof (induction xs arbitrary: i)
  case (Cons x xs)
  then show ?case by (cases i) (auto simp: update_at_def)
qed simp

lemma length_filter_update_at:
  "P (f (xs ! i)) = P (xs ! i) \<Longrightarrow> length (filter P (update_at f i xs)) = length (filter P xs)"
  using length_filter_update_at_split [of i xs P f] by (cases "i < length xs") (auto split: if_splits)

lemma length_filter_update_at_Suc:
  "i < length xs \<Longrightarrow> \<not> P (xs ! i) \<Longrightarrow> P (f (xs ! i)) \<Longrightarrow>
   length (filter P (update_at f i xs)) = Suc (length (filter P xs))"
  using length_filter_update_at_split [of i xs P f] by simp

lemma length_fold_update_at [simp]: "length (fold (update_at f) is xs) = length xs"
  by (induction "is" arbitrary: xs) simp_all

lemma nth_fold_update_at:
  "distinct is \<Longrightarrow> set is \<subseteq> {..<length xs} \<Longrightarrow> j < length xs \<Longrightarrow>
   fold (update_at f) is xs ! j = (if j \<in> set is then f (xs ! j) else xs ! j)"
  by (induction "is" arbitrary: xs) (auto simp: nth_update_at)

subsection \<open>One-shot resources\<close>

text \<open>
  An event hub, an audio source and a call session share a contract: the resource is closed at
  most once in effect, and once it is closed every use is absorbed.
\<close>

locale closable =
  fixes is_closed :: "'s \<Rightarrow> bool"
    and close :: "'s \<Rightarrow> 's"
    and use :: "'a \<Rightarrow> 's \<Rightarrow> 's"
  assumes closed_close: "is_closed (close s)"
    and close_closed: "is_closed s \<Longrightarrow> close s = s"
    and use_closed: "is_closed s \<Longrightarrow> use x s = s"
begin

lemma close_idem: "close (close s) = close s"
  by (simp add: close_closed closed_close)

lemma uses_closed: "is_closed s \<Longrightarrow> fold use xs s = s"
  by (induction xs) (simp_all add: use_closed)

lemma uses_after_close: "fold use xs (close s) = close s"
  by (simp add: closed_close uses_closed)

end

subsection \<open>Maps shared between goroutines\<close>

text \<open>
  The contract of \<open>sync.Map\<close> and of the maps kept under a mutex, for the component that keeps one: what is
  found after a store and after a delete.
\<close>

locale sync_map =
  fixes load :: "'k \<Rightarrow> 's \<Rightarrow> 'v option"
    and store :: "'k \<Rightarrow> 'v \<Rightarrow> 's \<Rightarrow> 's"
    and delete :: "'k \<Rightarrow> 's \<Rightarrow> 's"
  assumes load_store: "load k (store k' v s) = (if k = k' then Some v else load k s)"
    and load_delete: "load k (delete k' s) = (if k = k' then None else load k s)"
begin

lemma load_after_delete_store: "load k (store k' v (delete k' s)) = load k (store k' v s)"
  by (simp add: load_store load_delete)

lemma load_deletes: "load k (fold delete ks s) = (if k \<in> set ks then None else load k s)"
  by (induction ks arbitrary: s) (auto simp: load_delete)

lemma load_stores_other: "k \<notin> fst ` set kvs \<Longrightarrow> load k (fold (\<lambda>(k, v). store k v) kvs s) = load k s"
  by (induction kvs arbitrary: s) (auto simp: load_store)

end

subsection \<open>The codec interface\<close>

text \<open>
  What a component relies on when it prints a value into a key, a file name or a JID and reads it
  back: on the valid values, parsing inverts printing. Two facts follow for every codec: printing
  is injective on valid values, and a parsed text was not printed from another value.
\<close>

locale codec =
  fixes valid :: "'a \<Rightarrow> bool"
    and print :: "'a \<Rightarrow> string"
    and parse :: "string \<Rightarrow> 'e + 'a"
  assumes parse_print: "valid a \<Longrightarrow> parse (print a) = Inr a"
begin

lemma print_inj: "valid a \<Longrightarrow> valid b \<Longrightarrow> print a = print b \<longleftrightarrow> a = b"
  by (metis parse_print sum.inject(2))

lemma parse_of_print: "valid a \<Longrightarrow> parse (print a) = Inr b \<longleftrightarrow> a = b"
  by (simp add: parse_print)

end

interpretation u64_codec: codec "\<lambda>n. n < 2 ^ 64" format_uint "parse_uint 64"
  by unfold_locales simp

interpretation u32_codec: codec "\<lambda>n. n < 2 ^ 32" format_uint "parse_uint 32"
  by unfold_locales simp

interpretation i64_codec: codec "\<lambda>i. - (2 ^ 63) \<le> i \<and> i < 2 ^ 63" format_int "parse_int 64"
  by unfold_locales simp

end
