(* ===== verification/Call_Audio.thy ===== *)
theory Call_Audio
  imports Complex_Main GoLib
begin

section \<open>Audio of a call (internal/whatsapp/calls/audio.go and the media loops of calls.go)\<close>

text \<open>
  Samples are IEEE floats. A finite float is a rational number, and every operation of Go on them is
  the exact operation followed by rounding to 24 (\<open>float32\<close>) or 53 (\<open>float64\<close>) significant bits,
  to nearest, ties to even; \<open>round_fp\<close> computes it. Exponents are unbounded here: the values of
  this code are far from overflow, and a result below the smallest normal number becomes the sample
  0 in either reading. Infinities and NaN are not modelled, and multiplications are not fused with
  additions (Go fuses them on some targets only).

  The theory models the three conversions, the frame queue between the realtime provider and the
  call, and the two loops that cut the byte and sample streams into frames of fixed size.
\<close>

subsection \<open>Rounding\<close>

fun flog2 :: "nat \<Rightarrow> nat" where
  "flog2 n = (if n < 2 then 0 else Suc (flog2 (n div 2)))"

declare flog2.simps [simp del]

text \<open>The exponent of a positive rational: the greatest \<open>e\<close> with \<open>2 powi e \<le> x\<close>.\<close>

definition exp_of :: "rat \<Rightarrow> int" where
  "exp_of x = (if x \<ge> 1 then int (flog2 (nat \<lfloor>x\<rfloor>)) else - int (flog2 (nat \<lceil>1 / x\<rceil> - 1) + 1))"

definition round_half_even :: "rat \<Rightarrow> int" where
  "round_half_even x =
     (let f = \<lfloor>x\<rfloor>; d = x - of_int f
      in if d < 1 / 2 then f else if d > 1 / 2 then f + 1 else if even f then f else f + 1)"

definition round_fp :: "nat \<Rightarrow> rat \<Rightarrow> rat" where
  "round_fp p x =
     (if x = 0 then 0
      else let u = 2 powi (exp_of \<bar>x\<bar> - int p + 1) in of_int (round_half_even (x / u)) * u)"

abbreviation r32 :: "rat \<Rightarrow> rat" where "r32 \<equiv> round_fp 24"
abbreviation r64 :: "rat \<Rightarrow> rat" where "r64 \<equiv> round_fp 53"

text \<open>Go's conversion of a float to an integer type drops the fraction.\<close>

definition trunc :: "rat \<Rightarrow> int" where
  "trunc x = (if x < 0 then \<lceil>x\<rceil> else \<lfloor>x\<rfloor>)"

lemma flog2_bounds: "n \<ge> 1 \<Longrightarrow> 2 ^ flog2 n \<le> n \<and> n < 2 ^ Suc (flog2 n)"
proof (induction n rule: flog2.induct)
  case (1 n)
  show ?case
  proof (cases "n < 2")
    case True
    with "1.prems" have "n = 1" by simp
    then show ?thesis by (simp add: flog2.simps)
  next
    case False
    then have "2 ^ flog2 (n div 2) \<le> n div 2 \<and> n div 2 < 2 ^ Suc (flog2 (n div 2))"
      using 1 by simp
    then show ?thesis using False by (auto simp: flog2.simps [of n])
  qed
qed

lemma exp_of_le:
  assumes "0 < x"
  shows "2 powi exp_of x \<le> x"
proof (cases "x \<ge> 1")
  case True
  let ?n = "nat \<lfloor>x\<rfloor>"
  have "2 ^ flog2 ?n \<le> ?n" using flog2_bounds [of ?n] True by (simp add: le_nat_iff)
  then have "(of_nat (2 ^ flog2 ?n) :: rat) \<le> of_nat ?n" by (rule of_nat_mono)
  also have "of_nat ?n = (of_int \<lfloor>x\<rfloor> :: rat)" using True by simp
  also have "\<dots> \<le> x" by simp
  finally show ?thesis using True by (simp add: exp_of_def)
next
  case False
  let ?m = "nat \<lceil>1 / x\<rceil>"
  have gt: "1 / x > 1" using False assms by simp
  then have "?m \<ge> 2" by (simp add: le_nat_iff less_ceiling_iff flip: less_iff_succ_less_eq)
  then have "?m - 1 < 2 ^ Suc (flog2 (?m - 1))" using flog2_bounds [of "?m - 1"] by simp
  then have m: "?m \<le> 2 ^ Suc (flog2 (?m - 1))" by simp
  have "1 / x \<le> of_int \<lceil>1 / x\<rceil>" by simp
  also have "\<dots> = of_nat ?m" using gt by simp
  also have "\<dots> \<le> of_nat (2 ^ Suc (flog2 (?m - 1)))" using m by (rule of_nat_mono)
  finally have "1 / x \<le> 2 ^ Suc (flog2 (?m - 1))" by simp
  then have "inverse (2 ^ Suc (flog2 (?m - 1))) \<le> x"
    using assms by (simp add: field_simps)
  moreover have "(2 :: rat) powi exp_of x = inverse (2 ^ Suc (flog2 (?m - 1)))"
    using False by (simp add: exp_of_def power_int_def power_one_over inverse_eq_divide nat_add_distrib)
  ultimately show ?thesis by simp
qed

lemma round_half_even_error: "\<bar>of_int (round_half_even x) - x\<bar> \<le> 1 / 2"
proof -
  have "of_int \<lfloor>x\<rfloor> \<le> x" "x < of_int \<lfloor>x\<rfloor> + 1" by linarith+
  then show ?thesis by (auto simp: round_half_even_def Let_def abs_le_iff)
qed

lemma round_half_even_of_int [simp]: "round_half_even (of_int n) = n"
  by (simp add: round_half_even_def)

lemma round_fp_0 [simp]: "round_fp p 0 = 0"
  by (simp add: round_fp_def)

text \<open>The two facts about rounding that the conversions need: relative error and exactness.\<close>

lemma round_fp_error: "\<bar>round_fp p x - x\<bar> \<le> \<bar>x\<bar> / 2 ^ p"
proof (cases "x = 0")
  case False
  define u :: rat where "u = 2 powi (exp_of \<bar>x\<bar> - int p + 1)"
  have u: "u > 0" by (simp add: u_def)
  have "round_fp p x - x = (of_int (round_half_even (x / u)) - x / u) * u"
    using False u by (simp add: round_fp_def u_def Let_def algebra_simps)
  then have "\<bar>round_fp p x - x\<bar> = \<bar>of_int (round_half_even (x / u)) - x / u\<bar> * u"
    using u by (simp add: abs_mult)
  also have "\<dots> \<le> 1 / 2 * u"
    using round_half_even_error u by (intro mult_right_mono) simp_all
  also have "\<dots> = 2 powi exp_of \<bar>x\<bar> / 2 ^ p"
    by (simp add: u_def power_int_add power_int_diff)
  also have "\<dots> \<le> \<bar>x\<bar> / 2 ^ p"
    using exp_of_le [of "\<bar>x\<bar>"] False by (simp add: divide_right_mono)
  finally show ?thesis .
qed simp

lemma round_fp_exact:
  assumes "\<bar>m\<bar> < 2 ^ p"
  shows "round_fp p (of_int m * 2 powi j) = of_int m * 2 powi j"
proof (cases "m = 0")
  case False
  let ?x = "(of_int m * 2 powi j) :: rat"
  let ?k = "j - (exp_of \<bar>?x\<bar> - int p + 1)"
  have x: "\<bar>?x\<bar> > 0" using False by simp
  have "2 powi exp_of \<bar>?x\<bar> \<le> \<bar>?x\<bar>" using exp_of_le [OF x] .
  also have "\<dots> < 2 ^ p * 2 powi j"
  proof -
    have "(of_int \<bar>m\<bar> :: rat) < of_int (2 ^ p)" using assms by (simp only: of_int_less_iff)
    then show ?thesis by (simp add: abs_mult)
  qed
  also have "\<dots> = 2 powi (int p + j)" by (simp add: power_int_add)
  finally have "exp_of \<bar>?x\<bar> < int p + j"
    using power_int_increasing [of "int p + j" "exp_of \<bar>?x\<bar>" "2 :: rat"] by linarith
  then have k: "?k \<ge> 0" by simp
  have "?x / 2 powi (exp_of \<bar>?x\<bar> - int p + 1) = of_int m * 2 powi ?k"
    by (simp add: power_int_diff)
  also have "\<dots> = of_int (m * 2 ^ nat ?k)" using k by (simp add: power_int_def)
  finally have "round_half_even (?x / 2 powi (exp_of \<bar>?x\<bar> - int p + 1)) = m * 2 ^ nat ?k"
    by (simp only: round_half_even_of_int)
  then show ?thesis
    using False k
    by (simp add: round_fp_def Let_def power_int_def [symmetric] flip: power_int_of_nat)
      (simp add: power_int_diff)
qed simp


lemma trunc_bounds: "\<bar>x\<bar> < of_int n + 1 \<Longrightarrow> \<bar>trunc x\<bar> \<le> n"
  by (simp add: trunc_def) linarith

lemma trunc_0 [simp]: "trunc 0 = 0"
  by (simp add: trunc_def)

subsection \<open>PCM conversions\<close>

text \<open>\<open>binary.LittleEndian.Uint16\<close> and \<open>PutUint16\<close>.\<close>

definition le_uint16 :: "byte \<Rightarrow> byte \<Rightarrow> u16" where
  "le_uint16 lo hi = of_nat (unat lo + 256 * unat hi)"

definition put_uint16 :: "u16 \<Rightarrow> byte list" where
  "put_uint16 w = [of_nat (unat w mod 256), of_nat (unat w div 256)]"

text \<open>The signed samples stored in a byte string; an odd last byte is not a sample.\<close>

fun samples_of :: "byte list \<Rightarrow> int list" where
  "samples_of (lo # hi # bs) = sint (le_uint16 lo hi) # samples_of bs"
| "samples_of _ = []"

definition clamp16 :: "rat \<Rightarrow> rat" where
  "clamp16 v = (if v > 32767 then 32767 else if v < -32768 then -32768 else v)"

text \<open>
  The loop of \<open>amplifyPCM16\<close> writes pairs of bytes into a zeroed buffer of the input's length; an
  odd last byte stays zero. The gain and the product are \<open>float64\<close>.
\<close>

fun amplify_loop :: "rat \<Rightarrow> byte list \<Rightarrow> byte list" where
  "amplify_loop gain (lo # hi # bs) =
     (let v = r64 (of_int (sint (le_uint16 lo hi)) * gain)
      in put_uint16 (of_int (trunc (clamp16 v)))) @ amplify_loop gain bs"
| "amplify_loop gain [b] = [0]"
| "amplify_loop gain [] = []"

definition amplify_pcm16 :: "byte list \<Rightarrow> rat \<Rightarrow> byte list" where
  "amplify_pcm16 data gain =
     (if length data < 2 \<or> gain = 1 then data else amplify_loop gain data)"

text \<open>\<open>v += (next - v) * fr\<close> in \<open>float32\<close>, and the two clamping tests of \<open>pcm16At24k\<close>.\<close>

definition lerp32 :: "rat \<Rightarrow> rat \<Rightarrow> rat \<Rightarrow> rat" where
  "lerp32 v w fr = r32 (v + r32 (r32 (w - v) * fr))"

definition clamp1 :: "rat \<Rightarrow> rat" where
  "clamp1 v = (let w = (if v > 1 then 1 else v) in if w < -1 then -1 else w)"

text \<open>One output sample of \<open>pcm16At24k\<close>: linear interpolation at position \<open>2 i / 3\<close>, clamped and scaled.\<close>

definition pos24 :: "nat \<Rightarrow> rat" where
  "pos24 i = r64 (r64 (of_nat i * 2) / 3)"

definition sample24 :: "rat list \<Rightarrow> nat \<Rightarrow> int" where
  "sample24 frame i =
     (let left = nat (trunc (pos24 i));
          fr = r32 (r64 (pos24 i - of_nat left));
          v = (if left + 1 < length frame then lerp32 (frame ! left) (frame ! (left + 1)) fr
               else frame ! left)
      in trunc (r32 (clamp1 v * 32767)))"

definition pcm16_at_24k :: "rat list \<Rightarrow> byte list" where
  "pcm16_at_24k frame =
     (if frame = [] then []
      else concat (map (\<lambda>i. put_uint16 (of_int (sample24 frame i))) [0..<length frame * 3 div 2])
        @ replicate (length frame * 3 mod 2) 0)"

text \<open>One output sample of \<open>pcm16At16k\<close>: linear interpolation at position \<open>3 i / 2\<close>.\<close>

definition pos16 :: "nat \<Rightarrow> rat" where
  "pos16 i = r64 (r64 (of_nat i * 3) / 2)"

definition sample16 :: "int list \<Rightarrow> nat \<Rightarrow> rat" where
  "sample16 ss i =
     (let left = nat (trunc (pos16 i));
          fr = r32 (r64 (pos16 i - of_nat left));
          v = r32 (of_int (ss ! left) / 32768)
      in if left + 1 < length ss
         then lerp32 v (r32 (of_int (ss ! (left + 1)) / 32768)) fr
         else v)"

definition pcm16_at_16k :: "byte list \<Rightarrow> rat list" where
  "pcm16_at_16k data =
     (let n = length data div 2
      in if n = 0 then [] else map (sample16 (samples_of data)) [0..<n * 2 div 3])"

lemma length_samples_of [simp]: "length (samples_of bs) = length bs div 2"
  by (induction bs rule: samples_of.induct) auto

lemma length_put_uint16 [simp]: "length (put_uint16 w) = 2"
  by (simp add: put_uint16_def)

lemma le_put_uint16 [simp]: "le_uint16 (of_nat (unat w mod 256)) (of_nat (unat w div 256)) = (w :: u16)"
proof -
  have "unat w < 2 ^ LENGTH(16)" by (rule unsigned_less)
  then show ?thesis
    by (simp add: le_uint16_def unat_of_nat)
qed

lemma samples_of_put [simp]: "samples_of (put_uint16 w @ bs) = sint w # samples_of bs"
  by (simp add: put_uint16_def)

lemma sint_of_int16 [simp]:
  "- 32768 \<le> i \<Longrightarrow> i \<le> 32767 \<Longrightarrow> sint (of_int i :: u16) = i"
  by (simp add: signed_of_int signed_take_bit_int_eq_self)

lemma sint16_bounds: "- 32768 \<le> sint (w :: u16)" "sint (w :: u16) \<le> 32767"
  using sint_ge [of w] sint_lt [of w] by simp_all

lemma samples_of_bounds: "s \<in> set (samples_of bs) \<Longrightarrow> - 32768 \<le> s \<and> s \<le> 32767"
  by (induction bs rule: samples_of.induct) (auto simp: sint16_bounds)

lemma samples_of_concat [simp]:
  "samples_of (concat (map (\<lambda>i. put_uint16 (of_int (f i))) is) @ replicate k 0) =
     map (\<lambda>i. sint (of_int (f i) :: u16)) is @ samples_of (replicate k 0)"
  by (induction "is") simp_all

lemma length_amplify_loop [simp]: "length (amplify_loop g bs) = length bs"
  by (induction g bs rule: amplify_loop.induct) (simp_all add: Let_def)

text \<open>The rounding of positions stays inside the frame.\<close>

lemma trunc_pos24:
  assumes "i < 2 ^ 51"
  shows "trunc (pos24 i) = int (2 * i div 3)"
proof -
  let ?x = "of_nat (2 * i) / 3 :: rat"
  have "r64 (of_int (int (2 * i)) * 2 powi 0) = of_int (int (2 * i)) * 2 powi 0"
    by (rule round_fp_exact) (use assms in simp)
  then have pos: "pos24 i = r64 ?x" by (simp add: pos24_def mult.commute)
  have err: "\<bar>r64 ?x - ?x\<bar> \<le> ?x / 2 ^ 53" using round_fp_error [of 53 ?x] by simp
  have small: "?x / 2 ^ 53 < 1 / 6" using assms by (simp add: field_simps)
  define q r where "q = 2 * i div 3" and "r = 2 * i mod 3"
  have i: "2 * i = 3 * q + r" and r: "r < 3" by (simp_all add: q_def r_def)
  have x: "?x = of_nat q + of_nat r / 3" by (simp add: i add_divide_distrib)
  show ?thesis
  proof (cases "r = 0")
    case True
    have "\<bar>int q\<bar> < 2 ^ 53" using assms i by simp
    then have "r64 ?x = of_nat q" using round_fp_exact [of "int q" 53 0] x True by simp
    then show ?thesis by (simp add: pos trunc_def q_def)
  next
    case False
    then have "1 / 3 \<le> (of_nat r / 3 :: rat)" "(of_nat r / 3 :: rat) \<le> 2 / 3" using r by auto
    moreover have "\<bar>r64 ?x - ?x\<bar> < 1 / 6" using err small by (rule le_less_trans)
    ultimately have *: "of_nat q < r64 ?x" "r64 ?x < of_nat q + 1" using x by linarith+
    then have "\<lfloor>r64 ?x\<rfloor> = int q" by (simp add: floor_unique)
    moreover have "\<not> r64 ?x < 0" using *(1) of_nat_0_le_iff [of q, where ?'a = rat] by linarith
    ultimately show ?thesis by (simp add: pos trunc_def q_def)
  qed
qed

lemma trunc_pos16:
  assumes "i < 2 ^ 51"
  shows "trunc (pos16 i) = int (3 * i div 2)" "pos16 i = of_nat (3 * i) / 2"
proof -
  have "r64 (of_int (int (3 * i)) * 2 powi 0) = of_int (int (3 * i)) * 2 powi 0"
    by (rule round_fp_exact) (use assms in simp)
  moreover have "r64 (of_int (int (3 * i)) * 2 powi (-1)) = of_int (int (3 * i)) * 2 powi (-1)"
    by (rule round_fp_exact) (use assms in simp)
  ultimately show pos: "pos16 i = of_nat (3 * i) / 2"
    by (simp add: pos16_def mult.commute power_int_minus_divide)
  have "\<lfloor>(of_nat (3 * i) / 2 :: rat)\<rfloor> = int (3 * i div 2)"
    by (metis floor_divide_of_nat_eq of_nat_numeral)
  then show "trunc (pos16 i) = int (3 * i div 2)" by (simp add: pos trunc_def)
qed


lemma clamp1_bound: "\<bar>clamp1 v\<bar> \<le> 1"
  unfolding clamp1_def Let_def by (auto simp: abs_le_iff)

lemma lerp32_0 [simp]: "lerp32 v w 0 = r32 v" and lerp32_silence [simp]: "lerp32 0 0 fr = 0"
  by (simp_all add: lerp32_def)

lemma sample24_bound: "\<bar>sample24 frame i\<bar> \<le> 32767"
proof -
  have "\<bar>trunc (r32 (v * 32767))\<bar> \<le> 32767" if "\<bar>v\<bar> \<le> 1" for v :: rat
  proof (rule trunc_bounds)
    let ?y = "v * 32767"
    have y: "\<bar>?y\<bar> \<le> 32767" using that by (simp add: abs_mult)
    have "\<bar>r32 ?y\<bar> \<le> \<bar>?y\<bar> + \<bar>?y\<bar> / 2 ^ 24" using round_fp_error [of 24 ?y] by linarith
    also have "\<dots> \<le> 32767 + 32767 / 2 ^ 24" using y by (intro add_mono divide_right_mono) simp_all
    also have "\<dots> < of_int 32767 + 1" by simp
    finally show "\<bar>r32 ?y\<bar> < of_int 32767 + 1" .
  qed
  then show ?thesis by (simp only: sample24_def Let_def clamp1_bound)
qed

lemma sample24_in_frame:
  assumes "i < length frame * 3 div 2" "length frame < 2 ^ 50"
  shows "nat (trunc (pos24 i)) < length frame"
proof -
  have "i < 2 ^ 51" using assms by simp
  then have "nat (trunc (pos24 i)) = 2 * i div 3" by (simp add: trunc_pos24)
  then show ?thesis using assms(1) by simp
qed

lemma sample24_silence:
  assumes "i < length frame * 3 div 2" "length frame < 2 ^ 50" "set frame \<subseteq> {0}"
  shows "sample24 frame i = 0"
proof -
  have "frame ! j = 0" if "j < length frame" for j using assms(3) that nth_mem by fastforce
  then show ?thesis
    using sample24_in_frame [OF assms(1,2)] by (simp add: sample24_def Let_def clamp1_def)
qed

lemma sample16_eq:
  assumes "i < length ss * 2 div 3" "length ss < 2 ^ 50" "\<forall>s \<in> set ss. - 32768 \<le> s \<and> s \<le> 32767"
  shows "sample16 ss i =
    (if even i then of_int (ss ! (3 * i div 2)) / 32768
     else of_int (ss ! (3 * i div 2) + ss ! (3 * i div 2 + 1)) / 65536)"
proof -
  let ?l = "3 * i div 2"
  have i: "i < 2 ^ 51" using assms(1,2) by simp
  have l: "nat (trunc (pos16 i)) = ?l" using trunc_pos16(1) [OF i] by simp
  have in_range: "?l < length ss" and in_range': "odd i \<Longrightarrow> ?l + 1 < length ss"
    using assms(1) by (auto elim!: oddE evenE)
  have q: "r32 (of_int m / 2 ^ k) = of_int m / 2 ^ k" if "\<bar>m\<bar> < 2 ^ 24" for m k
    using round_fp_exact [OF that, of "- int k"] by (simp add: power_int_minus_divide)
  have v: "r32 (of_int (ss ! j) / 32768) = of_int (ss ! j) / 32768" if "j < length ss" for j
    using q [of "ss ! j" 15] assms(3) nth_mem [OF that] by fastforce
  show ?thesis
  proof (cases "even i")
    case True
    then have "pos16 i - of_nat ?l = 0"
      using trunc_pos16(2) [OF i] by (auto elim!: evenE)
    moreover have "r32 (of_int (ss ! ?l) / 32768) = of_int (ss ! ?l) / 32768" by (rule v [OF in_range])
    ultimately show ?thesis
      unfolding sample16_def l Let_def using True by (simp only: round_fp_0 lerp32_0 if_cancel if_True)
  next
    case False
    then obtain k where k: "i = 2 * k + 1" by (elim oddE)
    have "?l = 3 * k + 1" unfolding k by presburger
    then have p: "pos16 i - of_nat ?l = 1 / 2"
      using trunc_pos16(2) [OF i] by (simp add: k field_simps)
    have h: "r64 (1 / 2) = 1 / 2" "r32 (1 / 2) = 1 / 2"
      using round_fp_exact [of 1 53 "- 1"] round_fp_exact [of 1 24 "- 1"]
      by (simp_all add: power_int_minus_divide)
    define a b where "a = ss ! ?l" and "b = ss ! (?l + 1)"
    have ab: "- 32768 \<le> a" "a \<le> 32767" "- 32768 \<le> b" "b \<le> 32767"
      using assms(3) in_range in_range' False nth_mem unfolding a_def b_def by fastforce+
    have d: "r32 (of_int b / 32768 - of_int a / 32768) = of_int (b - a) / 2 ^ 15"
      using q [of "b - a" 15] ab by (simp add: diff_divide_distrib)
    have m: "r32 (of_int (b - a) / 2 ^ 15 * (1 / 2)) = of_int (b - a) / 2 ^ 16"
      using q [of "b - a" 16] ab by simp
    have s: "r32 (of_int a / 32768 + of_int (b - a) / 2 ^ 16) = of_int (a + b) / 2 ^ 16"
    proof -
      have e: "(of_int a / 32768 + of_int (b - a) / 2 ^ 16 :: rat) = of_int (a + b) / 2 ^ 16"
        by (simp add: field_simps)
      show ?thesis unfolding e by (rule q) (use ab in simp)
    qed
    have "lerp32 (of_int a / 32768) (of_int b / 32768) (r32 (r64 (pos16 i - of_nat ?l))) =
        of_int (a + b) / 2 ^ 16"
      unfolding p h lerp32_def d m s ..
    then show ?thesis
      unfolding sample16_def l Let_def v [OF in_range] v [OF in_range' [OF False]]
      using False in_range' [OF False] by (simp add: a_def b_def)
  qed
qed


subsection \<open>Cutting a stream into frames\<close>

text \<open>
  Both media loops append what arrives to a pending buffer and cut frames of a fixed size off its
  front while there are enough elements. \<open>cut n\<close> is the inner loop; \<open>n\<close> is positive.
\<close>

function cut :: "nat \<Rightarrow> 'a list \<Rightarrow> 'a list list \<times> 'a list" where
  "cut n xs =
     (if n = 0 \<or> length xs < n then ([], xs)
      else (case cut n (drop n xs) of (fs, rest) \<Rightarrow> (take n xs # fs, rest)))"
  by pat_completeness auto
termination
  by (relation "measure (\<lambda>(n, xs). length xs)") auto

declare cut.simps [simp del]

text \<open>
  Inbound (the sink of \<open>call.Receive\<close>): each frame from the call is converted, amplified by 2 and
  queued; whole 960-byte chunks (20 ms at 24 kHz) go to \<open>SendRealtimeAudio\<close>.
\<close>

definition whatsapp_realtime_input_gain :: rat where
  "whatsapp_realtime_input_gain = 2"

definition realtime_input_chunk_bytes :: nat where
  "realtime_input_chunk_bytes = 960"

definition inbound_frame :: "rat list \<Rightarrow> byte list \<Rightarrow> byte list list \<times> byte list" where
  "inbound_frame frame pending =
     cut realtime_input_chunk_bytes
       (pending @ amplify_pcm16 (pcm16_at_24k frame) whatsapp_realtime_input_gain)"

fun inbound_run :: "rat list list \<Rightarrow> byte list \<Rightarrow> byte list list \<times> byte list" where
  "inbound_run [] pending = ([], pending)"
| "inbound_run (f # fs) pending =
     (case inbound_frame f pending of (sent, p) \<Rightarrow>
        (case inbound_run fs p of (later, q) \<Rightarrow> (sent @ later, q)))"

text \<open>
  Outbound (the goroutine that reads \<open>AudioTx\<close>): each chunk of provider audio is converted and cut
  into frames of \<open>meowcaller.FrameSamples\<close> samples (the parameter \<open>fs\<close>); when the channel is
  closed the rest is padded with silence to one last frame.
\<close>

definition outbound_data :: "nat \<Rightarrow> byte list \<Rightarrow> rat list \<Rightarrow> rat list list \<times> rat list" where
  "outbound_data fs data pending = cut fs (pending @ pcm16_at_16k data)"

definition outbound_close :: "nat \<Rightarrow> rat list \<Rightarrow> rat list list" where
  "outbound_close fs pending =
     (if pending = [] then [] else [take fs pending @ replicate (fs - length pending) 0])"

fun outbound_run :: "nat \<Rightarrow> byte list list \<Rightarrow> rat list \<Rightarrow> rat list list" where
  "outbound_run fs [] pending = outbound_close fs pending"
| "outbound_run fs (d # ds) pending =
     (case outbound_data fs d pending of (frames, p) \<Rightarrow> frames @ outbound_run fs ds p)"

lemma cut_concat: "cut n xs = (fs, rest) \<Longrightarrow> concat fs @ rest = xs"
proof (induction n xs arbitrary: fs rule: cut.induct)
  case (1 n xs)
  then show ?case
    by (auto simp: cut.simps [of n xs] split: if_splits prod.splits)
qed

lemma cut_frames: "0 < n \<Longrightarrow> cut n xs = (fs, rest) \<Longrightarrow> length rest < n \<and> list_all (\<lambda>f. length f = n) fs"
proof (induction n xs arbitrary: fs rule: cut.induct)
  case (1 n xs)
  then show ?case
    by (auto simp: cut.simps [of n xs] split: if_splits prod.splits)
qed

lemma cut_append:
  "cut n (xs @ ys) = (case cut n xs of (fs, rest) \<Rightarrow>
     (case cut n (rest @ ys) of (fs', rest') \<Rightarrow> (fs @ fs', rest')))"
proof (induction n xs rule: cut.induct)
  case (1 n xs)
  show ?case
  proof (cases "n = 0 \<or> length xs < n")
    case True
    then show ?thesis by (auto simp: cut.simps [of n xs] split: prod.splits)
  next
    case False
    then have "cut n (xs @ ys) = (case cut n (drop n xs @ ys) of (fs, r) \<Rightarrow> (take n xs # fs, r))"
      by (simp add: cut.simps [of n "xs @ ys"])
    with 1 False show ?thesis
      by (auto simp: cut.simps [of n xs] split: prod.splits)
  qed
qed

lemma cut_short: "length xs < n \<Longrightarrow> cut n xs = ([], xs)"
  by (simp add: cut.simps)

text \<open>Cutting as data arrives is cutting all of it at the end.\<close>

lemma inbound_run_cut:
  assumes "length p < realtime_input_chunk_bytes"
  shows "inbound_run fs p = cut realtime_input_chunk_bytes
    (p @ concat (map (\<lambda>f. amplify_pcm16 (pcm16_at_24k f) whatsapp_realtime_input_gain) fs))"
  using assms
proof (induction fs arbitrary: p)
  case Nil
  then show ?case by (simp add: cut_short)
next
  case (Cons f fs)
  obtain sent q where c: "inbound_frame f p = (sent, q)" by (cases "inbound_frame f p")
  then have "length q < realtime_input_chunk_bytes"
    unfolding inbound_frame_def by (auto dest!: cut_frames [rotated] simp: realtime_input_chunk_bytes_def)
  from Cons.IH [OF this] c show ?case
    by (simp add: inbound_frame_def cut_append [where xs = "p @ _"] flip: append_assoc split: prod.splits)
qed

lemma outbound_run_cut:
  assumes "length p < fs"
  shows "outbound_run fs ds p =
    (case cut fs (p @ concat (map pcm16_at_16k ds)) of (frames, rest) \<Rightarrow> frames @ outbound_close fs rest)"
  using assms
proof (induction ds arbitrary: p)
  case Nil
  then show ?case by (simp add: cut_short)
next
  case (Cons d ds)
  obtain frames q where c: "outbound_data fs d p = (frames, q)" by (cases "outbound_data fs d p")
  then have "length q < fs"
    using cut_frames [of fs] Cons.prems by (auto simp: outbound_data_def)
  from Cons.IH [OF this] c show ?case
    by (simp add: outbound_data_def cut_append [where xs = "p @ _"] flip: append_assoc split: prod.splits)
qed


subsection \<open>The frame queue between the provider and the call\<close>

text \<open>
  \<open>realtimeAudioSource\<close>: a channel of 8 frames, the \<open>done\<close> channel closed by the \<open>once\<close>, the
  flag \<open>closed\<close>, and whether the call's context is cancelled. A Go \<open>select\<close> takes any ready case,
  so reading and pushing are relations; a state without a successor is a goroutine that waits.
\<close>

record 'f audio_source =
  src_frames :: "'f list"
  src_done :: bool
  src_closed :: bool
  src_ctx_done :: bool

definition audio_queue_cap :: nat where
  "audio_queue_cap = 8"

definition new_audio_source :: "'f audio_source" where
  "new_audio_source = \<lparr>src_frames = [], src_done = False, src_closed = False, src_ctx_done = False\<rparr>"

datatype 'f read_result = Read_eof | Read_frame 'f | Read_silence

inductive read_frame :: "'f audio_source \<Rightarrow> 'f read_result \<Rightarrow> 'f audio_source \<Rightarrow> bool" where
  read_ctx: "src_ctx_done s \<Longrightarrow> read_frame s Read_eof s"
| read_done: "src_done s \<Longrightarrow> read_frame s Read_eof s"
| read_queued: "src_frames s = f # fs \<Longrightarrow> read_frame s (Read_frame f) (s\<lparr>src_frames := fs\<rparr>)"
| read_default: "\<not> src_ctx_done s \<Longrightarrow> \<not> src_done s \<Longrightarrow> src_frames s = [] \<Longrightarrow>
    read_frame s Read_silence s"

definition source_close :: "'f audio_source \<Rightarrow> 'f audio_source" where
  "source_close s = s\<lparr>src_done := True, src_closed := True\<rparr>"

text \<open>What a push that does not have to wait leaves in the source.\<close>

definition offer_frame :: "'f \<Rightarrow> 'f audio_source \<Rightarrow> 'f audio_source" where
  "offer_frame f s =
     (if \<not> src_closed s \<and> length (src_frames s) < audio_queue_cap
      then s\<lparr>src_frames := src_frames s @ [f]\<rparr> else s)"

interpretation source_res: closable "\<lambda>s. src_done s \<and> src_closed s" source_close offer_frame
  by unfold_locales (simp_all add: source_close_def offer_frame_def)

datatype push_result = Push_eof | Push_ok

text \<open>
  \<open>Push\<close> waits for room. The last rule is a \<open>Close\<close> by another goroutine between the send and the
  second test of \<open>closed\<close>: the frame is queued and the caller is told \<open>io.EOF\<close>.
\<close>

inductive push :: "'f \<Rightarrow> 'f audio_source \<Rightarrow> push_result \<Rightarrow> 'f audio_source \<Rightarrow> bool" for f where
  push_closed: "src_closed s \<Longrightarrow> push f s Push_eof s"
| push_ctx: "\<not> src_closed s \<Longrightarrow> src_ctx_done s \<Longrightarrow> push f s Push_eof s"
| push_done: "\<not> src_closed s \<Longrightarrow> src_done s \<Longrightarrow> push f s Push_eof s"
| push_sent: "\<not> src_closed s \<Longrightarrow> length (src_frames s) < audio_queue_cap \<Longrightarrow>
    push f s Push_ok (offer_frame f s)"
| push_race: "\<not> src_closed s \<Longrightarrow> length (src_frames s) < audio_queue_cap \<Longrightarrow>
    push f s Push_eof (source_close (offer_frame f s))"

inductive try_push :: "'f \<Rightarrow> 'f audio_source \<Rightarrow> bool \<Rightarrow> 'f audio_source \<Rightarrow> bool" for f where
  try_closed: "src_closed s \<Longrightarrow> try_push f s False s"
| try_ctx: "\<not> src_closed s \<Longrightarrow> src_ctx_done s \<Longrightarrow> try_push f s False s"
| try_done: "\<not> src_closed s \<Longrightarrow> src_done s \<Longrightarrow> try_push f s False s"
| try_sent: "\<not> src_closed s \<Longrightarrow> length (src_frames s) < audio_queue_cap \<Longrightarrow>
    try_push f s True (offer_frame f s)"
| try_full: "\<not> src_closed s \<Longrightarrow> \<not> src_ctx_done s \<Longrightarrow> \<not> src_done s \<Longrightarrow>
    \<not> length (src_frames s) < audio_queue_cap \<Longrightarrow> try_push f s False s"

inductive_cases read_frameE: "read_frame s r t"
inductive_cases pushE: "push f s r t"
inductive_cases try_pushE: "try_push f s r t"
inductive_simps push_simps: "push f s r t"
inductive_simps read_frame_simps: "read_frame s r t"

text \<open>
  Any interleaving of the consumer, the producer, the two steps of \<open>Close\<close> (the \<open>done\<close> channel, then
  the flag) and the cancellation of the call, with the frames queued and the frames read so far
  recorded on the side.
\<close>

inductive source_run :: "'f audio_source \<Rightarrow> 'f list \<Rightarrow> 'f list \<Rightarrow> bool" where
  run_new: "source_run new_audio_source [] []"
| run_read: "source_run s ins outs \<Longrightarrow> read_frame s (Read_frame f) t \<Longrightarrow> source_run t ins (outs @ [f])"
| run_read_other: "source_run s ins outs \<Longrightarrow> read_frame s r t \<Longrightarrow> r \<in> {Read_eof, Read_silence} \<Longrightarrow>
    source_run t ins outs"
| run_push: "source_run s ins outs \<Longrightarrow> push f s r t \<Longrightarrow>
    source_run t (if length (src_frames t) > length (src_frames s) then ins @ [f] else ins) outs"
| run_try_push: "source_run s ins outs \<Longrightarrow> try_push f s b t \<Longrightarrow>
    source_run t (if b then ins @ [f] else ins) outs"
| run_close_done: "source_run s ins outs \<Longrightarrow> source_run (s\<lparr>src_done := True\<rparr>) ins outs"
| run_close_flag: "source_run s ins outs \<Longrightarrow> src_done s \<Longrightarrow> source_run (source_close s) ins outs"
| run_cancel: "source_run s ins outs \<Longrightarrow> source_run (s\<lparr>src_ctx_done := True\<rparr>) ins outs"

lemma source_run_inv:
  "source_run s ins outs \<Longrightarrow>
     ins = outs @ src_frames s \<and> length (src_frames s) \<le> audio_queue_cap \<and> (src_closed s \<longrightarrow> src_done s)"
  by (induction rule: source_run.induct)
    (auto elim!: read_frameE pushE try_pushE simp: new_audio_source_def source_close_def offer_frame_def)

subsection \<open>Properties\<close>

lemma length_pcm16_at_24k: "length (pcm16_at_24k frame) = 3 * length frame"
  by (simp add: pcm16_at_24k_def length_concat o_def sum_list_triv)

lemma samples_pcm16_at_24k:
  "samples_of (pcm16_at_24k frame) = map (sample24 frame) [0..<length frame * 3 div 2]"
proof -
  have r: "sint (of_int (sample24 frame i) :: u16) = sample24 frame i" for i
    using sample24_bound [of frame i] by simp
  have z: "samples_of (replicate (n mod 2) 0) = []" for n
    by (cases "even n") (simp_all add: odd_iff_mod_2_eq_one)
  show ?thesis
    by (simp add: pcm16_at_24k_def r z)
qed

text \<open>A converted frame has three bytes for every input sample (PCM16 at 24 kHz from 16 kHz); the
  samples in it are the interpolated ones without any wrap of \<open>int16\<close> (each is in -32767 .. 32767);
  and the interpolation never indexes outside the frame.\<close>

theorem pcm16_at_24k_ok:
  assumes "length frame < 2 ^ 50"
  shows "length (pcm16_at_24k frame) = 3 * length frame
    \<and> samples_of (pcm16_at_24k frame) = map (sample24 frame) [0..<length frame * 3 div 2]
    \<and> (\<forall>i < length frame * 3 div 2.
          nat (trunc (pos24 i)) < length frame \<and> \<bar>sample24 frame i\<bar> \<le> 32767)"
  using assms length_pcm16_at_24k samples_pcm16_at_24k sample24_bound sample24_in_frame by blast

theorem pcm16_at_24k_ok_witness:
  "length (pcm16_at_24k [1, -1]) = 6 \<and> nat (trunc (pos24 2)) < 2"
  using pcm16_at_24k_ok [of "[1, -1]"] by (auto dest!: spec [where x = 2])

text \<open>Conversion to 16 kHz is exact in spite of \<open>float32\<close>: of \<open>n\<close> stored samples it makes
  \<open>2 n / 3\<close>, the even ones equal to the stored sample over 32768, the odd ones exactly the mean of the
  two neighbours.\<close>

theorem pcm16_at_16k_exact:
  assumes "length data < 2 ^ 51"
  shows "pcm16_at_16k data =
    (let ss = samples_of data
     in map (\<lambda>i. if even i then of_int (ss ! (3 * i div 2)) / 32768
                 else of_int (ss ! (3 * i div 2) + ss ! (3 * i div 2 + 1)) / 65536)
          [0..<length data div 2 * 2 div 3])"
  using assms sample16_eq [of _ "samples_of data"] samples_of_bounds
  by (auto simp: pcm16_at_16k_def Let_def)

theorem pcm16_at_16k_exact_witness:
  "pcm16_at_16k [0, 1, 0, 3, 0, 5] = [256 / 32768, (768 + 1280) / 65536]"
  using pcm16_at_16k_exact [of "[0, 1, 0, 3, 0, 5]"]
  by (simp add: Let_def le_uint16_def upt_rec)

text \<open>C37: no inbound audio is lost, repeated or reordered however the frames arrive: the chunks sent to
  the provider, followed by what is still pending, are the converted audio; every chunk has 960 bytes
  and less than one chunk is pending.\<close>

theorem inbound_complete:
  "case inbound_run frames [] of (sent, pending) \<Rightarrow>
     concat sent @ pending =
       concat (map (\<lambda>f. amplify_pcm16 (pcm16_at_24k f) whatsapp_realtime_input_gain) frames)
     \<and> list_all (\<lambda>c. length c = realtime_input_chunk_bytes) sent
     \<and> length pending < realtime_input_chunk_bytes"
proof -
  have n: "0 < realtime_input_chunk_bytes" by (simp add: realtime_input_chunk_bytes_def)
  show ?thesis
    using inbound_run_cut [of "[]" frames] n by (auto dest: cut_concat cut_frames [OF n] split: prod.splits)
qed

text \<open>Outbound audio reaches the call in frames of exactly \<open>fs\<close> samples, which hold all the
  converted audio in order, followed by less than a frame of silence.\<close>

theorem outbound_complete:
  assumes "0 < fs"
  shows "list_all (\<lambda>f. length f = fs) (outbound_run fs ds [])
    \<and> (\<exists>k < fs. concat (outbound_run fs ds []) = concat (map pcm16_at_16k ds) @ replicate k 0)"
proof -
  obtain frames rest where c: "cut fs (concat (map pcm16_at_16k ds)) = (frames, rest)"
    by (cases "cut fs (concat (map pcm16_at_16k ds))")
  have run: "outbound_run fs ds [] = frames @ outbound_close fs rest"
    using outbound_run_cut [of "[]" fs ds] assms c by simp
  have rest: "length rest < fs" and frames: "list_all (\<lambda>f. length f = fs) frames"
    using cut_frames [OF assms c] by simp_all
  show ?thesis
  proof (cases "rest = []")
    case True
    then show ?thesis using run frames cut_concat [OF c] assms by (auto simp: outbound_close_def)
  next
    case False
    then have "fs - length rest < fs" using assms by (cases rest) auto
    then show ?thesis
      using False run frames rest by (auto simp: outbound_close_def simp flip: cut_concat [OF c])
  qed
qed

theorem outbound_complete_witness:
  "outbound_run 2 [[0, 1, 0, 3, 0, 5], [0, 1, 0, 1]] [] \<noteq> []
   \<and> list_all (\<lambda>f. length f = 2) (outbound_run 2 [[0, 1, 0, 3, 0, 5], [0, 1, 0, 1]] [])"
proof -
  let ?run = "outbound_run 2 [[0, 1, 0, 3, 0, 5], [0, 1, 0, 1]] []"
  have "list_all (\<lambda>f. length f = 2) ?run
      \<and> (\<exists>k < 2. concat ?run = concat (map pcm16_at_16k [[0, 1, 0, 3, 0, 5], [0, 1, 0, 1]]) @ replicate k 0)"
    by (rule outbound_complete) simp
  moreover have "concat (map pcm16_at_16k [[0, 1, 0, 3, 0, 5], [0, 1, 0, 1]]) \<noteq> []"
    by (simp add: pcm16_at_16k_def Let_def upt_rec)
  ultimately show ?thesis by (metis append_is_Nil_conv concat.simps(1))
qed

lemma read_never_waits: "\<exists>r t. read_frame s r t"
  by (cases "src_frames s") (auto simp: read_frame_simps)

lemma push_waits:
  "(\<nexists>r t. push f s r t) \<longleftrightarrow>
     length (src_frames s) \<ge> audio_queue_cap \<and> \<not> src_closed s \<and> \<not> src_done s \<and> \<not> src_ctx_done s"
proof
  assume none: "\<nexists>r t. push f s r t"
  show "length (src_frames s) \<ge> audio_queue_cap \<and> \<not> src_closed s \<and> \<not> src_done s \<and> \<not> src_ctx_done s"
    using none push_closed push_ctx push_done push_sent by (meson not_le)
next
  assume "length (src_frames s) \<ge> audio_queue_cap \<and> \<not> src_closed s \<and> \<not> src_done s \<and> \<not> src_ctx_done s"
  then show "\<nexists>r t. push f s r t" by (auto elim!: pushE)
qed

lemma closed_source:
  assumes "src_closed s" "src_done s"
  shows "push f s r t \<Longrightarrow> r = Push_eof \<and> t = s" and "\<not> read_frame s Read_silence t"
  using assms by (auto elim!: pushE read_frameE)


lemma source_run_example:
  "source_run \<lparr>src_frames = [2], src_done = True, src_closed = True, src_ctx_done = False\<rparr> [1, 2] [1::int]"
proof -
  let ?s = "\<lambda>fs. new_audio_source\<lparr>src_frames := fs\<rparr> :: int audio_source"
  have "source_run (?s [1]) ([] @ [1]) []"
    using run_try_push [OF run_new try_sent [of new_audio_source 1]]
    by (simp add: new_audio_source_def audio_queue_cap_def offer_frame_def)
  then have "source_run (?s [1, 2]) ([1] @ [2]) []"
    using run_try_push [OF _ try_sent [of "?s [1]" 2], of "[1]" "[]"]
    by (simp add: new_audio_source_def audio_queue_cap_def offer_frame_def)
  then have "source_run (?s [2]) [1, 2] ([] @ [1])"
    using run_read [OF _ read_queued [of "?s [1, 2]" 1 "[2]"], of "[1, 2]" "[]"]
    by (simp add: new_audio_source_def)
  then have "source_run (source_close (?s [2]\<lparr>src_done := True\<rparr>)) [1, 2] [1]"
    by (intro run_close_flag run_close_done) simp_all
  then show ?thesis by (simp add: source_close_def new_audio_source_def)
qed


end
