(* ===== verification/Call_Events.thy ===== *)
theory Call_Events
  imports GoLib
begin

section \<open>The event hub of a call (internal/whatsapp/calls/events.go)\<close>

text \<open>
  An \<open>eventHub\<close> numbers the events of one call, keeps the last 128 of them for replay, and
  copies each to every subscriber's channel without ever waiting for a slow one.

  The channels made by \<open>subscribe\<close> live in the list \<open>hub_chans\<close> and are named by their
  index; \<open>hub_subs\<close> lists the keys of the Go map \<open>subscribers\<close>. \<open>hub_panic\<close> is set
  where the Go code would panic (a send on a closed channel, a second close): the section ends with
  the proof that it never is. The mutex makes each operation one step.
\<close>

definition call_event_replay_limit :: nat where
  "call_event_replay_limit = 128"

text \<open>\<open>model.File\<close> comes from air-common; these are the fields the program reads.\<close>

record go_file =
  file_type :: string
  file_url :: string
  file_name :: string
  file_caption :: string

record call_event =
  ev_call_id :: string
  ev_type :: string
  ev_delta :: string
  ev_text :: string
  ev_response_id :: string
  ev_err :: "string option"
  ev_seq :: u64
  ev_time :: int
  ev_data :: "byte list"
  ev_files :: "go_file list"

definition blank_event :: "string \<Rightarrow> call_event" where
  "blank_event ty = \<lparr>ev_call_id = [], ev_type = ty, ev_delta = [], ev_text = [], ev_response_id = [],
     ev_err = None, ev_seq = 0, ev_time = 0, ev_data = [], ev_files = []\<rparr>"

record event_hub =
  hub_seq :: u64
  hub_replay :: "call_event list"
  hub_subs :: "nat list"
  hub_chans :: "call_event chan list"
  hub_closed :: bool
  hub_panic :: bool

definition new_event_hub :: event_hub where
  "new_event_hub = \<lparr>hub_seq = 0, hub_replay = [], hub_subs = [], hub_chans = [],
     hub_closed = False, hub_panic = False\<rparr>"

subsection \<open>Operations\<close>

text \<open>The body of the loop over the subscribers in \<open>publish\<close>.\<close>

definition hub_deliver :: "call_event \<Rightarrow> nat \<Rightarrow> event_hub \<Rightarrow> event_hub" where
  "hub_deliver e i h =
     (if ch_closed (hub_chans h ! i) then h\<lparr>hub_panic := True\<rparr>
      else h\<lparr>hub_chans := (hub_chans h)[i := chan_offer e (hub_chans h ! i)]\<rparr>)"

definition stamp :: "u64 \<Rightarrow> int \<Rightarrow> call_event \<Rightarrow> call_event" where
  "stamp n now e = e\<lparr>ev_seq := n, ev_time := now\<rparr>"

definition last_n :: "nat \<Rightarrow> 'a list \<Rightarrow> 'a list" where
  "last_n n xs = (if length xs > n then drop (length xs - n) xs else xs)"

definition publish :: "int \<Rightarrow> call_event \<Rightarrow> event_hub \<Rightarrow> event_hub" where
  "publish now event h =
     (if hub_closed h then h
      else
        let n = hub_seq h + 1;
            e = stamp n now event;
            replay = last_n call_event_replay_limit (hub_replay h @ [e])
        in fold (hub_deliver e) (hub_subs h) (h\<lparr>hub_seq := n, hub_replay := replay\<rparr>))"

text \<open>
  \<open>subscribe\<close> fills the new channel with plain sends while it holds the mutex: a send into a full
  buffer would never return. \<open>None\<close> stands for that.
\<close>

fun send_all :: "call_event list \<Rightarrow> call_event chan \<Rightarrow> call_event chan option" where
  "send_all [] c = Some c"
| "send_all (e # es) c =
     (if chan_full c then None else send_all es (c\<lparr>ch_buf := ch_buf c @ [e]\<rparr>))"

datatype subscribe_error = Stream_closed | Subscribe_hangs

definition subscribe :: "u64 \<Rightarrow> event_hub \<Rightarrow> (subscribe_error + nat) \<times> event_hub" where
  "subscribe after h =
     (if hub_closed h then (Inl Stream_closed, h)
      else
        (case send_all (filter (\<lambda>e. ev_seq e > after) (hub_replay h))
                (make_chan call_event_replay_limit) of
           None \<Rightarrow> (Inl Subscribe_hangs, h)
         | Some c \<Rightarrow>
             let ch = length (hub_chans h)
             in (Inr ch, h\<lparr>hub_chans := hub_chans h @ [c], hub_subs := hub_subs h @ [ch]\<rparr>)))"

text \<open>\<open>close(ch)\<close> on a subscriber's channel.\<close>

definition hub_close_chan :: "nat \<Rightarrow> event_hub \<Rightarrow> event_hub" where
  "hub_close_chan i h =
     (if ch_closed (hub_chans h ! i) then h\<lparr>hub_panic := True\<rparr>
      else h\<lparr>hub_chans := (hub_chans h)[i := chan_close (hub_chans h ! i)]\<rparr>)"

definition unsubscribe :: "nat \<Rightarrow> event_hub \<Rightarrow> event_hub" where
  "unsubscribe ch h =
     (if ch \<in> set (hub_subs h)
      then hub_close_chan ch (h\<lparr>hub_subs := remove1 ch (hub_subs h)\<rparr>) else h)"

definition hub_close :: "event_hub \<Rightarrow> event_hub" where
  "hub_close h =
     (if hub_closed h then h
      else (fold hub_close_chan (hub_subs h) (h\<lparr>hub_closed := True\<rparr>))\<lparr>hub_subs := []\<rparr>)"

text \<open>A subscriber reading from its channel; not a function of the file, but the other side of it.\<close>

definition hub_recv :: "nat \<Rightarrow> event_hub \<Rightarrow> event_hub" where
  "hub_recv i h =
     (if i < length (hub_chans h)
      then h\<lparr>hub_chans := (hub_chans h)[i := snd (chan_recv (hub_chans h ! i))]\<rparr> else h)"

subsection \<open>Sequences of operations and the abstract history\<close>

datatype hub_op = Publish int call_event | Subscribe u64 | Unsubscribe nat | Close_hub | Recv nat

fun hub_step :: "hub_op \<Rightarrow> event_hub \<Rightarrow> event_hub" where
  "hub_step (Publish now e) h = publish now e h"
| "hub_step (Subscribe after) h = snd (subscribe after h)"
| "hub_step (Unsubscribe ch) h = unsubscribe ch h"
| "hub_step Close_hub h = hub_close h"
| "hub_step (Recv i) h = hub_recv i h"

definition hub_run :: "hub_op list \<Rightarrow> event_hub \<Rightarrow> event_hub" where
  "hub_run ops h = fold hub_step ops h"

text \<open>
  The specification: the hub is a log of all events published before it was closed, numbered from 1.
\<close>

fun hist_step :: "hub_op \<Rightarrow> call_event list \<times> bool \<Rightarrow> call_event list \<times> bool" where
  "hist_step (Publish now e) (hist, cl) =
     (if cl then (hist, cl) else (hist @ [stamp (of_nat (length hist + 1)) now e], cl))"
| "hist_step Close_hub (hist, cl) = (hist, True)"
| "hist_step _ s = s"

text \<open>The entries that a batch of publications adds to a log of length \<open>n\<close>.\<close>

fun stamp_from :: "nat \<Rightarrow> (int \<times> call_event) list \<Rightarrow> call_event list" where
  "stamp_from n [] = []"
| "stamp_from n ((now, e) # es) = stamp (of_nat (n + 1)) now e # stamp_from (n + 1) es"

definition hub_hist :: "hub_op list \<Rightarrow> call_event list \<times> bool" where
  "hub_hist ops = fold hist_step ops ([], False)"

definition numbered :: "call_event list \<Rightarrow> bool" where
  "numbered hist \<longleftrightarrow> map ev_seq hist = map (\<lambda>i. of_nat (i + 1)) [0..<length hist]"

definition chans_ok :: "call_event list \<Rightarrow> nat list \<Rightarrow> call_event chan list \<Rightarrow> bool" where
  "chans_ok hist subs cs \<longleftrightarrow>
     distinct subs \<and> set subs \<subseteq> {..<length cs} \<and>
     (\<forall>i < length cs. ch_cap (cs ! i) = call_event_replay_limit \<and>
        length (ch_buf (cs ! i)) \<le> call_event_replay_limit \<and>
        (ch_closed (cs ! i) \<longleftrightarrow> i \<notin> set subs) \<and>
        subseq (chan_stream (cs ! i)) hist)"

definition hub_rep :: "call_event list \<times> bool \<Rightarrow> event_hub \<Rightarrow> bool" where
  "hub_rep a h \<longleftrightarrow>
     \<not> hub_panic h \<and> hub_closed h = snd a \<and> numbered (fst a) \<and>
     hub_seq h = of_nat (length (fst a)) \<and>
     hub_replay h = last_n call_event_replay_limit (fst a) \<and>
     (snd a \<longrightarrow> hub_subs h = []) \<and>
     chans_ok (fst a) (hub_subs h) (hub_chans h)"

subsection \<open>Lemmas\<close>

lemma last_n_eq_drop: "last_n n xs = drop (length xs - n) xs"
  by (simp add: last_n_def)

lemma length_last_n [simp]: "length (last_n n xs) = min n (length xs)"
  by (auto simp: last_n_def)

lemma last_n_snoc: "last_n n (last_n n xs @ [x]) = last_n n (xs @ [x])"
proof (cases "length xs < n")
  case True
  then show ?thesis by (simp add: last_n_eq_drop)
next
  case False
  then have "Suc (length xs) - n = Suc (length xs - n) \<or> n = 0" by auto
  with False show ?thesis
    by (cases "n = 0") (auto simp: last_n_eq_drop Suc_diff_le drop_drop)
qed

lemma stamp_simps [simp]:
  "ev_seq (stamp n now e) = n" "ev_type (stamp n now e) = ev_type e"
  "ev_call_id (stamp n now e) = ev_call_id e"
  by (simp_all add: stamp_def)

lemma numbered_Nil [simp]: "numbered []"
  by (simp add: numbered_def)

lemma numbered_snoc: "numbered (hist @ [e]) \<longleftrightarrow> numbered hist \<and> ev_seq e = of_nat (length hist + 1)"
  by (auto simp: numbered_def)

lemma numbered_nth: "numbered hist \<Longrightarrow> i < length hist \<Longrightarrow> ev_seq (hist ! i) = of_nat (i + 1)"
  unfolding numbered_def by (drule arg_cong [where f = "\<lambda>xs. xs ! i"]) (simp del: upt_Suc)

text \<open>Which fields the loops of the operations touch.\<close>

lemma hub_deliver_frame [simp]:
  "hub_seq (hub_deliver e i h) = hub_seq h" "hub_replay (hub_deliver e i h) = hub_replay h"
  "hub_subs (hub_deliver e i h) = hub_subs h" "hub_closed (hub_deliver e i h) = hub_closed h"
  "length (hub_chans (hub_deliver e i h)) = length (hub_chans h)"
  by (simp_all add: hub_deliver_def)

lemma hub_delivers_frame [simp]:
  "hub_seq (fold (hub_deliver e) is h) = hub_seq h"
  "hub_replay (fold (hub_deliver e) is h) = hub_replay h"
  "hub_subs (fold (hub_deliver e) is h) = hub_subs h"
  "hub_closed (fold (hub_deliver e) is h) = hub_closed h"
  "length (hub_chans (fold (hub_deliver e) is h)) = length (hub_chans h)"
  by (induction "is" arbitrary: h) simp_all

lemma hub_close_chan_frame [simp]:
  "hub_seq (hub_close_chan i h) = hub_seq h" "hub_replay (hub_close_chan i h) = hub_replay h"
  "hub_subs (hub_close_chan i h) = hub_subs h" "hub_closed (hub_close_chan i h) = hub_closed h"
  "length (hub_chans (hub_close_chan i h)) = length (hub_chans h)"
  by (simp_all add: hub_close_chan_def)

lemma hub_close_chans_frame [simp]:
  "hub_seq (fold hub_close_chan is h) = hub_seq h"
  "hub_replay (fold hub_close_chan is h) = hub_replay h"
  "hub_subs (fold hub_close_chan is h) = hub_subs h"
  "hub_closed (fold hub_close_chan is h) = hub_closed h"
  "length (hub_chans (fold hub_close_chan is h)) = length (hub_chans h)"
  by (induction "is" arbitrary: h) simp_all

text \<open>What the loops do to the channels, for distinct open channels.\<close>

lemma hub_delivers_eq:
  "distinct is \<Longrightarrow> set is \<subseteq> {..<length (hub_chans h)} \<Longrightarrow>
   \<forall>i \<in> set is. \<not> ch_closed (hub_chans h ! i) \<Longrightarrow>
   fold (hub_deliver e) is h = h\<lparr>hub_chans := fold (update_at (chan_offer e)) is (hub_chans h)\<rparr>"
proof (induction "is" arbitrary: h)
  case (Cons i "is")
  then have "hub_deliver e i h = h\<lparr>hub_chans := update_at (chan_offer e) i (hub_chans h)\<rparr>"
    by (simp add: hub_deliver_def update_at_def)
  moreover have "fold (hub_deliver e) is (h\<lparr>hub_chans := update_at (chan_offer e) i (hub_chans h)\<rparr>) =
      h\<lparr>hub_chans := fold (update_at (chan_offer e)) is (update_at (chan_offer e) i (hub_chans h))\<rparr>"
    using Cons.prems by (subst Cons.IH) (auto simp: nth_update_at)
  ultimately show ?case by simp
qed simp

lemma hub_close_chans_eq:
  "distinct is \<Longrightarrow> set is \<subseteq> {..<length (hub_chans h)} \<Longrightarrow>
   \<forall>i \<in> set is. \<not> ch_closed (hub_chans h ! i) \<Longrightarrow>
   fold hub_close_chan is h = h\<lparr>hub_chans := fold (update_at chan_close) is (hub_chans h)\<rparr>"
proof (induction "is" arbitrary: h)
  case (Cons i "is")
  then have "hub_close_chan i h = h\<lparr>hub_chans := update_at chan_close i (hub_chans h)\<rparr>"
    by (simp add: hub_close_chan_def update_at_def)
  moreover have "fold hub_close_chan is (h\<lparr>hub_chans := update_at chan_close i (hub_chans h)\<rparr>) =
      h\<lparr>hub_chans := fold (update_at chan_close) is (update_at chan_close i (hub_chans h))\<rparr>"
    using Cons.prems by (subst Cons.IH) (auto simp: nth_update_at)
  ultimately show ?case by simp
qed simp

lemma take_append_take: "take n (take n xs @ ys) = take n (xs @ ys)"
  by (cases "length xs \<le> n") auto

lemma send_all_some:
  "length (ch_buf c) + length es \<le> ch_cap c \<Longrightarrow> send_all es c = Some (c\<lparr>ch_buf := ch_buf c @ es\<rparr>)"
  by (induction es arbitrary: c) (auto simp: chan_full_def)

lemma length_filter_replay: "length (filter P (last_n n xs)) \<le> n"
  using length_filter_le [of P "last_n n xs"] by simp

lemma chans_okD:
  assumes "chans_ok hist subs cs"
  shows "distinct subs" "set subs \<subseteq> {..<length cs}"
    "i \<in> set subs \<Longrightarrow> \<not> ch_closed (cs ! i)"
    "i < length cs \<Longrightarrow> ch_cap (cs ! i) = call_event_replay_limit"
    "i < length cs \<Longrightarrow> length (ch_buf (cs ! i)) \<le> call_event_replay_limit"
    "i < length cs \<Longrightarrow> ch_closed (cs ! i) \<longleftrightarrow> i \<notin> set subs"
    "i < length cs \<Longrightarrow> subseq (chan_stream (cs ! i)) hist"
  using assms by (auto simp: chans_ok_def)


lemma chans_okI:
  assumes "distinct subs" "set subs \<subseteq> {..<length cs}"
    and "\<And>i. i < length cs \<Longrightarrow> ch_cap (cs ! i) = call_event_replay_limit \<and>
        length (ch_buf (cs ! i)) \<le> call_event_replay_limit \<and>
        (ch_closed (cs ! i) \<longleftrightarrow> i \<notin> set subs) \<and> subseq (chan_stream (cs ! i)) hist"
  shows "chans_ok hist subs cs"
  using assms by (simp add: chans_ok_def)

lemma chans_ok_deliver:
  assumes "chans_ok hist subs cs"
  shows "chans_ok (hist @ [e]) subs (fold (update_at (chan_offer e)) subs cs)"
proof (rule chans_okI)
  fix i assume "i < length (fold (update_at (chan_offer e)) subs cs)"
  then have i: "i < length cs" by simp
  note ok = chans_okD [OF assms]
  have "subseq (chan_stream (cs ! i)) (hist @ [e])"
    using ok(7) [OF i] subseq_rev_drop_many [of "chan_stream (cs ! i)" hist "[e]"] by simp
  moreover have "subseq (chan_stream (cs ! i) @ [e]) (hist @ [e])"
    using ok(7) [OF i] by simp
  moreover have "fold (update_at (chan_offer e)) subs cs ! i =
      (if i \<in> set subs then chan_offer e (cs ! i) else cs ! i)"
    by (rule nth_fold_update_at) (use ok(1,2) i in auto)
  ultimately show "ch_cap (fold (update_at (chan_offer e)) subs cs ! i) = call_event_replay_limit \<and>
      length (ch_buf (fold (update_at (chan_offer e)) subs cs ! i)) \<le> call_event_replay_limit \<and>
      (ch_closed (fold (update_at (chan_offer e)) subs cs ! i) \<longleftrightarrow> i \<notin> set subs) \<and>
      subseq (chan_stream (fold (update_at (chan_offer e)) subs cs ! i)) (hist @ [e])"
    using ok(4-6) [OF i] chan_offer_bound [of "cs ! i" e]
    by (auto simp: chan_stream_offer)
qed (use chans_okD(1,2) [OF assms] in auto)

lemma chans_ok_close:
  assumes "chans_ok hist subs cs"
  shows "chans_ok hist [] (fold (update_at chan_close) subs cs)"
proof (rule chans_okI)
  fix i assume "i < length (fold (update_at chan_close) subs cs)"
  then have i: "i < length cs" by simp
  note ok = chans_okD [OF assms]
  have nth: "fold (update_at chan_close) subs cs ! i =
      (if i \<in> set subs then chan_close (cs ! i) else cs ! i)"
    by (rule nth_fold_update_at) (use ok(1,2) i in auto)
  show "ch_cap (fold (update_at chan_close) subs cs ! i) = call_event_replay_limit \<and>
      length (ch_buf (fold (update_at chan_close) subs cs ! i)) \<le> call_event_replay_limit \<and>
      (ch_closed (fold (update_at chan_close) subs cs ! i) \<longleftrightarrow> i \<notin> set []) \<and>
      subseq (chan_stream (fold (update_at chan_close) subs cs ! i)) hist"
    using ok(4-7) [OF i] unfolding nth by (auto simp: chan_close_def chan_stream_def)
qed simp_all

lemma hub_rep_new [simp]: "hub_rep ([], False) new_event_hub"
  by (simp add: hub_rep_def new_event_hub_def chans_ok_def last_n_def)

lemma publish_rep:
  assumes "hub_rep a h"
  shows "hub_rep (hist_step (Publish now e) a) (publish now e h)"
proof (cases "snd a")
  case True
  with assms show ?thesis by (cases a) (auto simp: hub_rep_def publish_def)
next
  case False
  obtain hist where a: "a = (hist, False)" using False by (cases a) auto
  let ?e = "stamp (hub_seq h + 1) now e"
  have cs: "chans_ok hist (hub_subs h) (hub_chans h)" and op: "\<not> hub_closed h"
    using assms by (auto simp: hub_rep_def a)
  note ok = chans_okD [OF cs]
  have "publish now e h =
      h\<lparr>hub_seq := hub_seq h + 1, hub_replay := last_n call_event_replay_limit (hub_replay h @ [?e]),
        hub_chans := fold (update_at (chan_offer ?e)) (hub_subs h) (hub_chans h)\<rparr>"
    using ok(1-3) op by (simp add: publish_def Let_def hub_delivers_eq)
  then show ?thesis
    using assms chans_ok_deliver [OF cs, of ?e]
    by (simp add: hub_rep_def a last_n_snoc numbered_snoc add.commute)
qed

lemma subscribe_open:
  assumes "hub_rep (hist, False) h"
  shows "subscribe after h =
    (let b = filter (\<lambda>e. ev_seq e > after) (last_n call_event_replay_limit hist)
     in (Inr (length (hub_chans h)),
         h\<lparr>hub_chans := hub_chans h @ [(make_chan call_event_replay_limit)\<lparr>ch_buf := b\<rparr>],
           hub_subs := hub_subs h @ [length (hub_chans h)]\<rparr>))"
proof -
  have "hub_replay h = last_n call_event_replay_limit hist" "\<not> hub_closed h"
    using assms by (auto simp: hub_rep_def)
  then show ?thesis
    using length_filter_replay [of "\<lambda>e. ev_seq e > after" call_event_replay_limit hist]
    by (simp add: subscribe_def Let_def send_all_some make_chan_def)
qed

lemma subscribe_rep:
  assumes "hub_rep a h"
  shows "hub_rep (hist_step (Subscribe after) a) (snd (subscribe after h))"
proof (cases "snd a")
  case True
  with assms show ?thesis by (cases a) (auto simp: hub_rep_def subscribe_def)
next
  case False
  obtain hist where a: "a = (hist, False)" using False by (cases a) auto
  let ?b = "filter (\<lambda>e. ev_seq e > after) (last_n call_event_replay_limit hist)"
  have "subseq ?b (last_n call_event_replay_limit hist)" by simp
  moreover have "subseq (last_n call_event_replay_limit hist) hist"
    by (simp add: last_n_eq_drop suffix_imp_subseq suffix_drop)
  ultimately have "subseq ?b hist" by (rule subseq_order.order_trans)
  moreover have "chans_ok hist (hub_subs h) (hub_chans h)"
    using assms by (simp add: hub_rep_def a)
  ultimately have "chans_ok hist (hub_subs h @ [length (hub_chans h)])
      (hub_chans h @ [(make_chan call_event_replay_limit)\<lparr>ch_buf := ?b\<rparr>])"
    using length_filter_replay [of _ call_event_replay_limit hist]
    by (auto simp: chans_ok_def nth_append make_chan_def chan_stream_def)
  then show ?thesis
    using assms unfolding a by (subst subscribe_open) (auto simp: Let_def hub_rep_def)
qed

lemma unsubscribe_rep:
  assumes "hub_rep a h"
  shows "hub_rep a (unsubscribe ch h)"
proof (cases "ch \<in> set (hub_subs h)")
  case True
  have cs: "chans_ok (fst a) (hub_subs h) (hub_chans h)"
    using assms by (simp add: hub_rep_def)
  note ok = chans_okD [OF cs]
  have "chans_ok (fst a) (remove1 ch (hub_subs h)) ((hub_chans h)[ch := chan_close (hub_chans h ! ch)])"
    using cs True by (auto simp: chans_ok_def nth_list_update chan_close_def chan_stream_def)
  then show ?thesis
    using assms True ok(3) [OF True] by (auto simp: hub_rep_def unsubscribe_def hub_close_chan_def)
qed (use assms in \<open>simp add: unsubscribe_def\<close>)

lemma hub_close_open:
  assumes "hub_rep (hist, False) h"
  shows "hub_close h = h\<lparr>hub_closed := True, hub_subs := [],
    hub_chans := fold (update_at chan_close) (hub_subs h) (hub_chans h)\<rparr>"
proof -
  have cs: "chans_ok hist (hub_subs h) (hub_chans h)" and op: "\<not> hub_closed h"
    using assms by (auto simp: hub_rep_def)
  show ?thesis
    using chans_okD(1-3) [OF cs] op by (simp add: hub_close_def hub_close_chans_eq)
qed

lemma hub_close_rep:
  assumes "hub_rep a h"
  shows "hub_rep (hist_step Close_hub a) (hub_close h)"
proof (cases "snd a")
  case True
  with assms show ?thesis by (cases a) (auto simp: hub_rep_def hub_close_def)
next
  case False
  obtain hist where a: "a = (hist, False)" using False by (cases a) auto
  have "chans_ok hist (hub_subs h) (hub_chans h)" using assms by (simp add: hub_rep_def a)
  then have "chans_ok hist [] (fold (update_at chan_close) (hub_subs h) (hub_chans h))"
    by (rule chans_ok_close)
  then show ?thesis
    using assms unfolding a by (subst hub_close_open) (auto simp: hub_rep_def)
qed

lemma hub_recv_rep: "hub_rep a h \<Longrightarrow> hub_rep a (hub_recv i h)"
proof (cases "i < length (hub_chans h)")
  case True
  assume rep: "hub_rep a h"
  then have "chans_ok (fst a) (hub_subs h) (hub_chans h)" by (simp add: hub_rep_def)
  then have "chans_ok (fst a) (hub_subs h) ((hub_chans h)[i := snd (chan_recv (hub_chans h ! i))])"
    using True by (auto simp: chans_ok_def nth_list_update intro: le_trans [OF chan_recv_simps(3)])
  with rep True show ?thesis by (simp add: hub_rep_def hub_recv_def)
qed (simp add: hub_recv_def)

lemma hub_step_rep: "hub_rep a h \<Longrightarrow> hub_rep (hist_step op a) (hub_step op h)"
  using publish_rep [of a h] subscribe_rep [of a h] unsubscribe_rep [of a h] hub_close_rep [of a h]
    hub_recv_rep [of a h]
  by (cases op) simp_all

lemma hub_run_rep: "hub_rep a h \<Longrightarrow> hub_rep (fold hist_step ops a) (hub_run ops h)"
  unfolding hub_run_def by (induction ops arbitrary: a h) (auto simp: hub_step_rep)


text \<open>The tail of the log that a resuming subscriber asks for.\<close>

lemma filter_eq_drop:
  "(\<And>i. i < length xs \<Longrightarrow> P (xs ! i) \<longleftrightarrow> n \<le> i) \<Longrightarrow> filter P xs = drop n xs"
proof (induction xs arbitrary: n)
  case (Cons x xs)
  have "filter P xs = drop (n - 1) xs"
  proof (rule Cons.IH)
    fix i assume "i < length xs"
    then show "P (xs ! i) \<longleftrightarrow> n - 1 \<le> i" using Cons.prems [of "Suc i"] by auto
  qed
  moreover have "P x \<longleftrightarrow> n = 0" using Cons.prems [of 0] by simp
  ultimately show ?case by (cases n) auto
qed simp

lemma seq_after_iff:
  assumes "numbered hist" "length hist < 2 ^ 64" "i < length hist"
  shows "ev_seq (hist ! i) > after \<longleftrightarrow> unat after \<le> i"
proof -
  have "unat (ev_seq (hist ! i)) = i + 1"
    using assms by (simp add: numbered_nth unat_of_nat del: of_nat_Suc)
  then show ?thesis by (auto simp: word_less_nat_alt)
qed

lemma replay_after:
  assumes "numbered hist" "length hist < 2 ^ 64"
  shows "filter (\<lambda>e. ev_seq e > after) (last_n n hist) = drop (max (unat after) (length hist - n)) hist"
proof -
  let ?k = "length hist - n"
  have "filter (\<lambda>e. ev_seq e > after) (drop ?k hist) = drop (unat after - ?k) (drop ?k hist)"
    by (rule filter_eq_drop) (use assms seq_after_iff [of hist "?k + _" after] in auto)
  then show ?thesis by (simp add: last_n_eq_drop max_def)
qed

interpretation hub_res: closable hub_closed hub_close "\<lambda>(now, e). publish now e"
  by unfold_locales (auto simp: hub_close_def publish_def)

lemma hist_publishes:
  "fold hist_step (map (\<lambda>(t, e). Publish t e) es) (hist, False) =
     (hist @ stamp_from (length hist) es, False)"
  by (induction es arbitrary: hist) auto

lemma publish_offers:
  assumes "hub_rep (hist, False) h" "i \<in> set (hub_subs h)"
  shows "hub_chans (publish now e h) ! i = chan_offer (stamp (of_nat (length hist + 1)) now e) (hub_chans h ! i)"
    and "ch_cap (hub_chans h ! i) = call_event_replay_limit" "length (ch_buf (hub_chans h ! i)) \<le> call_event_replay_limit"
    and "i < length (hub_chans h)" "hub_subs (publish now e h) = hub_subs h"
proof -
  have cs: "chans_ok hist (hub_subs h) (hub_chans h)" and op: "\<not> hub_closed h"
    and seq: "hub_seq h = of_nat (length hist)"
    using assms by (auto simp: hub_rep_def)
  note ok = chans_okD [OF cs]
  show i: "i < length (hub_chans h)" using ok(2) assms(2) by auto
  show "ch_cap (hub_chans h ! i) = call_event_replay_limit" "length (ch_buf (hub_chans h ! i)) \<le> call_event_replay_limit"
    using ok(4,5) [OF i] by simp_all
  show "hub_chans (publish now e h) ! i = chan_offer (stamp (of_nat (length hist + 1)) now e) (hub_chans h ! i)"
    using ok(1-3) op i assms(2) seq by (simp add: publish_def Let_def hub_delivers_eq nth_fold_update_at add.commute)
  show "hub_subs (publish now e h) = hub_subs h" using op by (simp add: publish_def Let_def)
qed

lemma publish_chan:
  assumes "hub_rep (hist, False) h" "i \<in> set (hub_subs h)"
  shows "ch_buf (hub_chans (publish now e h) ! i) =
    take call_event_replay_limit (ch_buf (hub_chans h ! i) @ [stamp (of_nat (length hist + 1)) now e])"
  using publish_offers(1) [OF assms, of now e] publish_offers(2,3) [OF assms] by (simp add: chan_offer_buf max_def)

text \<open>A subscriber keeps up while it stays subscribed, the hub is not closed and there is room in its channel whenever an
  event is published; it may read at any time, and other subscribers may come and go.\<close>

fun keeps_up :: "nat \<Rightarrow> hub_op list \<Rightarrow> event_hub \<Rightarrow> bool" where
  "keeps_up ch [] h = True"
| "keeps_up ch (op # ops) h =
     ((case op of
         Publish now e \<Rightarrow> length (ch_buf (hub_chans h ! ch)) < call_event_replay_limit
       | Unsubscribe ch' \<Rightarrow> ch' \<noteq> ch
       | Close_hub \<Rightarrow> False
       | _ \<Rightarrow> True) \<and> keeps_up ch ops (hub_step op h))"

lemma follows_step:
  assumes "hub_rep (hist, False) h" "ch \<in> set (hub_subs h)" "keeps_up ch [op] h"
  shows "\<exists>new. hist_step op (hist, False) = (hist @ new, False) \<and> ch \<in> set (hub_subs (hub_step op h))
    \<and> chan_stream (hub_chans (hub_step op h) ! ch) = chan_stream (hub_chans h ! ch) @ new"
proof -
  note h = publish_offers [OF assms(1,2)]
  show ?thesis
  proof (cases op)
    case (Publish now e)
    then show ?thesis
      using assms(2,3) h(2) by (auto simp: h(1,5) chan_stream_offer chan_full_def)
  next
    case (Subscribe after)
    then show ?thesis
      using assms(2) h(4) by (simp add: subscribe_open [OF assms(1)] Let_def nth_append)
  next
    case (Unsubscribe ch')
    then show ?thesis
      using assms(2,3) h(4) by (auto simp: unsubscribe_def hub_close_chan_def in_set_remove1)
  next
    case (Recv i)
    then show ?thesis
      using assms(2) h(4) by (cases "i = ch") (auto simp: hub_recv_def chan_stream_def chan_recv_def split: list.split)
  qed (use assms(3) in simp)
qed

lemma follows_run:
  assumes "hub_rep (hist, False) h" "ch \<in> set (hub_subs h)" "keeps_up ch ops h"
  shows "\<exists>new. fold hist_step ops (hist, False) = (hist @ new, False) \<and> ch \<in> set (hub_subs (hub_run ops h))
    \<and> chan_stream (hub_chans (hub_run ops h) ! ch) = chan_stream (hub_chans h ! ch) @ new"
  using assms
proof (induction ops arbitrary: h hist)
  case (Cons op ops)
  then obtain new where new: "hist_step op (hist, False) = (hist @ new, False)" "ch \<in> set (hub_subs (hub_step op h))"
      "chan_stream (hub_chans (hub_step op h) ! ch) = chan_stream (hub_chans h ! ch) @ new"
    using follows_step [of hist h ch op] by auto
  have "hub_rep (hist @ new, False) (hub_step op h)" using hub_step_rep [OF Cons.prems(1), of op] new(1) by simp
  from Cons.IH [OF this new(2)] obtain new' where "fold hist_step ops (hist @ new, False) = (hist @ new @ new', False)"
      "ch \<in> set (hub_subs (hub_run ops (hub_step op h)))"
      "chan_stream (hub_chans (hub_run ops (hub_step op h)) ! ch) = chan_stream (hub_chans (hub_step op h) ! ch) @ new'"
    using Cons.prems(3) by auto
  then show ?case using new by (intro exI [of _ "new @ new'"]) (simp add: hub_run_def)
qed (simp add: hub_run_def)

subsection \<open>Properties\<close>

text \<open>C10: whatever sequence of publish, subscribe, unsubscribe, close and receive operations runs, the
  hub refines the append-only log of the events published before the close: it never panics (no
  send on a closed channel, no double close), the sequence counter is the length of the log, the
  replay buffer is exactly its last 128 entries, events are numbered 1, 2, 3, ... without gaps, a
  channel is open exactly while it is subscribed, and what any subscriber has seen is a subsequence
  of the log, in order and without duplicates.\<close>

theorem hub_refines_log: "hub_rep (hub_hist ops) (hub_run ops new_event_hub)"
  unfolding hub_hist_def by (rule hub_run_rep) simp

text \<open>C31: resuming from sequence number \<open>after\<close> never hangs on the mutex, and the new subscriber starts
  with exactly the events of the log after that number that are still within the last 128: none
  twice, none skipped, in order. Whatever then happens, as long as the subscriber keeps up it gets exactly the
  events that are published, each once and in order, after those that it had missed.\<close>

theorem subscribe_resumes:
  assumes "hub_hist ops = (hist, False)" and "length hist < 2 ^ 64"
    and "subscribe after (hub_run ops new_event_hub) = (r, h')"
  shows "\<exists>ch. r = Inr ch \<and> ch \<in> set (hub_subs h') \<and>
    ch_buf (hub_chans h' ! ch) = drop (max (unat after) (length hist - call_event_replay_limit)) hist
    \<and> (\<forall>later. keeps_up ch later h' \<longrightarrow>
        (\<exists>new. hub_hist (ops @ later) = (hist @ new, False)
          \<and> chan_stream (hub_chans (hub_run later h') ! ch) =
              drop (max (unat after) (length hist - call_event_replay_limit)) hist @ new))"
proof -
  have rep: "hub_rep (hist, False) (hub_run ops new_event_hub)"
    using hub_run_rep [OF hub_rep_new, of ops] assms(1) by (simp add: hub_hist_def)
  then have num: "numbered hist" by (simp add: hub_rep_def)
  let ?ch = "length (hub_chans (hub_run ops new_event_hub))"
  let ?missed = "drop (max (unat after) (length hist - call_event_replay_limit)) hist"
  have r: "r = Inr ?ch" "?ch \<in> set (hub_subs h')" "ch_buf (hub_chans h' ! ?ch) = ?missed" "chan_stream (hub_chans h' ! ?ch) = ?missed"
    using assms(3) unfolding subscribe_open [OF rep]
    by (auto simp: Let_def replay_after [OF num assms(2)] chan_stream_def make_chan_def)
  have rep': "hub_rep (hist, False) h'" using subscribe_rep [OF rep, of after] assms(3) by simp
  have "\<exists>new. hub_hist (ops @ later) = (hist @ new, False) \<and> chan_stream (hub_chans (hub_run later h') ! ?ch) = ?missed @ new"
    if "keeps_up ?ch later h'" for later
    using follows_run [OF rep' r(2) that] assms(1) r(4) by (auto simp: hub_hist_def)
  then show ?thesis using r by blast
qed

text \<open>A subscriber that stops reading keeps the oldest events and loses the newest: after any number of
  further events its buffer is the first 128 of what it held followed by the new events. So a
  reader that lags by at most 128 events loses nothing, and publishing never waits for it.\<close>

theorem slow_subscriber_keeps_prefix:
  assumes "hub_rep (hist, False) h" and "i \<in> set (hub_subs h)"
  shows "ch_buf (hub_chans (hub_run (map (\<lambda>(t, e). Publish t e) es) h) ! i) =
    take call_event_replay_limit (ch_buf (hub_chans h ! i) @ stamp_from (length hist) es)"
  using assms
proof (induction es arbitrary: h hist)
  case Nil
  then have cs: "chans_ok hist (hub_subs h) (hub_chans h)" by (simp add: hub_rep_def)
  have "length (ch_buf (hub_chans h ! i)) \<le> call_event_replay_limit"
    using chans_okD(2) [OF cs] chans_okD(5) [OF cs, of i] Nil.prems(2) by auto
  then show ?case by (simp add: hub_run_def)
next
  case (Cons p es)
  obtain t e where p: "p = (t, e)" by (cases p)
  let ?x = "stamp (of_nat (length hist + 1)) t e" and ?h = "publish t e h"
  have rep: "hub_rep (hist @ [?x], False) ?h"
    using publish_rep [OF Cons.prems(1), of t e] by simp
  have "\<not> hub_closed h" using Cons.prems(1) by (simp add: hub_rep_def)
  then have "i \<in> set (hub_subs ?h)" using Cons.prems(2) by (simp add: publish_def Let_def)
  from Cons.IH [OF rep this]
  have "ch_buf (hub_chans (hub_run (map (\<lambda>(t, e). Publish t e) (p # es)) h) ! i) =
      take call_event_replay_limit (take call_event_replay_limit (ch_buf (hub_chans h ! i) @ [?x]) @
        stamp_from (length hist + 1) es)"
    by (simp add: p hub_run_def publish_chan [OF Cons.prems, of t e] del: take_append)
  also have "\<dots> = take call_event_replay_limit (ch_buf (hub_chans h ! i) @ stamp_from (length hist) (p # es))"
    unfolding take_append_take by (simp only: p stamp_from.simps append_assoc append_Cons append_Nil)
  finally show ?case .
qed

text \<open>
  Witness of the two properties above: three events are published, the reader resumes after the
  first, and a fourth event follows.
\<close>

definition example_ops :: "hub_op list" where
  "example_ops = map (\<lambda>i. Publish i (blank_event ''audio'')) [1, 2, 3]"

lemma example_ops_hist:
  "hub_hist example_ops = (map (\<lambda>i. stamp (word_of_int i) i (blank_event ''audio'')) [1, 2, 3], False)"
  by (simp add: example_ops_def hub_hist_def)

theorem subscribe_resumes_witness:
  "\<exists>ch. fst (subscribe 1 (hub_run example_ops new_event_hub)) = Inr ch \<and>
     map ev_time (ch_buf (hub_chans (snd (subscribe 1 (hub_run example_ops new_event_hub))) ! ch)) = [2, 3]"
  using subscribe_resumes [OF example_ops_hist _ prod.collapse [symmetric], of 1]
  by (auto simp: call_event_replay_limit_def stamp_def)

theorem slow_subscriber_keeps_prefix_witness:
  "\<exists>hist h. hub_rep (hist, False) h \<and> 0 \<in> set (hub_subs h) \<and>
     ch_buf (hub_chans (hub_run [Publish 7 (blank_event ''audio'')] h) ! 0) =
     take call_event_replay_limit (ch_buf (hub_chans h ! 0) @ [stamp 1 7 (blank_event ''audio'')])"
proof (intro exI conjI)
  let ?h = "hub_run [Subscribe 0] new_event_hub"
  show rep: "hub_rep ([], False) ?h"
    using hub_run_rep [OF hub_rep_new, of "[Subscribe 0]"] by simp
  show sub: "0 \<in> set (hub_subs ?h)"
    by (simp add: hub_run_def subscribe_def new_event_hub_def Let_def)
  show "ch_buf (hub_chans (hub_run [Publish 7 (blank_event ''audio'')] ?h) ! 0) =
      take call_event_replay_limit (ch_buf (hub_chans ?h ! 0) @ [stamp 1 7 (blank_event ''audio'')])"
    using slow_subscriber_keeps_prefix [OF rep sub, of "[(7, blank_event ''audio'')]"] by simp
qed

end
