(* ===== verification/Wa_Types.thy ===== *)
theory Wa_Types
  imports GoLib
begin

section \<open>Types of the WhatsApp client library that the components share\<close>

text \<open>
  \<open>types.JID\<close> belongs to the client library: the program reads its fields \<open>User\<close> and \<open>Server\<close> and
  passes the rest along, here \<open>jid_rest\<close>. Two JIDs are compared with \<open>==\<close>, field by field. The server
  name of ordinary accounts, \<open>types.DefaultUserServer\<close>, is a constant of the library and a parameter
  (\<open>dus\<close>) of the definitions that compare with it.
\<close>

record jid =
  jid_user :: string
  jid_server :: string
  jid_rest :: "nat list"

definition empty_jid :: jid where
  "empty_jid = \<lparr>jid_user = [], jid_server = [], jid_rest = []\<rparr>"

text \<open>\<open>types.NewJID\<close>: user and server, nothing else.\<close>

definition new_jid :: "string \<Rightarrow> string \<Rightarrow> jid" where
  "new_jid user server = \<lparr>jid_user = user, jid_server = server, jid_rest = []\<rparr>"

lemma new_jid_simps [simp]:
  "jid_user (new_jid u s) = u" "jid_server (new_jid u s) = s" "jid_rest (new_jid u s) = []"
  by (simp_all add: new_jid_def)

text \<open>
  The part of \<open>whatsmeow.Client\<close> the components ask: \<open>IsLoggedIn\<close>, and the store's \<open>GetAltJID\<close>, which
  maps the two addresses of one contact to each other (\<open>None\<close>: the client has no store). The inner
  function gives the error text or the other address.
\<close>

record wa_client =
  wa_logged_in :: bool
  wa_alt_jid :: "(jid \<Rightarrow> string + jid) option"

text \<open>The text, in Russian and UTF-8, of the model error that is let through ("empty data received").\<close>

definition empty_data_text :: string where
  "empty_data_text = map char_of [208, 191, 208, 190, 208, 187, 209, 131, 209, 135, 208, 181, 208,
     189, 209, 139, 32, 208, 191, 209, 131, 209, 129, 209, 130, 209, 139, 208, 181, 32, 208, 180,
     208, 176, 208, 189, 208, 189, 209, 139, 208, 181 :: nat]"

end
