(* ===== verification/Calls.thy ===== *)
theory Calls
  imports Call_Audio Call_Events Wa_Types "HOL-Library.AList"
begin

section \<open>Calls of one bot (internal/whatsapp/calls/calls.go)\<close>

text \<open>
  A \<open>Manager\<close> keeps the sessions of the running calls under their call ids. Sessions are shared by
  pointer between the map, the callbacks of the call and the goroutines of the media, so they live in
  a list \<open>cm_sess\<close> and are named by their index; \<open>cm_active\<close> is the \<open>sync.Map\<close>, an association list
  of distinct keys whose order means nothing. \<open>cm_gauge\<close> is the metric of active calls of the bot and
  \<open>cm_fx\<close> records, in order, what the manager does to the outside: the calls it rejects or hangs
  up, the realtime sessions it starts and closes, the audio it sends and the events it gives to the
  caller's handler.

  Answers of the host and of the call library come from a record \<open>call_env\<close>, one for every
  operation, so that they may differ from one operation to the next. An operation runs as one step;
  where another goroutine may run in the middle of one (a call that ends while its realtime session
  is being started), the operation is split in two.
\<close>

subsection \<open>State\<close>

datatype direction = Incoming | Outgoing

datatype watch_phase = Watch_setup | Watch_media | Watch_over

record call_session =
  cs_call :: string
  cs_peer :: jid
  cs_cancelled :: bool
  cs_once :: bool
  cs_resp :: u64
  cs_source :: "rat list audio_source option"
  cs_ready :: bool
  cs_direction :: direction
  cs_recorder :: bool
  cs_handler :: bool
  cs_hub :: event_hub
  cs_last :: int
  cs_watch :: watch_phase
  cs_pending :: "byte list"
  cs_events :: bool

datatype call_effect =
  Fx_reject string
| Fx_answer string
| Fx_hangup string
| Fx_place string
| Fx_ensure u64 string
| Fx_start_session u64
| Fx_close_session u64
| Fx_record "rat list"
| Fx_close_recorder string
| Fx_audio u64 "byte list"
| Fx_handler string call_event
| Fx_metric string string string

record call_manager =
  cm_sess :: "call_session list"
  cm_active :: "(string \<times> nat) list"
  cm_gauge :: nat
  cm_fx :: "call_effect list"

definition new_manager :: call_manager where
  "new_manager = \<lparr>cm_sess = [], cm_active = [], cm_gauge = 0, cm_fx = []\<rparr>"

datatype call_error =
  No_call_client | Client_not_ready | Bot_stopped | Calls_disabled | No_target
| Context_done string | Place_failed string | Peer_unresolved jid num_error
| No_realtime_provider | Channel_failed string | Model_failed string | Model_missing u64
| Realtime_failed string | Realtime_not_started u64
| No_call_id | Call_not_active string | Hangup_failed string string
| Call_not_found string | Subscribe_failed subscribe_error

text \<open>
  What the host (\<open>calls.Host\<close>), the mode switch and the libraries answer during one operation. The
  second call of \<open>GetCh\<close> has its own field, because the channel is created between the two. The
  error of \<open>StartSession\<close> is what a non-blocking read of its channel gives: nothing yet, or \<open>nil\<close>, or
  an error.
\<close>

datatype early_error = No_value | Nil_value | Error_value string

record call_env =
  env_now :: int
  env_voice_calls :: bool
  env_mode :: bool
  env_allowed :: "string \<Rightarrow> bool"
  env_stopped :: bool
  env_has_call_client :: bool
  env_wa :: "wa_client option"
  env_dus :: string
  env_reject :: "string \<Rightarrow> string option"
  env_answer :: "string \<Rightarrow> string option"
  env_hangup :: "string \<Rightarrow> string option"
  env_place :: "string \<Rightarrow> string + string \<times> jid"
  env_ctx_err :: "string option"
  env_provider :: bool
  env_get_ch :: "u64 \<Rightarrow> string + u64"
  env_get_ch_again :: "u64 \<Rightarrow> string + u64"
  env_ensure :: "u64 \<Rightarrow> string \<Rightarrow> string option"
  env_resp_model :: "u64 \<Rightarrow> u64 \<Rightarrow> string \<Rightarrow> bool \<times> string option"
  env_start_session :: "u64 \<Rightarrow> u64 \<Rightarrow> bool \<times> early_error"

subsection \<open>Steps on the state\<close>

definition upd_sess :: "nat \<Rightarrow> (call_session \<Rightarrow> call_session) \<Rightarrow> call_manager \<Rightarrow> call_manager" where
  "upd_sess i f m = m\<lparr>cm_sess := update_at f i (cm_sess m)\<rparr>"

definition fx :: "call_effect \<Rightarrow> call_manager \<Rightarrow> call_manager" where
  "fx e m = m\<lparr>cm_fx := cm_fx m @ [e]\<rparr>"

definition metric :: "string \<Rightarrow> string \<Rightarrow> string \<Rightarrow> call_manager \<Rightarrow> call_manager" where
  "metric name a b = fx (Fx_metric name a b)"

definition set_gauge :: "call_manager \<Rightarrow> call_manager" where
  "set_gauge m = m\<lparr>cm_gauge := length (cm_active m)\<rparr>"

definition direction_name :: "direction \<Rightarrow> string" where
  "direction_name d = (case d of Incoming \<Rightarrow> ''incoming'' | Outgoing \<Rightarrow> ''outgoing'')"

definition active_call_ids :: "call_manager \<Rightarrow> string list" where
  "active_call_ids m = map fst (cm_active m)"

text \<open>\<open>emitEvent\<close>: the hub numbers its own copy; the handler gets the event as it was passed.\<close>

definition emit_event :: "int \<Rightarrow> nat \<Rightarrow> call_event \<Rightarrow> call_manager \<Rightarrow> call_manager" where
  "emit_event now i ev m =
     (let s = cm_sess m ! i;
          ev = ev\<lparr>ev_call_id := cs_call s\<rparr>;
          m = upd_sess i (\<lambda>s. s\<lparr>cs_hub := publish now ev (cs_hub s)\<rparr>) m
      in if cs_handler s then fx (Fx_handler (cs_call s) ev) m else m)"

text \<open>Cancelling the context of a session is seen by the audio source made from it.\<close>

definition cancel_session :: "call_session \<Rightarrow> call_session" where
  "cancel_session s = s\<lparr>cs_cancelled := True,
     cs_source := map_option (\<lambda>src. src\<lparr>src_ctx_done := True\<rparr>) (cs_source s)\<rparr>"

definition close_source :: "call_session \<Rightarrow> call_session" where
  "close_source s = s\<lparr>cs_source := map_option source_close (cs_source s)\<rparr>"

definition cleanup :: "int \<Rightarrow> string \<Rightarrow> call_manager \<Rightarrow> call_manager" where
  "cleanup now call_id m =
     (case map_of (cm_active m) call_id of
        None \<Rightarrow> m
      | Some i \<Rightarrow>
          let s = cm_sess m ! i in
          if cs_once s then m
          else
            let m = upd_sess i cancel_session m;
                m = emit_event now i (blank_event ''call_ended'') m;
                m = upd_sess i (\<lambda>s. s\<lparr>cs_hub := hub_close (cs_hub s)\<rparr>) m;
                m = metric ''whatsapp_calls'' (direction_name (cs_direction s)) ''ended'' m;
                m = (if cs_resp s \<noteq> 0 then fx (Fx_close_session (cs_resp s)) m else m);
                m = upd_sess i close_source m;
                m = (if cs_recorder s then fx (Fx_close_recorder call_id) m else m);
                m = m\<lparr>cm_active := AList.delete call_id (cm_active m)\<rparr>;
                m = set_gauge m
            in upd_sess i (\<lambda>s. s\<lparr>cs_once := True\<rparr>) m)"

text \<open>
  \<open>registerSession\<close> gives the session its hub, stores it, starts its watcher and asks the call to run
  \<open>cleanup\<close> when it ends (the operation \<open>End_call\<close> below).
\<close>

definition new_session :: "string \<Rightarrow> jid \<Rightarrow> direction \<Rightarrow> bool \<Rightarrow> int \<Rightarrow> call_session" where
  "new_session call_id peer dir handler now =
     \<lparr>cs_call = call_id, cs_peer = peer, cs_cancelled = False, cs_once = False, cs_resp = 0,
      cs_source = None, cs_ready = False, cs_direction = dir, cs_recorder = False,
      cs_handler = handler, cs_hub = new_event_hub, cs_last = now, cs_watch = Watch_setup,
      cs_pending = [], cs_events = False\<rparr>"

definition register_session :: "call_session \<Rightarrow> call_manager \<Rightarrow> call_manager" where
  "register_session s m =
     set_gauge (m\<lparr>cm_sess := cm_sess m @ [s],
                  cm_active := AList.update (cs_call s) (length (cm_sess m)) (cm_active m)\<rparr>)"

definition fail_realtime :: "call_env \<Rightarrow> string \<Rightarrow> call_manager \<Rightarrow> call_manager" where
  "fail_realtime e call_id m =
     fx (Fx_hangup call_id) (cleanup (env_now e) call_id (metric ''whatsapp_call_errors'' ''realtime'' [] m))"

definition end_timed_out :: "call_env \<Rightarrow> nat \<Rightarrow> call_manager \<Rightarrow> call_manager" where
  "end_timed_out e i m =
     (let cid = cs_call (cm_sess m ! i) in
      case map_of (cm_active m) cid of
        None \<Rightarrow> m
      | Some _ \<Rightarrow> cleanup (env_now e) cid (fx (Fx_hangup cid) m))"

subsection \<open>Starting the realtime session\<close>

definition resolve_peer :: "call_env \<Rightarrow> jid \<Rightarrow> call_error + u64" where
  "resolve_peer e peer =
     (let alt = (case env_wa e of
                   None \<Rightarrow> None
                 | Some c \<Rightarrow> if jid_server peer \<noteq> env_dus e then wa_alt_jid c else None);
          peer = (case alt of
                    None \<Rightarrow> peer
                  | Some get \<Rightarrow>
                      (case get peer of
                         Inl _ \<Rightarrow> peer
                       | Inr a \<Rightarrow> if jid_server a = env_dus e \<and> jid_user a \<noteq> [] then a else peer))
      in case parse_uint 64 (jid_user peer) of
           Inl err \<Rightarrow> Inl (Peer_unresolved peer err)
         | Inr n \<Rightarrow> Inr (of_nat n))"

definition user_channel :: "call_env \<Rightarrow> u64 \<Rightarrow> call_manager \<Rightarrow> (call_error + u64) \<times> call_manager" where
  "user_channel e resp m =
     (case env_get_ch e resp of
        Inr dialog \<Rightarrow> (Inr dialog, m)
      | Inl err \<Rightarrow>
          let name = format_uint (unat resp);
              m = fx (Fx_ensure resp name) m
          in case env_ensure e resp name of
               Some _ \<Rightarrow> (Inl (Channel_failed err), m)
             | None \<Rightarrow>
                 (case env_get_ch_again e resp of
                    Inl err2 \<Rightarrow> (Inl (Channel_failed err2), m)
                  | Inr dialog \<Rightarrow> (Inr dialog, m)))"

text \<open>
  \<open>startRealtime\<close> in two halves: \<open>open_realtime\<close> runs to the return of \<open>StartSession\<close>, which waits for
  the realtime provider; \<open>adopt_realtime\<close> records the session in the call and starts the media loops.
\<close>

definition model_fault :: "bool \<times> string option \<Rightarrow> u64 \<Rightarrow> call_error option" where
  "model_fault r resp =
     (case r of (present, err) \<Rightarrow>
        case err of
          Some txt \<Rightarrow> if \<not> str_contains txt empty_data_text then Some (Model_failed txt)
                      else if present then None else Some (Model_missing resp)
        | None \<Rightarrow> if present then None else Some (Model_missing resp))"

definition open_realtime :: "call_env \<Rightarrow> u64 \<Rightarrow> call_manager \<Rightarrow> call_error option \<times> call_manager" where
  "open_realtime e resp m =
     (if \<not> env_provider e then (Some No_realtime_provider, m)
      else
        (case user_channel e resp m of
           (Inl err, m) \<Rightarrow> (Some err, m)
         | (Inr dialog, m) \<Rightarrow>
             (case model_fault (env_resp_model e dialog resp (format_uint (unat resp))) resp of
                Some err \<Rightarrow> (Some err, m)
              | None \<Rightarrow>
                  let m = fx (Fx_start_session resp) m in
                  (case env_start_session e dialog resp of
                     (True, _) \<Rightarrow> (None, m)
                   | (False, Error_value txt) \<Rightarrow> (Some (Realtime_failed txt), m)
                   | (False, _) \<Rightarrow> (Some (Realtime_not_started resp), m)))))"

definition adopt_realtime :: "nat \<Rightarrow> u64 \<Rightarrow> call_manager \<Rightarrow> call_manager" where
  "adopt_realtime i resp =
     upd_sess i (\<lambda>s. s\<lparr>cs_resp := resp,
       cs_source := Some (new_audio_source\<lparr>src_ctx_done := cs_cancelled s\<rparr>),
       cs_pending := [], cs_events := True\<rparr>)"

definition start_realtime :: "call_env \<Rightarrow> nat \<Rightarrow> u64 \<Rightarrow> call_manager \<Rightarrow> call_error option \<times> call_manager" where
  "start_realtime e i resp m =
     (case open_realtime e resp m of
        (Some err, m) \<Rightarrow> (Some err, m)
      | (None, m) \<Rightarrow> (None, adopt_realtime i resp m))"

subsection \<open>The operations of the manager\<close>

text \<open>\<open>handleIncoming\<close>, and the callback it gives to \<open>call.OnReady\<close>, which runs later or never.\<close>

definition handle_incoming :: "call_env \<Rightarrow> string \<Rightarrow> jid \<Rightarrow> call_manager \<Rightarrow> call_manager" where
  "handle_incoming e call_id peer m =
     (if \<not> env_voice_calls e \<or> \<not> env_mode e \<or> \<not> env_allowed e (jid_user peer) then
        fx (Fx_reject call_id) (metric ''whatsapp_calls'' ''incoming'' ''rejected'' m)
      else
        let m = register_session (new_session call_id peer Incoming False (env_now e)) m;
            m = fx (Fx_answer call_id) m
        in case env_answer e call_id of
             Some _ \<Rightarrow> cleanup (env_now e) call_id (metric ''whatsapp_call_errors'' ''answer'' [] m)
           | None \<Rightarrow> m)"

definition on_ready :: "call_env \<Rightarrow> nat \<Rightarrow> call_manager \<Rightarrow> call_manager" where
  "on_ready e i m =
     (let s = cm_sess m ! i;
          m = upd_sess i (\<lambda>s. s\<lparr>cs_ready := True\<rparr>) m;
          m = metric ''whatsapp_calls'' ''incoming'' ''accepted'' m
      in case resolve_peer e (cs_peer s) of
           Inl _ \<Rightarrow> fail_realtime e (cs_call s) m
         | Inr resp \<Rightarrow>
             (case start_realtime e i resp m of
                (Some _, m) \<Rightarrow> fail_realtime e (cs_call s) m
              | (None, m) \<Rightarrow> m))"

definition stop_calls :: "int \<Rightarrow> string list \<Rightarrow> call_manager \<Rightarrow> call_manager" where
  "stop_calls now ks m = fold (cleanup now) ks m"

text \<open>The checks of \<open>InitiateOutgoing\<close> before it touches anything, in their order.\<close>

definition outgoing_refusal :: "call_env \<Rightarrow> string \<Rightarrow> call_error option" where
  "outgoing_refusal e target =
     (if \<not> env_has_call_client e then Some No_call_client
      else if (case env_wa e of None \<Rightarrow> True | Some c \<Rightarrow> \<not> wa_logged_in c) then Some Client_not_ready
      else if env_stopped e then Some Bot_stopped
      else if \<not> env_voice_calls e \<or> \<not> env_mode e then Some Calls_disabled
      else if target = [] then Some No_target
      else (case env_ctx_err e of Some txt \<Rightarrow> Some (Context_done txt) | None \<Rightarrow> None))"

text \<open>One visit of \<open>active.Range\<close>; \<open>ks\<close> is the order of the visits.\<close>

definition replace_call :: "int \<Rightarrow> string \<Rightarrow> call_manager \<Rightarrow> call_manager" where
  "replace_call now call_id m =
     (case map_of (cm_active m) call_id of
        None \<Rightarrow> m
      | Some i \<Rightarrow> cleanup now call_id (fx (Fx_hangup (cs_call (cm_sess m ! i))) m))"

definition connect_outgoing ::
  "call_env \<Rightarrow> string \<Rightarrow> jid \<Rightarrow> bool \<Rightarrow> call_manager \<Rightarrow> (call_error + string) \<times> call_manager" where
  "connect_outgoing e call_id peer handler m =
     (let now = env_now e;
          i = length (cm_sess m);
          m = register_session (new_session call_id peer Outgoing handler now) m;
          m = emit_event now i (blank_event ''call_started'') m
      in case resolve_peer e peer of
           Inl err \<Rightarrow> (Inl err, fail_realtime e call_id m)
         | Inr resp \<Rightarrow>
             let m = upd_sess i (\<lambda>s. s\<lparr>cs_ready := True\<rparr>) m in
             (case start_realtime e i resp m of
                (Some err, m) \<Rightarrow> (Inl err, fail_realtime e call_id m)
              | (None, m) \<Rightarrow>
                  let m = metric ''whatsapp_calls'' ''outgoing'' ''accepted'' m;
                      m = emit_event now i (blank_event ''call_connected'') m;
                      m = metric ''whatsapp_calls'' ''outgoing'' ''started'' m
                  in (Inr call_id, m)))"

definition initiate_outgoing ::
  "call_env \<Rightarrow> string \<Rightarrow> bool \<Rightarrow> string list \<Rightarrow> call_manager \<Rightarrow> (call_error + string) \<times> call_manager" where
  "initiate_outgoing e target handler ks m =
     (case outgoing_refusal e target of
        Some err \<Rightarrow> (Inl err, m)
      | None \<Rightarrow>
          let m = fold (replace_call (env_now e)) ks m;
              m = fx (Fx_place target) m
          in case env_place e target of
               Inl txt \<Rightarrow> (Inl (Place_failed txt), metric ''whatsapp_calls'' ''outgoing'' ''error'' m)
             | Inr (call_id, peer) \<Rightarrow> connect_outgoing e call_id peer handler m)"

definition hangup :: "call_env \<Rightarrow> string \<Rightarrow> call_manager \<Rightarrow> call_error option \<times> call_manager" where
  "hangup e call_id m =
     (if call_id = [] then (Some No_call_id, m)
      else
        (case map_of (cm_active m) call_id of
           None \<Rightarrow> (Some (Call_not_active call_id), m)
         | Some i \<Rightarrow>
             let cid = cs_call (cm_sess m ! i);
                 m = fx (Fx_hangup cid) m
             in case env_hangup e cid of
                  Some txt \<Rightarrow> (Some (Hangup_failed call_id txt), m)
                | None \<Rightarrow> (None, cleanup (env_now e) call_id m)))"

definition subscribe_call :: "string \<Rightarrow> u64 \<Rightarrow> call_manager \<Rightarrow> (call_error + nat \<times> nat) \<times> call_manager" where
  "subscribe_call call_id after m =
     (case map_of (cm_active m) call_id of
        None \<Rightarrow> (Inl (Call_not_found call_id), m)
      | Some i \<Rightarrow>
          (case subscribe after (cs_hub (cm_sess m ! i)) of
             (Inl err, h) \<Rightarrow> (Inl (Subscribe_failed err), upd_sess i (\<lambda>s. s\<lparr>cs_hub := h\<rparr>) m)
           | (Inr ch, h) \<Rightarrow> (Inr (i, ch), upd_sess i (\<lambda>s. s\<lparr>cs_hub := h\<rparr>) m)))"

subsection \<open>The goroutines of a session\<close>

text \<open>
  \<open>watchTimeout\<close> waits for one timer in each of its two phases. Times are in nanoseconds, as \<open>time.Duration\<close>.
\<close>

datatype watch_event = Context_cancelled | Setup_timer | Life_timer | Idle_tick

definition second :: int where "second = 1000000000"
definition call_setup_timeout :: int where "call_setup_timeout = 45 * second"
definition call_lifetime_timeout :: int where "call_lifetime_timeout = 2 * 3600 * second"
definition idle_tick :: int where "idle_tick = 15 * second"
definition idle_limit :: int where "idle_limit = 120 * second"

definition set_watch :: "nat \<Rightarrow> watch_phase \<Rightarrow> call_manager \<Rightarrow> call_manager" where
  "set_watch i w = upd_sess i (\<lambda>s. s\<lparr>cs_watch := w\<rparr>)"

fun watch_step :: "call_env \<Rightarrow> nat \<Rightarrow> watch_event \<Rightarrow> call_manager \<Rightarrow> call_manager" where
  "watch_step e i ev m =
     (let s = cm_sess m ! i in
      case (cs_watch s, ev) of
        (Watch_setup, Context_cancelled) \<Rightarrow> if cs_cancelled s then set_watch i Watch_over m else m
      | (Watch_setup, Setup_timer) \<Rightarrow>
          if cs_ready s then set_watch i Watch_media m
          else set_watch i Watch_over
                 (end_timed_out e i (metric ''whatsapp_call_errors'' ''media_setup_timeout'' [] m))
      | (Watch_media, Context_cancelled) \<Rightarrow> if cs_cancelled s then set_watch i Watch_over m else m
      | (Watch_media, Life_timer) \<Rightarrow> set_watch i Watch_over (end_timed_out e i m)
      | (Watch_media, Idle_tick) \<Rightarrow>
          if env_now e - cs_last s > idle_limit
          then set_watch i Watch_over
                 (end_timed_out e i (metric ''whatsapp_call_errors'' ''idle_timeout'' [] m))
          else set_watch i Watch_over m
      | _ \<Rightarrow> m)"

declare watch_step.simps [simp del]

text \<open>The sink given to \<open>call.Receive\<close>: one frame of the peer's voice.\<close>

definition receive_frame :: "int \<Rightarrow> nat \<Rightarrow> rat list \<Rightarrow> call_manager \<Rightarrow> call_manager" where
  "receive_frame now i frame m =
     (let s = cm_sess m ! i;
          m = upd_sess i (\<lambda>s. s\<lparr>cs_last := now\<rparr>) m;
          m = (if cs_recorder s then fx (Fx_record frame) m else m)
      in case inbound_frame frame (cs_pending s) of
           (chunks, pending) \<Rightarrow>
             fold (\<lambda>c. fx (Fx_audio (cs_resp s) c)) chunks
               (upd_sess i (\<lambda>s. s\<lparr>cs_pending := pending\<rparr>) m))"

text \<open>
  The goroutine that forwards the provider's events: an event of type \<open>error\<close> ends it and the call.
  A closed channel or a cancelled context ends it too (\<open>events_end\<close>).
\<close>

definition realtime_event :: "call_env \<Rightarrow> nat \<Rightarrow> call_event \<Rightarrow> call_manager \<Rightarrow> call_manager" where
  "realtime_event e i ev m =
     (let s = cm_sess m ! i in
      if \<not> cs_events s then m
      else if ev_type ev = ''error'' then
        upd_sess i (\<lambda>s. s\<lparr>cs_events := False\<rparr>)
          (fail_realtime e (cs_call s) (emit_event (env_now e) i ev m))
      else
        let m = emit_event (env_now e) i ev m in
        if ev_type ev = ''response_done'' then metric ''whatsapp_call_responses'' ''response_done'' [] m
        else m)"

definition events_end :: "nat \<Rightarrow> call_manager \<Rightarrow> call_manager" where
  "events_end i = upd_sess i (\<lambda>s. s\<lparr>cs_events := False\<rparr>)"

text \<open>\<open>pushFrame\<close> after a successful \<open>Push\<close> to the source.\<close>

definition frame_pushed :: "int \<Rightarrow> nat \<Rightarrow> rat list \<Rightarrow> call_manager \<Rightarrow> call_manager" where
  "frame_pushed now i frame =
     upd_sess i (\<lambda>s. case cs_source s of
         Some src \<Rightarrow>
           if \<not> src_closed src \<and> length (src_frames src) < audio_queue_cap
           then s\<lparr>cs_source := Some (offer_frame frame src), cs_last := now\<rparr>
           else s
       | None \<Rightarrow> s)"

subsection \<open>Runs\<close>

text \<open>
  Everything that can happen to a manager, in any order. \<open>Op_open\<close> and \<open>Op_adopt\<close> are the two halves of
  \<open>startRealtime\<close>, with room for other operations between them. An operation on a session that does
  not exist does nothing.
\<close>

datatype call_op =
  Op_incoming call_env string jid
| Op_ready call_env nat
| Op_outgoing call_env string bool "string list"
| Op_hangup call_env string
| Op_end int string
| Op_stop int "string list"
| Op_subscribe string u64
| Op_unsubscribe nat nat
| Op_recv nat nat
| Op_watch call_env nat watch_event
| Op_frame int nat "rat list"
| Op_event call_env nat call_event
| Op_events_end nat
| Op_pushed int nat "rat list"
| Op_open call_env u64
| Op_adopt nat u64
| Op_host_cancel

definition has_sess :: "call_manager \<Rightarrow> nat \<Rightarrow> bool" where
  "has_sess m i \<longleftrightarrow> i < length (cm_sess m)"

fun call_step :: "call_op \<Rightarrow> call_manager \<Rightarrow> call_manager" where
  "call_step (Op_incoming e cid peer) m = handle_incoming e cid peer m"
| "call_step (Op_ready e i) m = (if has_sess m i then on_ready e i m else m)"
| "call_step (Op_outgoing e target h ks) m = snd (initiate_outgoing e target h ks m)"
| "call_step (Op_hangup e cid) m = snd (hangup e cid m)"
| "call_step (Op_end now cid) m = cleanup now cid m"
| "call_step (Op_stop now ks) m = stop_calls now ks m"
| "call_step (Op_subscribe cid after) m = snd (subscribe_call cid after m)"
| "call_step (Op_unsubscribe i ch) m = upd_sess i (\<lambda>s. s\<lparr>cs_hub := unsubscribe ch (cs_hub s)\<rparr>) m"
| "call_step (Op_recv i ch) m = upd_sess i (\<lambda>s. s\<lparr>cs_hub := hub_recv ch (cs_hub s)\<rparr>) m"
| "call_step (Op_watch e i ev) m = (if has_sess m i then watch_step e i ev m else m)"
| "call_step (Op_frame now i f) m = (if has_sess m i then receive_frame now i f m else m)"
| "call_step (Op_event e i ev) m = (if has_sess m i then realtime_event e i ev m else m)"
| "call_step (Op_events_end i) m = events_end i m"
| "call_step (Op_pushed now i f) m = frame_pushed now i f m"
| "call_step (Op_open e resp) m = snd (open_realtime e resp m)"
| "call_step (Op_adopt i resp) m = adopt_realtime i resp m"
| "call_step Op_host_cancel m =
     m\<lparr>cm_sess := map (\<lambda>s. if cs_direction s = Incoming then cancel_session s else s) (cm_sess m)\<rparr>"

definition call_run :: "call_op list \<Rightarrow> call_manager \<Rightarrow> call_manager" where
  "call_run ops m = fold call_step ops m"

end
