(* ===== verification/Call_Safety.thy ===== *)
theory Call_Safety
  imports Calls
begin

section \<open>What the call manager keeps\<close>

text \<open>
  The invariant of the manager, its preservation by every operation, and the properties of calls: a
  call that has ended is out of the map and its event stream is closed after \<open>call_ended\<close>; an
  outgoing call replaces every other call or leaves none; errors leave nothing behind.
\<close>

subsection \<open>Frame lemmas\<close>

lemma upd_sess_simps [simp]:
  "cm_sess (upd_sess i f m) = update_at f i (cm_sess m)" "cm_active (upd_sess i f m) = cm_active m"
  "cm_gauge (upd_sess i f m) = cm_gauge m" "cm_fx (upd_sess i f m) = cm_fx m"
  by (simp_all add: upd_sess_def)

lemma fx_simps [simp]:
  "cm_sess (fx e m) = cm_sess m" "cm_active (fx e m) = cm_active m"
  "cm_gauge (fx e m) = cm_gauge m" "cm_fx (fx e m) = cm_fx m @ [e]"
  by (simp_all add: fx_def)

lemma metric_simps [simp]:
  "cm_sess (metric a b c m) = cm_sess m" "cm_active (metric a b c m) = cm_active m"
  "cm_gauge (metric a b c m) = cm_gauge m" "cm_fx (metric a b c m) = cm_fx m @ [Fx_metric a b c]"
  by (simp_all add: metric_def)

lemma set_gauge_simps [simp]:
  "cm_sess (set_gauge m) = cm_sess m" "cm_active (set_gauge m) = cm_active m"
  "cm_gauge (set_gauge m) = length (cm_active m)" "cm_fx (set_gauge m) = cm_fx m"
  by (simp_all add: set_gauge_def)

lemma emit_event_simps [simp]:
  "cm_sess (emit_event now i ev m) =
     update_at (\<lambda>s. s\<lparr>cs_hub := publish now (ev\<lparr>ev_call_id := cs_call s\<rparr>) (cs_hub s)\<rparr>) i (cm_sess m)"
  "cm_active (emit_event now i ev m) = cm_active m"
  "cm_gauge (emit_event now i ev m) = cm_gauge m"
  "cm_fx (emit_event now i ev m) = cm_fx m @
     (if cs_handler (cm_sess m ! i)
      then [Fx_handler (cs_call (cm_sess m ! i)) (ev\<lparr>ev_call_id := cs_call (cm_sess m ! i)\<rparr>)] else [])"
  by (simp_all add: emit_event_def Let_def update_at_def)

lemma fold_fx_simps [simp]:
  "cm_sess (fold (\<lambda>c. fx (f c)) cs m) = cm_sess m" "cm_active (fold (\<lambda>c. fx (f c)) cs m) = cm_active m"
  "cm_gauge (fold (\<lambda>c. fx (f c)) cs m) = cm_gauge m"
  "cm_fx (fold (\<lambda>c. fx (f c)) cs m) = cm_fx m @ map f cs"
  by (induction cs arbitrary: m) simp_all

lemma session_simps [simp]:
  "cs_call (cancel_session s) = cs_call s" "cs_hub (cancel_session s) = cs_hub s"
  "cs_once (cancel_session s) = cs_once s" "cs_cancelled (cancel_session s)"
  "cs_call (close_source s) = cs_call s" "cs_hub (close_source s) = cs_hub s"
  "cs_once (close_source s) = cs_once s" "cs_cancelled (close_source s) = cs_cancelled s"
  "cs_direction (cancel_session s) = cs_direction s" "cs_direction (close_source s) = cs_direction s"
  by (simp_all add: cancel_session_def close_source_def)

text \<open>What \<open>cleanup\<close> does to the session, and to the outside, when it finds it.\<close>

definition ended :: "int \<Rightarrow> call_session \<Rightarrow> call_session" where
  "ended now s =
     (let s' = close_source (cancel_session s)
      in s'\<lparr>cs_once := True,
            cs_hub := hub_close (publish now ((blank_event ''call_ended'')\<lparr>ev_call_id := cs_call s\<rparr>) (cs_hub s))\<rparr>)"

definition end_effects :: "string \<Rightarrow> call_session \<Rightarrow> call_effect list" where
  "end_effects call_id s =
     (if cs_handler s
      then [Fx_handler (cs_call s) ((blank_event ''call_ended'')\<lparr>ev_call_id := cs_call s\<rparr>)] else []) @
     [Fx_metric ''whatsapp_calls'' (direction_name (cs_direction s)) ''ended''] @
     (if cs_resp s \<noteq> 0 then [Fx_close_session (cs_resp s)] else []) @
     (if cs_recorder s then [Fx_close_recorder call_id] else [])"

lemma ended_simps [simp]:
  "cs_call (ended now s) = cs_call s" "cs_once (ended now s)" "cs_cancelled (ended now s)"
  "cs_hub (ended now s) =
     hub_close (publish now ((blank_event ''call_ended'')\<lparr>ev_call_id := cs_call s\<rparr>) (cs_hub s))"
  by (simp_all add: ended_def Let_def)

lemma cleanup_absent: "map_of (cm_active m) cid = None \<Longrightarrow> cleanup now cid m = m"
  by (simp add: cleanup_def)

lemma cleanup_found:
  assumes "map_of (cm_active m) cid = Some i" "i < length (cm_sess m)" "\<not> cs_once (cm_sess m ! i)"
  shows "cm_sess (cleanup now cid m) = update_at (ended now) i (cm_sess m)"
    and "cm_active (cleanup now cid m) = AList.delete cid (cm_active m)"
    and "cm_gauge (cleanup now cid m) = length (AList.delete cid (cm_active m))"
    and "cm_fx (cleanup now cid m) = cm_fx m @ end_effects cid (cm_sess m ! i)"
proof -
  have h: "cs_handler (cancel_session s) = cs_handler s" for s by (simp add: cancel_session_def)
  have e: "close_source ((cancel_session s)\<lparr>cs_hub := h\<rparr>)\<lparr>cs_once := True\<rparr> =
      (close_source (cancel_session s))\<lparr>cs_once := True, cs_hub := h\<rparr>" for s h
    by (simp add: close_source_def cancel_session_def)
  show "cm_sess (cleanup now cid m) = update_at (ended now) i (cm_sess m)"
    using assms by (simp add: cleanup_def Let_def ended_def [abs_def] e)
  show "cm_active (cleanup now cid m) = AList.delete cid (cm_active m)"
    "cm_gauge (cleanup now cid m) = length (AList.delete cid (cm_active m))"
    "cm_fx (cleanup now cid m) = cm_fx m @ end_effects cid (cm_sess m ! i)"
    using assms by (simp_all add: cleanup_def Let_def end_effects_def nth_update_at h)
qed

subsection \<open>The invariant\<close>

text \<open>
  A session's hub represents a log of events of its own call; the log is closed exactly when the
  session has ended, and then its last entry is \<open>call_ended\<close>.
\<close>

definition sess_ok :: "call_session \<Rightarrow> bool" where
  "sess_ok s \<longleftrightarrow>
     (\<exists>evs. hub_rep (evs, cs_once s) (cs_hub s) \<and> (\<forall>ev \<in> set evs. ev_call_id ev = cs_call s)
        \<and> (cs_once s \<longrightarrow> evs \<noteq> [] \<and> ev_type (last evs) = ''call_ended''))
     \<and> (cs_once s \<longrightarrow> cs_cancelled s)"

definition ended_fx :: "call_effect \<Rightarrow> bool" where
  "ended_fx e = (case e of Fx_metric _ _ c \<Rightarrow> c = ''ended'' | _ \<Rightarrow> False)"

definition manager_ok :: "call_manager \<Rightarrow> bool" where
  "manager_ok m \<longleftrightarrow>
     distinct (map fst (cm_active m))
     \<and> (\<forall>(cid, i) \<in> set (cm_active m).
          i < length (cm_sess m) \<and> cs_call (cm_sess m ! i) = cid \<and> \<not> cs_once (cm_sess m ! i))
     \<and> (\<forall>s \<in> set (cm_sess m). sess_ok s)
     \<and> cm_gauge m = length (cm_active m)
     \<and> length (filter ended_fx (cm_fx m)) = length (filter cs_once (cm_sess m))"

lemma ended_fx_simps [simp]:
  "ended_fx (Fx_metric a b c) = (c = ''ended'')" "\<not> ended_fx (Fx_handler c ev)"
  "\<not> ended_fx (Fx_close_session n)" "\<not> ended_fx (Fx_close_recorder c)" "\<not> ended_fx (Fx_reject c)"
  "\<not> ended_fx (Fx_answer c)" "\<not> ended_fx (Fx_hangup c)" "\<not> ended_fx (Fx_place c)"
  "\<not> ended_fx (Fx_ensure n c)" "\<not> ended_fx (Fx_start_session n)" "\<not> ended_fx (Fx_record f)"
  "\<not> ended_fx (Fx_audio n d)"
  by (simp_all add: ended_fx_def)

lemma manager_okD:
  assumes "manager_ok m" "map_of (cm_active m) cid = Some i"
  shows "i < length (cm_sess m)" "cs_call (cm_sess m ! i) = cid" "\<not> cs_once (cm_sess m ! i)"
    "sess_ok (cm_sess m ! i)"
  using assms map_of_SomeD [OF assms(2)] unfolding manager_ok_def by auto

lemma manager_ok_sess: "manager_ok m \<Longrightarrow> i < length (cm_sess m) \<Longrightarrow> sess_ok (cm_sess m ! i)"
  by (simp add: manager_ok_def)

lemma manager_ok_fx [simp]: "\<not> ended_fx e \<Longrightarrow> manager_ok (fx e m) = manager_ok m"
  by (simp add: manager_ok_def)

lemma manager_ok_metric [simp]: "c \<noteq> ''ended'' \<Longrightarrow> manager_ok (metric a b c m) = manager_ok m"
  by (simp add: manager_ok_def)

lemma manager_ok_new [simp]: "manager_ok new_manager"
  by (simp add: manager_ok_def new_manager_def)

text \<open>Everything but \<open>cleanup\<close> and the registration of a session changes one session in place.\<close>

lemma manager_ok_update:
  assumes "manager_ok m"
    and "\<And>s. i < length (cm_sess m) \<Longrightarrow> s = cm_sess m ! i \<Longrightarrow> sess_ok s \<Longrightarrow>
      sess_ok (f s) \<and> cs_call (f s) = cs_call s \<and> cs_once (f s) = cs_once s"
    and "cm_sess m' = update_at f i (cm_sess m)" "cm_active m' = cm_active m" "cm_gauge m' = cm_gauge m"
    and "filter ended_fx (cm_fx m') = filter ended_fx (cm_fx m)"
  shows "manager_ok m'"
proof (cases "i < length (cm_sess m)")
  case True
  then have "sess_ok (cm_sess m ! i)" using assms(1) by (rule manager_ok_sess [rotated])
  with assms(2) True have f: "sess_ok (f (cm_sess m ! i))" "cs_call (f (cm_sess m ! i)) = cs_call (cm_sess m ! i)"
    "cs_once (f (cm_sess m ! i)) = cs_once (cm_sess m ! i)" by auto
  have "sess_ok s" if "s \<in> set (update_at f i (cm_sess m))" for s
    using set_update_at [OF that] f(1) assms(1) by (auto simp: manager_ok_def)
  moreover have "cs_call (update_at f i (cm_sess m) ! j) = cs_call (cm_sess m ! j)"
    "cs_once (update_at f i (cm_sess m) ! j) = cs_once (cm_sess m ! j)" for j
    using True f by (simp_all add: nth_update_at)
  moreover have "length (filter cs_once (update_at f i (cm_sess m))) = length (filter cs_once (cm_sess m))"
    by (rule length_filter_update_at) (simp add: f)
  ultimately show ?thesis using assms(1,3-) unfolding manager_ok_def by simp
next
  case False
  then show ?thesis using assms(1,3-) by (simp add: manager_ok_def)
qed

lemma manager_ok_upd_sess:
  assumes "manager_ok m"
    and "\<And>s. i < length (cm_sess m) \<Longrightarrow> s = cm_sess m ! i \<Longrightarrow> sess_ok s \<Longrightarrow>
      sess_ok (f s) \<and> cs_call (f s) = cs_call s \<and> cs_once (f s) = cs_once s"
  shows "manager_ok (upd_sess i f m)"
  by (rule manager_ok_update [OF assms]) simp_all

lemma sess_ok_cong:
  assumes "sess_ok s" "cs_hub t = cs_hub s" "cs_call t = cs_call s" "cs_once t = cs_once s"
    "cs_cancelled s \<longrightarrow> cs_cancelled t"
  shows "sess_ok t"
  using assms unfolding sess_ok_def by auto

lemma sess_ok_new [simp]: "sess_ok (new_session cid peer d h now)"
  unfolding sess_ok_def by (rule conjI) (rule exI [of _ "[]"], simp_all add: new_session_def)

text \<open>Each operation of the hub, on the hub of a session.\<close>

lemma sess_ok_publish:
  assumes "sess_ok s"
  shows "sess_ok (s\<lparr>cs_hub := publish now (ev\<lparr>ev_call_id := cs_call s\<rparr>) (cs_hub s)\<rparr>)"
proof -
  obtain evs where evs: "hub_rep (evs, cs_once s) (cs_hub s)" "\<forall>ev \<in> set evs. ev_call_id ev = cs_call s"
    "cs_once s \<longrightarrow> evs \<noteq> [] \<and> ev_type (last evs) = ''call_ended''" "cs_once s \<longrightarrow> cs_cancelled s"
    using assms unfolding sess_ok_def by auto
  note rep = hub_step_rep [OF evs(1), of "Publish now (ev\<lparr>ev_call_id := cs_call s\<rparr>)"]
  show ?thesis
  proof (cases "cs_once s")
    case True
    then show ?thesis using rep evs by (auto simp: sess_ok_def)
  next
    case False
    then show ?thesis
      using rep evs unfolding sess_ok_def
      by (intro conjI exI [of _ "evs @ [stamp (of_nat (length evs + 1)) now (ev\<lparr>ev_call_id := cs_call s\<rparr>)]"])
        (auto simp: stamp_def)
  qed
qed

lemma sess_ok_hub_op:
  assumes "sess_ok s" "\<And>a. hist_step op a = a"
  shows "sess_ok (s\<lparr>cs_hub := hub_step op (cs_hub s)\<rparr>)"
  using assms(1) hub_step_rep [where op = op] assms(2) unfolding sess_ok_def by fastforce

lemma sess_ok_ended:
  assumes "sess_ok s" "\<not> cs_once s"
  shows "sess_ok (ended now s)"
proof -
  let ?ev = "(blank_event ''call_ended'')\<lparr>ev_call_id := cs_call s\<rparr>"
  obtain evs where evs: "hub_rep (evs, False) (cs_hub s)" "\<forall>ev \<in> set evs. ev_call_id ev = cs_call s"
    using assms unfolding sess_ok_def by auto
  have "hub_rep (evs @ [stamp (of_nat (length evs + 1)) now ?ev], True) (hub_close (publish now ?ev (cs_hub s)))"
    using hub_step_rep [OF hub_step_rep [OF evs(1), of "Publish now ?ev"], of Close_hub] by simp
  then show ?thesis
    using evs(2) unfolding sess_ok_def
    by (intro conjI exI [of _ "evs @ [stamp (of_nat (length evs + 1)) now ?ev]"])
      (auto simp: stamp_def blank_event_def)
qed

subsection \<open>The operations keep the invariant\<close>

lemma cleanup_ok [inv_intros]:
  assumes "manager_ok m"
  shows "manager_ok (cleanup now cid m)"
proof (cases "map_of (cm_active m) cid")
  case None
  then show ?thesis using assms by (simp add: cleanup_absent)
next
  case (Some i)
  note d = manager_okD [OF assms Some]
  note c = cleanup_found [OF Some d(1,3)]
  have entry: "j < length (cm_sess m) \<and> cs_call (cm_sess m ! j) = cid' \<and> \<not> cs_once (cm_sess m ! j) \<and> j \<noteq> i"
    if "(cid', j) \<in> set (AList.delete cid (cm_active m))" for cid' j
    using that assms d(2) by (auto simp: manager_ok_def AList.delete_eq)
  have "sess_ok s" if "s \<in> set (update_at (ended now) i (cm_sess m))" for s
    using set_update_at [OF that] sess_ok_ended [OF d(4,3)] assms by (auto simp: manager_ok_def)
  moreover have "distinct (map fst (AList.delete cid (cm_active m)))"
    using assms by (simp add: manager_ok_def distinct_delete)
  moreover have "length (filter cs_once (update_at (ended now) i (cm_sess m))) =
      Suc (length (filter cs_once (cm_sess m)))"
    using d(1,3) by (simp add: length_filter_update_at_Suc)
  moreover have "length (filter ended_fx (end_effects cid (cm_sess m ! i))) = 1"
    by (simp add: end_effects_def)
  ultimately show ?thesis
    using assms unfolding manager_ok_def c using entry d(1) by (auto simp: nth_update_at)
qed

lemma register_ok [inv_intros]:
  assumes "manager_ok m"
  shows "manager_ok (register_session (new_session cid peer dir h now) m)"
proof -
  let ?s = "new_session cid peer dir h now"
  have s: "cs_call ?s = cid" "\<not> cs_once ?s" by (simp_all add: new_session_def)
  have "j < Suc (length (cm_sess m)) \<and> cs_call ((cm_sess m @ [?s]) ! j) = cid' \<and> \<not> cs_once ((cm_sess m @ [?s]) ! j)"
    if "(cid', j) \<in> set (AList.update cid (length (cm_sess m)) (cm_active m))" for cid' j
  proof (cases "cid' = cid \<and> j = length (cm_sess m)")
    case False
    have "map_of (AList.update cid (length (cm_sess m)) (cm_active m)) cid' = Some j"
      using that assms by (intro map_of_is_SomeI) (simp_all add: manager_ok_def distinct_update)
    then have "(cid', j) \<in> set (cm_active m)"
      using False by (auto simp: update_conv' split: if_splits dest: map_of_SomeD)
    then show ?thesis using assms by (auto simp: manager_ok_def nth_append)
  qed (use s in simp)
  then show ?thesis
    using assms s unfolding manager_ok_def register_session_def
    by (auto simp: distinct_update)
qed

lemma emit_event_ok [inv_intros]: "manager_ok m \<Longrightarrow> manager_ok (emit_event now i ev m)"
  by (rule manager_ok_update [where m = m]) (assumption, simp_all add: sess_ok_publish)

text \<open>Changes of a session that the invariant does not see.\<close>

lemma upd_plain_ok:
  assumes "manager_ok m"
    and "\<And>s. cs_hub (f s) = cs_hub s \<and> cs_call (f s) = cs_call s \<and> cs_once (f s) = cs_once s
      \<and> (cs_cancelled s \<longrightarrow> cs_cancelled (f s))"
  shows "manager_ok (upd_sess i f m)"
  by (rule manager_ok_upd_sess [OF assms(1)]) (use assms(2) sess_ok_cong in blast)

lemma plain_updates [inv_intros]:
  "manager_ok m \<Longrightarrow> manager_ok (upd_sess i (\<lambda>s. s\<lparr>cs_ready := True\<rparr>) m)"
  "manager_ok m \<Longrightarrow> manager_ok (set_watch i w m)"
  "manager_ok m \<Longrightarrow> manager_ok (events_end i m)"
  "manager_ok m \<Longrightarrow> manager_ok (upd_sess i (\<lambda>s. s\<lparr>cs_events := False\<rparr>) m)"
  "manager_ok m \<Longrightarrow> manager_ok (adopt_realtime i resp m)"
  "manager_ok m \<Longrightarrow> manager_ok (frame_pushed now i f m)"
  "manager_ok m \<Longrightarrow> manager_ok (upd_sess i (\<lambda>s. s\<lparr>cs_last := now\<rparr>) m)"
  "manager_ok m \<Longrightarrow> manager_ok (upd_sess i (\<lambda>s. s\<lparr>cs_pending := p\<rparr>) m)"
  unfolding set_watch_def events_end_def adopt_realtime_def frame_pushed_def
  by (erule upd_plain_ok; simp split: option.split)+

lemma fail_realtime_ok [inv_intros]: "manager_ok m \<Longrightarrow> manager_ok (fail_realtime e cid m)"
  by (simp add: fail_realtime_def cleanup_ok)

lemma end_timed_out_ok [inv_intros]: "manager_ok m \<Longrightarrow> manager_ok (end_timed_out e i m)"
  by (simp add: end_timed_out_def Let_def cleanup_ok split: option.split)

lemma user_channel_frame:
  "user_channel e resp m = (r, m') \<Longrightarrow>
     cm_sess m' = cm_sess m \<and> cm_active m' = cm_active m \<and> cm_gauge m' = cm_gauge m
     \<and> filter ended_fx (cm_fx m') = filter ended_fx (cm_fx m)"
  by (auto simp: user_channel_def Let_def split: sum.splits option.splits)

lemma open_realtime_frame:
  "open_realtime e resp m = (r, m') \<Longrightarrow>
     cm_sess m' = cm_sess m \<and> cm_active m' = cm_active m \<and> cm_gauge m' = cm_gauge m
     \<and> filter ended_fx (cm_fx m') = filter ended_fx (cm_fx m)"
  by (auto simp: open_realtime_def Let_def dest: user_channel_frame
      split: if_splits prod.splits sum.splits option.splits bool.splits early_error.splits)

lemma open_realtime_ok: "open_realtime e resp m = (r, m') \<Longrightarrow> manager_ok m \<Longrightarrow> manager_ok m'"
  by (auto dest!: open_realtime_frame simp: manager_ok_def)

lemma start_realtime_ok: "start_realtime e i resp m = (r, m') \<Longrightarrow> manager_ok m \<Longrightarrow> manager_ok m'"
  by (auto simp: start_realtime_def dest: open_realtime_ok intro: inv_intros
      split: prod.splits option.splits)

lemma handle_incoming_ok [inv_intros]: "manager_ok m \<Longrightarrow> manager_ok (handle_incoming e cid peer m)"
  by (simp add: handle_incoming_def Let_def cleanup_ok register_ok split: option.split)

lemma on_ready_ok [inv_intros]:
  assumes "manager_ok m"
  shows "manager_ok (on_ready e i m)"
  using plain_updates(1) [OF assms] start_realtime_ok
  by (auto simp: on_ready_def Let_def fail_realtime_ok split: sum.split prod.split option.split)

lemma fold_ok: "(\<And>x m. manager_ok m \<Longrightarrow> manager_ok (f x m)) \<Longrightarrow> manager_ok m \<Longrightarrow> manager_ok (fold f xs m)"
  by (induction xs arbitrary: m) simp_all

lemma replace_call_ok [inv_intros]: "manager_ok m \<Longrightarrow> manager_ok (replace_call now cid m)"
  by (simp add: replace_call_def cleanup_ok split: option.split)

lemma connect_outgoing_ok:
  assumes "manager_ok m" "connect_outgoing e cid peer h m = (r, m')"
  shows "manager_ok m'"
proof -
  let ?i = "length (cm_sess m)"
  let ?m = "emit_event (env_now e) ?i (blank_event ''call_started'')
    (register_session (new_session cid peer Outgoing h (env_now e)) m)"
  have 1: "manager_ok ?m" by (intro inv_intros assms(1))
  have 2: "manager_ok (upd_sess ?i (\<lambda>s. s\<lparr>cs_ready := True\<rparr>) ?m)" by (intro inv_intros 1)
  show ?thesis
    using assms(2) 1 start_realtime_ok [OF _ 2]
    by (auto simp: connect_outgoing_def Let_def fail_realtime_ok emit_event_ok
        split: sum.splits prod.splits option.splits)
qed

lemma initiate_outgoing_ok:
  assumes "manager_ok m" "initiate_outgoing e target h ks m = (r, m')"
  shows "manager_ok m'"
proof -
  have "manager_ok (fold (replace_call (env_now e)) ks m)"
    by (rule fold_ok [OF replace_call_ok assms(1)])
  then show ?thesis
    using assms
    by (auto simp: initiate_outgoing_def Let_def split: option.splits sum.splits prod.splits
        elim!: connect_outgoing_ok [rotated])
qed

lemma hangup_ok: "manager_ok m \<Longrightarrow> hangup e cid m = (r, m') \<Longrightarrow> manager_ok m'"
  by (auto simp: hangup_def Let_def cleanup_ok split: if_splits option.splits)

lemma hub_op_ok:
  assumes "manager_ok m" "\<And>a. hist_step op a = a" "h = hub_step op (cs_hub (cm_sess m ! i))"
  shows "manager_ok (upd_sess i (\<lambda>s. s\<lparr>cs_hub := h\<rparr>) m)"
  by (rule manager_ok_upd_sess [OF assms(1)]) (use sess_ok_hub_op [OF _ assms(2)] assms(3) in auto)

lemma subscribe_call_ok:
  assumes "manager_ok m" "subscribe_call cid after m = (r, m')"
  shows "manager_ok m'"
proof (cases "map_of (cm_active m) cid")
  case None
  then show ?thesis using assms by (simp add: subscribe_call_def)
next
  case (Some i)
  obtain q h where q: "subscribe after (cs_hub (cm_sess m ! i)) = (q, h)" by fastforce
  have "manager_ok (upd_sess i (\<lambda>s. s\<lparr>cs_hub := h\<rparr>) m)"
    by (rule hub_op_ok [OF assms(1), where op = "Subscribe after"]) (use q in auto)
  then show ?thesis
    using assms(2) Some q by (auto simp: subscribe_call_def split: sum.splits)
qed

lemma watch_step_ok [inv_intros]: "manager_ok m \<Longrightarrow> manager_ok (watch_step e i ev m)"
  by (simp add: watch_step.simps Let_def plain_updates end_timed_out_ok
      split: watch_phase.split watch_event.split)

lemma receive_frame_ok [inv_intros]:
  assumes "manager_ok m"
  shows "manager_ok (receive_frame now i f m)"
proof -
  have none: "filter ended_fx (map (Fx_audio r) cs) = []" for r cs by (induction cs) simp_all
  have fold: "manager_ok (fold (\<lambda>c. fx (Fx_audio r c)) cs m') = manager_ok m'" for r cs m'
    by (simp add: manager_ok_def none)
  show ?thesis
    using assms by (simp add: receive_frame_def Let_def fold plain_updates split: prod.split)
qed

lemma realtime_event_ok [inv_intros]: "manager_ok m \<Longrightarrow> manager_ok (realtime_event e i ev m)"
  by (simp add: realtime_event_def Let_def plain_updates fail_realtime_ok emit_event_ok)

lemma host_cancel_ok:
  assumes "manager_ok m"
  shows "manager_ok (call_step Op_host_cancel m)"
proof -
  define f where "f s = (if cs_direction s = Incoming then cancel_session s else s)" for s
  have f: "cs_call (f s) = cs_call s" "cs_once (f s) = cs_once s" for s
    by (simp_all add: f_def)
  have ok: "sess_ok (f s)" if "sess_ok s" for s
    using that by (auto simp: f_def intro: sess_ok_cong [OF that])
  have "length (filter cs_once (map f xs)) = length (filter cs_once xs)" for xs
    by (induction xs) (simp_all add: f)
  moreover have "call_step Op_host_cancel m = m\<lparr>cm_sess := map f (cm_sess m)\<rparr>"
    by (simp add: f_def [abs_def])
  moreover have "\<forall>(cid, i) \<in> set (cm_active m). i < length (cm_sess m)"
    using assms by (auto simp: manager_ok_def)
  ultimately show ?thesis
    using assms ok unfolding manager_ok_def by (auto simp: f)
qed

lemma call_step_ok: "manager_ok m \<Longrightarrow> manager_ok (call_step op m)"
proof -
  assume prem: "manager_ok m"
  show ?thesis
  proof (cases op)
    case (Op_outgoing e t h ks)
    then show ?thesis using prem initiate_outgoing_ok by (metis call_step.simps(3) prod.collapse)
  next
    case (Op_open e r)
    then show ?thesis using prem open_realtime_ok
      by (cases "open_realtime e r m") (auto simp: Op_open)
  next
    case (Op_hangup e c)
    then show ?thesis using prem hangup_ok by (metis call_step.simps(4) prod.collapse)
  next
    case (Op_stop now ks)
    then show ?thesis using prem by (simp add: stop_calls_def fold_ok cleanup_ok)
  next
    case (Op_subscribe c a)
    then show ?thesis using prem subscribe_call_ok by (metis call_step.simps(7) prod.collapse)
  next
    case (Op_unsubscribe i ch)
    have "manager_ok (upd_sess i (\<lambda>s. s\<lparr>cs_hub := hub_step (Unsubscribe ch) (cs_hub s)\<rparr>) m)"
      by (rule manager_ok_upd_sess [OF prem]) (simp add: sess_ok_hub_op del: hub_step.simps)
    then show ?thesis by (simp add: Op_unsubscribe)
  next
    case (Op_recv i ch)
    have "manager_ok (upd_sess i (\<lambda>s. s\<lparr>cs_hub := hub_step (Recv ch) (cs_hub s)\<rparr>) m)"
      by (rule manager_ok_upd_sess [OF prem]) (simp add: sess_ok_hub_op del: hub_step.simps)
    then show ?thesis by (simp add: Op_recv)
  next
    case Op_host_cancel
    then show ?thesis using host_cancel_ok [OF prem] by simp
  qed (use prem in \<open>simp_all add: inv_intros\<close>)
qed
lemma call_run_ok: "manager_ok m \<Longrightarrow> manager_ok (call_run ops m)"
  unfolding call_run_def by (rule fold_ok) (simp_all add: call_step_ok)

text \<open>C9: the manager's invariant holds after any sequence of operations, callbacks, timers and provider
  events: call ids in the map are unique and lead to live sessions of that call, the metric of active
  calls is their number, every session's stream carries only events of its call, and the stream is
  closed exactly when the call has ended, with \<open>call_ended\<close> as its last event.\<close>

theorem calls_invariant: "manager_ok (call_run ops new_manager)"
  by (simp add: call_run_ok)

subsection \<open>Outgoing calls\<close>

text \<open>Ending every call that the map holds leaves it empty, in whatever order \<open>Range\<close> visits them.\<close>

lemma cleanup_active:
  assumes "manager_ok m"
  shows "cm_active (cleanup now cid m) = AList.delete cid (cm_active m)"
proof (cases "map_of (cm_active m) cid")
  case None
  then show ?thesis by (simp add: cleanup_absent map_of_eq_None_iff)
next
  case (Some i)
  with assms show ?thesis using manager_okD cleanup_found(2) by blast
qed

lemma replace_call_active:
  assumes "manager_ok m"
  shows "cm_active (replace_call now cid m) = AList.delete cid (cm_active m)"
  using assms cleanup_active [of "fx _ m"]
  by (auto simp: replace_call_def map_of_eq_None_iff split: option.split)

lemma fold_delete_active:
  assumes "\<And>x m. manager_ok m \<Longrightarrow> manager_ok (f x m) \<and> cm_active (f x m) = AList.delete x (cm_active m)"
    and "manager_ok m"
  shows "cm_active (fold f ks m) = filter (\<lambda>(k, _). k \<notin> set ks) (cm_active m)"
  using assms(2)
proof (induction ks arbitrary: m)
  case (Cons k ks)
  then show ?case using assms(1) [of m k] by (simp add: AList.delete_eq) (auto intro: filter_cong)
qed (simp add: case_prod_unfold)

lemma fold_replace_empty:
  assumes "manager_ok m" "set (active_call_ids m) \<subseteq> set ks"
  shows "manager_ok (fold (replace_call now) ks m)" "cm_active (fold (replace_call now) ks m) = []"
  using fold_delete_active [of "replace_call now" m ks] assms replace_call_active replace_call_ok
  by (auto simp: fold_ok active_call_ids_def filter_empty_conv)

lemma replace_call_length: "manager_ok m \<Longrightarrow> length (cm_sess (replace_call now cid m)) = length (cm_sess m)"
  using manager_okD cleanup_found(1) by (fastforce simp: replace_call_def split: option.split)

lemma register_active:
  "cm_active m = [] \<Longrightarrow> cm_active (register_session s m) = [(cs_call s, length (cm_sess m))]"
  by (simp add: register_session_def)

lemma start_realtime_active: "start_realtime e i resp m = (r, m') \<Longrightarrow> cm_active m' = cm_active m"
  by (auto simp: start_realtime_def adopt_realtime_def dest: open_realtime_frame
      split: prod.splits option.splits)

lemma fail_realtime_active:
  "manager_ok m \<Longrightarrow> cm_active (fail_realtime e cid m) = AList.delete cid (cm_active m)"
  by (simp add: fail_realtime_def cleanup_active)

lemma connect_outgoing_active:
  assumes "manager_ok m" "cm_active m = []" "connect_outgoing e cid peer h m = (r, m')"
  shows "cm_active m' = (case r of Inl _ \<Rightarrow> [] | Inr _ \<Rightarrow> [(cid, length (cm_sess m))])"
proof -
  let ?i = "length (cm_sess m)"
  let ?m = "emit_event (env_now e) ?i (blank_event ''call_started'')
    (register_session (new_session cid peer Outgoing h (env_now e)) m)"
  have 1: "manager_ok ?m" by (intro inv_intros assms(1))
  have 2: "manager_ok (upd_sess ?i (\<lambda>s. s\<lparr>cs_ready := True\<rparr>) ?m)" by (intro inv_intros 1)
  have a: "cm_active ?m = [(cid, ?i)]" using assms(2) by (simp add: register_active new_session_def)
  show ?thesis
    using assms(3) start_realtime_ok [OF _ 2] start_realtime_active a 1
    by (auto simp: connect_outgoing_def Let_def fail_realtime_active
        split: sum.splits prod.splits option.splits)
qed

text \<open>What a successful connection leaves in the new session.\<close>

lemma start_realtime_sess:
  "start_realtime e i resp m = (None, m') \<Longrightarrow> cm_sess m' = cm_sess (adopt_realtime i resp m)"
  by (auto simp: start_realtime_def adopt_realtime_def dest: open_realtime_frame
      split: prod.splits option.splits)

definition connected_events :: "string \<Rightarrow> call_event list" where
  "connected_events cid = map (\<lambda>ty. (blank_event ty)\<lparr>ev_call_id := cid\<rparr>) [''call_started'', ''call_connected'']"

lemma connect_outgoing_sess:
  assumes "connect_outgoing e cid peer h m = (Inr c, m')"
  shows "c = cid \<and> length (cm_sess m') = Suc (length (cm_sess m))
    \<and> (let s = cm_sess m' ! length (cm_sess m)
       in cs_call s = cid \<and> cs_ready s \<and> cs_direction s = Outgoing \<and> Inr (cs_resp s) = resolve_peer e peer
         \<and> cs_source s \<noteq> None
         \<and> cs_hub s = fold (publish (env_now e)) (connected_events cid) new_event_hub)"
proof -
  let ?i = "length (cm_sess m)"
  let ?m = "emit_event (env_now e) ?i (blank_event ''call_started'')
    (register_session (new_session cid peer Outgoing h (env_now e)) m)"
  let ?m2 = "upd_sess ?i (\<lambda>s. s\<lparr>cs_ready := True\<rparr>) ?m"
  obtain resp where r1: "resolve_peer e peer = Inr resp"
    using assms by (cases "resolve_peer e peer") (simp_all add: connect_outgoing_def Let_def)
  obtain q m3 where st: "start_realtime e ?i resp ?m2 = (q, m3)" by (cases "start_realtime e ?i resp ?m2")
  have "q = None" using assms r1 st by (cases q) (simp_all add: connect_outgoing_def Let_def)
  then have r: "resolve_peer e peer = Inr resp" "start_realtime e ?i resp ?m2 = (None, m3)"
    using r1 st by simp_all
  then have m': "c = cid" "m' = metric ''whatsapp_calls'' ''outgoing'' ''started''
      (emit_event (env_now e) ?i (blank_event ''call_connected'')
        (metric ''whatsapp_calls'' ''outgoing'' ''accepted'' m3))"
    using assms by (simp_all add: connect_outgoing_def Let_def)
  show ?thesis
    using start_realtime_sess [OF r(2)] r(1)
    by (simp add: m' adopt_realtime_def register_session_def nth_update_at Let_def connected_events_def)
      (simp add: new_session_def)
qed

lemma connected_hub:
  "hub_rep ([stamp 1 now (connected_events cid ! 0), stamp 2 now (connected_events cid ! 1)], False)
     (fold (publish now) (connected_events cid) new_event_hub)"
  using hub_run_rep [OF hub_rep_new, of "map (Publish now) (connected_events cid)"]
  by (simp add: connected_events_def hub_run_def)

text \<open>Every call that is replaced is hung up before the new one is placed.\<close>

lemma cleanup_fx: "manager_ok m \<Longrightarrow> \<exists>new. cm_fx (cleanup now cid m) = cm_fx m @ new"
proof (cases "map_of (cm_active m) cid")
  case None
  then show ?thesis by (simp add: cleanup_absent)
next
  case (Some i)
  assume "manager_ok m"
  note d = manager_okD [OF this Some]
  show ?thesis unfolding cleanup_found(4) [OF Some d(1,3)] by blast
qed

lemma replace_call_fx:
  assumes "manager_ok m" "map_of (cm_active m) cid = Some i"
  shows "\<exists>new. cm_fx (replace_call now cid m) = cm_fx m @ Fx_hangup cid # new"
  using cleanup_fx [of "fx (Fx_hangup cid) m" now cid] manager_okD [OF assms] assms
  by (auto simp: replace_call_def)

lemma fold_replace_fx:
  assumes "manager_ok m"
  shows "\<exists>new. cm_fx (fold (replace_call now) ks m) = cm_fx m @ new
    \<and> (\<forall>cid \<in> set (active_call_ids m) \<inter> set ks. Fx_hangup cid \<in> set new)"
  using assms
proof (induction ks arbitrary: m)
  case (Cons k ks)
  have ok: "manager_ok (replace_call now k m)" by (intro inv_intros Cons.prems)
  from Cons.IH [OF this] obtain new where new:
    "cm_fx (fold (replace_call now) ks (replace_call now k m)) = cm_fx (replace_call now k m) @ new"
    "\<forall>cid \<in> set (active_call_ids (replace_call now k m)) \<inter> set ks. Fx_hangup cid \<in> set new" by auto
  show ?case
  proof (cases "map_of (cm_active m) k")
    case None
    then have "replace_call now k m = m" by (simp add: replace_call_def)
    moreover have "k \<notin> set (active_call_ids m)" using None by (simp add: active_call_ids_def map_of_eq_None_iff)
    ultimately show ?thesis using new by auto
  next
    case (Some i)
    obtain pre where pre: "cm_fx (replace_call now k m) = cm_fx m @ Fx_hangup k # pre"
      using replace_call_fx [OF Cons.prems Some] by auto
    have "set (active_call_ids m) \<subseteq> insert k (set (active_call_ids (replace_call now k m)))"
      using replace_call_active [OF Cons.prems] by (auto simp: active_call_ids_def AList.delete_eq)
    then show ?thesis using new pre by (intro exI [of _ "Fx_hangup k # pre @ new"]) auto
  qed
qed simp

text \<open>C1: \<open>InitiateOutgoing\<close> either succeeds, and then the new call is the only active one, ready, with the
  realtime session of the peer's number and a stream that replays \<open>call_started\<close>, \<open>call_connected\<close>; or
  it is refused by one of its checks and changes nothing; or it fails later, and then no call at all is
  active. \<open>ks\<close> is the order in which \<open>Range\<close> visits the active calls.\<close>

theorem initiate_outgoing_correct:
  assumes "manager_ok m" "set (active_call_ids m) \<subseteq> set ks"
    and "initiate_outgoing e target h ks m = (r, m')"
  shows "case r of
      Inr cid \<Rightarrow>
        (\<exists>peer i. env_place e target = Inr (cid, peer) \<and> cm_active m' = [(cid, i)]
          \<and> cs_ready (cm_sess m' ! i) \<and> Inr (cs_resp (cm_sess m' ! i)) = resolve_peer e peer
          \<and> map ev_type (hub_replay (cs_hub (cm_sess m' ! i))) = [''call_started'', ''call_connected''])
    | Inl err \<Rightarrow>
        if outgoing_refusal e target \<noteq> None then outgoing_refusal e target = Some err \<and> m' = m
        else cm_active m' = []"
proof (cases "outgoing_refusal e target")
  case (Some err)
  then show ?thesis using assms(3) by (auto simp: initiate_outgoing_def)
next
  case None
  define m1 where "m1 = fx (Fx_place target) (fold (replace_call (env_now e)) ks m)"
  have m1: "manager_ok m1" "cm_active m1 = []"
    using fold_replace_empty [OF assms(1,2)] by (simp_all add: m1_def)
  show ?thesis
  proof (cases "env_place e target")
    case (Inl err)
    then show ?thesis using assms(3) None m1 by (auto simp: initiate_outgoing_def Let_def m1_def)
  next
    case (Inr q)
    obtain cid peer where q: "q = (cid, peer)" by (cases q)
    have c: "connect_outgoing e cid peer h m1 = (r, m')"
      using assms(3) None Inr by (simp add: initiate_outgoing_def Let_def m1_def q)
    note act = connect_outgoing_active [OF m1 c]
    show ?thesis
    proof (cases r)
      case (Inl err)
      then show ?thesis using act None by simp
    next
      case r: (Inr c')
      note s = connect_outgoing_sess [OF c [unfolded r]]
      have "hub_replay (fold (publish (env_now e)) (connected_events cid) new_event_hub) =
          [stamp 1 (env_now e) (connected_events cid ! 0), stamp 2 (env_now e) (connected_events cid ! 1)]"
        using connected_hub [of "env_now e" cid]
        by (simp add: hub_rep_def last_n_def call_event_replay_limit_def)
      then show ?thesis
        using s act r Inr q
        by (auto simp: Let_def connected_events_def stamp_def blank_event_def)
    qed
  qed
qed

text \<open>A host in which everything works, for the examples: contacts have numeric user names.\<close>

definition example_env :: call_env where
  "example_env = \<lparr>env_now = 0, env_voice_calls = True, env_mode = True, env_allowed = (\<lambda>_. True),
     env_stopped = False, env_has_call_client = True,
     env_wa = Some \<lparr>wa_logged_in = True, wa_alt_jid = None\<rparr>, env_dus = ''s'',
     env_reject = (\<lambda>_. None), env_answer = (\<lambda>_. None), env_hangup = (\<lambda>_. None),
     env_place = (\<lambda>t. Inr (''out-'' @ t, new_jid t ''s'')), env_ctx_err = None, env_provider = True,
     env_get_ch = (\<lambda>n. Inr n), env_get_ch_again = (\<lambda>n. Inr n), env_ensure = (\<lambda>_ _. None),
     env_resp_model = (\<lambda>_ _ _. (True, None)), env_start_session = (\<lambda>_ _. (True, No_value))\<rparr>"

definition example_manager :: call_manager where
  "example_manager = handle_incoming example_env ''in'' (new_jid ''79'' ''s'') new_manager"

lemma example_manager_ok [simp]: "manager_ok example_manager"
  by (simp add: example_manager_def handle_incoming_ok)

lemma example_manager_active [simp]: "cm_active example_manager = [(''in'', 0)]"
  by (simp add: example_manager_def handle_incoming_def example_env_def register_session_def
      new_session_def new_manager_def Let_def)

theorem initiate_outgoing_correct_witness:
  "\<exists>i. cm_active (snd (initiate_outgoing example_env ''5'' False [''in''] example_manager)) = [(''out-5'', i)]"
proof -
  obtain r m' where r: "initiate_outgoing example_env ''5'' False [''in''] example_manager = (r, m')"
    by fastforce
  have ref: "outgoing_refusal example_env ''5'' = None" by (simp add: outgoing_refusal_def example_env_def)
  have "r = Inr ''out-5''"
    using r ref
    by (auto simp: initiate_outgoing_def connect_outgoing_def Let_def example_env_def resolve_peer_def
        start_realtime_def open_realtime_def user_channel_def model_fault_def parse_uint_def
        digit_val_def split: if_splits)
  then show ?thesis
    using initiate_outgoing_correct [OF example_manager_ok _ r] r by (auto simp: active_call_ids_def)
qed

subsection \<open>Ending calls\<close>

text \<open>What a subscriber of an ended call is left with.\<close>

definition stream_ended :: "call_session \<Rightarrow> bool" where
  "stream_ended s \<longleftrightarrow>
     hub_closed (cs_hub s) \<and> \<not> hub_panic (cs_hub s) \<and> list_all ch_closed (hub_chans (cs_hub s))
     \<and> hub_replay (cs_hub s) \<noteq> [] \<and> ev_type (last (hub_replay (cs_hub s))) = ''call_ended''
     \<and> list_all (\<lambda>ev. ev_call_id ev = cs_call s) (hub_replay (cs_hub s))"

lemma last_last_n: "xs \<noteq> [] \<Longrightarrow> 0 < n \<Longrightarrow> last_n n xs \<noteq> [] \<and> last (last_n n xs) = last xs"
  by (auto simp: last_n_def)

lemma stream_endedI:
  assumes "sess_ok s" "cs_once s"
  shows "stream_ended s"
proof -
  obtain evs where evs: "hub_rep (evs, True) (cs_hub s)" "\<forall>ev \<in> set evs. ev_call_id ev = cs_call s"
    "evs \<noteq> []" "ev_type (last evs) = ''call_ended''"
    using assms unfolding sess_ok_def by auto
  have "list_all ch_closed (hub_chans (cs_hub s))"
  proof -
    have "chans_ok evs (hub_subs (cs_hub s)) (hub_chans (cs_hub s))" "hub_subs (cs_hub s) = []"
      using evs(1) unfolding hub_rep_def fst_conv snd_conv by blast+
    then show ?thesis using chans_okD(6) by (simp add: list_all_length)
  qed
  moreover have "set (last_n call_event_replay_limit evs) \<subseteq> set evs"
    by (auto simp: last_n_def dest: in_set_dropD)
  moreover have rep: "hub_replay (cs_hub s) = last_n call_event_replay_limit evs" "hub_closed (cs_hub s)"
    "\<not> hub_panic (cs_hub s)"
    using evs(1) by (simp_all add: hub_rep_def)
  moreover have "last_n call_event_replay_limit evs \<noteq> []"
    "last (last_n call_event_replay_limit evs) = last evs"
    using last_last_n [OF evs(3), of call_event_replay_limit] by (simp_all add: call_event_replay_limit_def)
  ultimately show ?thesis
    using evs(2,4) unfolding stream_ended_def rep list_all_iff by (simp add: subset_iff)
qed

text \<open>C32: \<open>Hangup\<close> on each of its branches. When the library cannot hang up, the error is returned and the
  call stays as it was; when it can, exactly this call is ended: it leaves the map, its stream ends with
  \<open>call_ended\<close>, its realtime session and recorder are released, and every other call is untouched.\<close>

theorem hangup_correct:
  assumes "manager_ok m"
  shows "hangup e cid m =
      (if cid = [] then (Some No_call_id, m)
       else case map_of (cm_active m) cid of
         None \<Rightarrow> (Some (Call_not_active cid), m)
       | Some i \<Rightarrow>
           (case env_hangup e cid of
              Some err \<Rightarrow> (Some (Hangup_failed cid err), fx (Fx_hangup cid) m)
            | None \<Rightarrow> (None,
                m\<lparr>cm_sess := (cm_sess m)[i := ended (env_now e) (cm_sess m ! i)],
                  cm_active := AList.delete cid (cm_active m),
                  cm_gauge := length (AList.delete cid (cm_active m)),
                  cm_fx := cm_fx m @ Fx_hangup cid # end_effects cid (cm_sess m ! i)\<rparr>)))
    \<and> (\<forall>i. map_of (cm_active m) cid = Some i \<longrightarrow> stream_ended (ended (env_now e) (cm_sess m ! i)))"
proof (cases "map_of (cm_active m) cid")
  case None
  then show ?thesis by (simp add: hangup_def)
next
  case (Some i)
  note d = manager_okD [OF assms Some]
  note c = cleanup_found [of "fx (Fx_hangup cid) m" cid i "env_now e"]
  have "cleanup (env_now e) cid (fx (Fx_hangup cid) m) =
      m\<lparr>cm_sess := (cm_sess m)[i := ended (env_now e) (cm_sess m ! i)],
        cm_active := AList.delete cid (cm_active m),
        cm_gauge := length (AList.delete cid (cm_active m)),
        cm_fx := cm_fx m @ Fx_hangup cid # end_effects cid (cm_sess m ! i)\<rparr>"
    using c Some d by (intro call_manager.equality) (simp_all add: update_at_def)
  moreover have "stream_ended (ended (env_now e) (cm_sess m ! i))"
    by (rule stream_endedI [OF sess_ok_ended [OF d(4,3)]]) simp
  ultimately show ?thesis
    using Some d(2) by (auto simp: hangup_def Let_def split: option.split)
qed

theorem hangup_correct_witness:
  "stream_ended (ended 0 (cm_sess example_manager ! 0))"
  using hangup_correct [OF example_manager_ok, of example_env "''in''"]
  by (simp add: example_env_def)

text \<open>C17: once a call has ended, in any run, every subscriber's channel is closed, the stream ends with
  \<open>call_ended\<close>, its events all name this call, and no channel was ever closed twice or written after
  it was closed.\<close>

theorem ended_call_stream:
  assumes "s \<in> set (cm_sess (call_run ops new_manager))" "cs_once s"
  shows "stream_ended s"
proof -
  have "manager_ok (call_run ops new_manager)" by (simp add: call_run_ok)
  then show ?thesis using assms stream_endedI by (simp add: manager_ok_def)
qed

definition example_ops :: "call_op list" where
  "example_ops = [Op_incoming example_env ''in'' (new_jid ''79'' ''s''), Op_end 1 ''in'']"

lemma example_run:
  "cm_sess (call_run example_ops new_manager) = [ended 1 (new_session ''in'' (new_jid ''79'' ''s'') Incoming False 0)]"
proof -
  have m: "call_run example_ops new_manager = cleanup 1 ''in'' example_manager"
    by (simp add: call_run_def example_ops_def example_manager_def)
  have s: "cm_sess example_manager = [new_session ''in'' (new_jid ''79'' ''s'') Incoming False 0]"
    by (simp add: example_manager_def handle_incoming_def example_env_def register_session_def
      new_session_def new_manager_def Let_def)
  show ?thesis
    unfolding m using cleanup_found(1) [of example_manager "''in''" 0 1] s
    by (simp add: update_at_def) (simp add: new_session_def)
qed

theorem ended_call_stream_witness:
  "stream_ended (ended 1 (new_session ''in'' (new_jid ''79'' ''s'') Incoming False 0))"
  by (rule ended_call_stream [of _ example_ops]) (simp_all add: example_run)

text \<open>A session that is in the map stays there or has ended.\<close>

definition tracked :: "string \<Rightarrow> nat \<Rightarrow> call_manager \<Rightarrow> bool" where
  "tracked cid i m \<longleftrightarrow>
     i < length (cm_sess m) \<and> (map_of (cm_active m) cid = Some i \<or> cs_once (cm_sess m ! i))"

lemma tracked_cleanup:
  assumes "manager_ok m" "tracked cid i m"
  shows "tracked cid i (cleanup now k m)"
proof (cases "map_of (cm_active m) k")
  case None
  then show ?thesis using assms by (simp add: cleanup_absent)
next
  case (Some j)
  note d = manager_okD [OF assms(1) Some]
  show ?thesis
    using assms Some d(1) cleanup_found [OF Some d(1,3), of now]
    by (cases "k = cid") (auto simp: tracked_def nth_update_at)
qed

lemma tracked_fold:
  assumes "manager_ok m" "tracked cid i m"
    and "\<And>x m. manager_ok m \<Longrightarrow> tracked cid i m \<Longrightarrow> manager_ok (f x m) \<and> tracked cid i (f x m)"
  shows "manager_ok (fold f xs m) \<and> tracked cid i (fold f xs m)"
  using assms(1,2) by (induction xs arbitrary: m) (simp_all add: assms(3))

text \<open>\<open>Stop\<close> ends every call: afterwards no call is active and each call that was has ended.\<close>

theorem stop_ends_all:
  assumes "manager_ok m" "set (active_call_ids m) \<subseteq> set ks"
  shows "cm_active (stop_calls now ks m) = []
    \<and> list_all (\<lambda>(cid, i). stream_ended (cm_sess (stop_calls now ks m) ! i)) (cm_active m)"
proof -
  have "cm_active (stop_calls now ks m) = filter (\<lambda>(k, _). k \<notin> set ks) (cm_active m)"
    unfolding stop_calls_def
    by (rule fold_delete_active [OF _ assms(1)]) (simp add: cleanup_ok cleanup_active)
  moreover have "\<dots> = []" using assms(2) by (auto simp: active_call_ids_def filter_empty_conv)
  moreover have "stream_ended (cm_sess (stop_calls now ks m) ! i)" if "(cid, i) \<in> set (cm_active m)" for cid i
  proof -
    let ?m = "stop_calls now ks m"
    have "map_of (cm_active m) cid = Some i" using that assms(1) by (simp add: manager_ok_def)
    then have "tracked cid i m" using manager_okD(1) [OF assms(1)] by (simp add: tracked_def)
    then have "manager_ok ?m \<and> tracked cid i ?m"
      unfolding stop_calls_def by (rule tracked_fold [OF assms(1)]) (intro conjI cleanup_ok tracked_cleanup)
    then show ?thesis
      using calculation by (auto simp: tracked_def intro!: stream_endedI manager_ok_sess)
  qed
  ultimately show ?thesis by (auto simp: list_all_iff)
qed

theorem stop_ends_all_witness:
  "cm_active (stop_calls 7 [''in''] example_manager) = []"
  using stop_ends_all [OF example_manager_ok, of "[''in'']" 7] by (simp add: active_call_ids_def)

subsection \<open>Incoming calls\<close>

definition incoming_refused :: "call_env \<Rightarrow> jid \<Rightarrow> bool" where
  "incoming_refused e peer \<longleftrightarrow> \<not> env_voice_calls e \<or> \<not> env_mode e \<or> \<not> env_allowed e (jid_user peer)"

text \<open>C33: \<open>handleIncoming\<close> on each branch. A refused call is rejected and leaves no trace but the metric; a
  call that cannot be answered is ended at once; an answered call becomes active, waiting for its
  media, beside the calls already active.\<close>

theorem handle_incoming_correct:
  assumes "manager_ok m"
  shows "if incoming_refused e peer then
      handle_incoming e cid peer m =
        m\<lparr>cm_fx := cm_fx m @ [Fx_metric ''whatsapp_calls'' ''incoming'' ''rejected'', Fx_reject cid]\<rparr>
    else if env_answer e cid \<noteq> None then
      cid \<notin> set (active_call_ids (handle_incoming e cid peer m))
      \<and> length (cm_sess (handle_incoming e cid peer m)) = Suc (length (cm_sess m))
      \<and> stream_ended (last (cm_sess (handle_incoming e cid peer m)))
    else
      cm_active (handle_incoming e cid peer m) = AList.update cid (length (cm_sess m)) (cm_active m)
      \<and> cm_sess (handle_incoming e cid peer m) =
           cm_sess m @ [new_session cid peer Incoming False (env_now e)]"
proof (cases "incoming_refused e peer \<or> env_answer e cid = None")
  case True
  then show ?thesis
    by (auto simp: handle_incoming_def incoming_refused_def fx_def metric_def register_session_def
        set_gauge_def Let_def new_session_def)
next
  case False
  let ?s = "new_session cid peer Incoming False (env_now e)"
  let ?m = "metric ''whatsapp_call_errors'' ''answer'' [] (fx (Fx_answer cid) (register_session ?s m))"
  have h: "handle_incoming e cid peer m = cleanup (env_now e) cid ?m"
    using False by (auto simp: handle_incoming_def incoming_refused_def Let_def)
  have ok: "manager_ok ?m" using register_ok [OF assms] by simp
  have call: "cs_call ?s = cid" "\<not> cs_once ?s" by (simp_all add: new_session_def)
  then have at: "map_of (cm_active ?m) cid = Some (length (cm_sess m))"
    by (simp add: register_session_def update_conv')
  have sess: "cm_sess (register_session ?s m) = cm_sess m @ [?s]" by (simp add: register_session_def)
  note c = cleanup_found [OF at, of "env_now e"]
  have "cm_sess (cleanup (env_now e) cid ?m) = cm_sess m @ [ended (env_now e) ?s]"
    using c(1) call by (simp add: sess update_at_def)
  moreover have "stream_ended (ended (env_now e) ?s)"
    by (rule stream_endedI [OF sess_ok_ended]) (simp_all add: call)
  ultimately show ?thesis
    using False cleanup_active [OF ok, of "env_now e" cid]
    by (auto simp: h active_call_ids_def AList.delete_eq)
qed

theorem handle_incoming_correct_witness:
  "cm_sess (handle_incoming example_env ''c'' (new_jid ''5'' ''s'') new_manager) =
     [new_session ''c'' (new_jid ''5'' ''s'') Incoming False 0]"
  using handle_incoming_correct [OF manager_ok_new, of example_env "new_jid ''5'' ''s''" "''c''"]
  by (simp add: incoming_refused_def example_env_def) (simp add: new_manager_def)

text \<open>"one active call per bot" is kept by outgoing calls only: an incoming call that is answered while
  another call is active makes one more active call.\<close>

theorem incoming_not_exclusive:
  assumes "manager_ok m" "cid \<notin> set (active_call_ids m)" "\<not> incoming_refused e peer" "env_answer e cid = None"
  shows "active_call_ids (handle_incoming e cid peer m) = active_call_ids m @ [cid]"
proof -
  have "AList.update cid i al = al @ [(cid, i)]" if "cid \<notin> fst ` set al" for i and al :: "(string \<times> nat) list"
    using that by (induction al) auto
  then show ?thesis
    using assms by (simp add: handle_incoming_def incoming_refused_def active_call_ids_def Let_def
      register_session_def new_session_def)
qed

theorem incoming_not_exclusive_witness:
  "active_call_ids (handle_incoming example_env ''c'' (new_jid ''5'' ''s'') example_manager) = [''in'', ''c'']"
  using incoming_not_exclusive [OF example_manager_ok, of "''c''" example_env "new_jid ''5'' ''s''"]
  by (simp add: active_call_ids_def incoming_refused_def example_env_def)

subsection \<open>Time limits\<close>

lemma watch_over: "cs_watch (cm_sess m ! i) = Watch_over \<Longrightarrow> watch_step e i ev m = m"
  by (simp add: watch_step.simps Let_def)

lemma watch_over_fold:
  "cs_watch (cm_sess m ! i) = Watch_over \<Longrightarrow> fold (\<lambda>(e, ev). watch_step e i ev) evs m = m"
  by (induction evs) (auto simp: watch_over)

lemma end_timed_out_active:
  assumes "manager_ok m" "map_of (cm_active m) cid = Some i"
  shows "cm_active (end_timed_out e i m) = AList.delete cid (cm_active m)"
  using assms cleanup_active [of "fx (Fx_hangup cid) m"] manager_okD [OF assms]
  by (simp add: end_timed_out_def)

text \<open>A call whose media is not ready when the setup timer fires is hung up and ended.\<close>

theorem setup_timeout_ends_call:
  assumes "manager_ok m" "map_of (cm_active m) cid = Some i"
    and "cs_watch (cm_sess m ! i) = Watch_setup" "\<not> cs_ready (cm_sess m ! i)"
  shows "cid \<notin> set (active_call_ids (watch_step e i Setup_timer m))
    \<and> stream_ended (cm_sess (watch_step e i Setup_timer m) ! i)
    \<and> Fx_hangup cid \<in> set (cm_fx (watch_step e i Setup_timer m))"
proof -
  note d = manager_okD [OF assms(1,2)]
  let ?m = "metric ''whatsapp_call_errors'' ''media_setup_timeout'' [] m"
  have w: "watch_step e i Setup_timer m =
      set_watch i Watch_over (cleanup (env_now e) cid (fx (Fx_hangup cid) ?m))"
    using assms d(2) by (simp add: watch_step.simps Let_def end_timed_out_def)
  have at: "map_of (cm_active (fx (Fx_hangup cid) ?m)) cid = Some i" using assms(2) by simp
  note c = cleanup_found [OF at, of "env_now e"]
  have "cm_sess (watch_step e i Setup_timer m) ! i = (ended (env_now e) (cm_sess m ! i))\<lparr>cs_watch := Watch_over\<rparr>"
    using c(1) d by (simp add: w set_watch_def nth_update_at)
  moreover have "stream_ended ((ended (env_now e) (cm_sess m ! i))\<lparr>cs_watch := Watch_over\<rparr>)"
    by (rule stream_endedI [OF sess_ok_cong [OF sess_ok_ended [OF d(4,3)]]]) simp_all
  moreover have "cm_active (watch_step e i Setup_timer m) = AList.delete cid (cm_active m)"
    "Fx_hangup cid \<in> set (cm_fx (watch_step e i Setup_timer m))"
    using c(2,4) d by (simp_all add: w set_watch_def)
  ultimately show ?thesis by (auto simp: active_call_ids_def AList.delete_eq)
qed

theorem setup_timeout_ends_call_witness:
  "''in'' \<notin> set (active_call_ids (watch_step example_env 0 Setup_timer example_manager))"
  using setup_timeout_ends_call [OF example_manager_ok, of "''in''" 0 example_env]
  by (simp add: example_manager_def handle_incoming_def example_env_def register_session_def
      new_session_def new_manager_def Let_def)

text \<open>The watcher of a call that is ready in time stops after its first idle tick, 60 s after the call
  was registered, when at most 60 s can have passed since the last audio: from then on no timer, neither
  the idle limit of 2 minutes nor the lifetime of 2 hours, ever ends the call.\<close>

theorem watcher_gives_up:
  assumes "manager_ok m" "map_of (cm_active m) cid = Some i"
    and "cs_watch (cm_sess m ! i) = Watch_media" "registered \<le> cs_last (cm_sess m ! i)"
    and "env_now e = registered + call_setup_timeout + idle_tick"
  shows "map_of (cm_active (fold (\<lambda>(e, ev). watch_step e i ev) ((e, Idle_tick) # later) m)) cid = Some i
    \<and> \<not> cs_once (cm_sess (fold (\<lambda>(e, ev). watch_step e i ev) ((e, Idle_tick) # later) m) ! i)"
proof -
  note d = manager_okD [OF assms(1,2)]
  let ?m = "set_watch i Watch_over m"
  have "\<not> env_now e - cs_last (cm_sess m ! i) > idle_limit"
    using assms(4,5) by (simp add: call_setup_timeout_def idle_tick_def idle_limit_def second_def)
  then have "watch_step e i Idle_tick m = ?m"
    using assms(3) by (simp add: watch_step.simps Let_def)
  moreover have "cs_watch (cm_sess ?m ! i) = Watch_over" "\<not> cs_once (cm_sess ?m ! i)"
    using d by (simp_all add: set_watch_def nth_update_at)
  ultimately show ?thesis
    using assms(2) watch_over_fold [of ?m i later] by (simp add: set_watch_def)
qed

theorem watcher_gives_up_witness:
  "\<exists>m. map_of (cm_active m) ''in'' = Some 0 \<and>
    cm_active (fold (\<lambda>(e, ev). watch_step e 0 ev)
      [(example_env\<lparr>env_now := 60 * second\<rparr>, Idle_tick), (example_env\<lparr>env_now := 7200 * second\<rparr>, Life_timer)] m) \<noteq> []"
proof -
  let ?m = "set_watch 0 Watch_media example_manager"
  have len: "length (cm_sess example_manager) = 1"
    by (simp add: example_manager_def handle_incoming_def example_env_def register_session_def
        new_manager_def Let_def)
  have last: "cs_last (cm_sess ?m ! 0) = 0"
    by (simp add: example_manager_def handle_incoming_def example_env_def register_session_def
        new_session_def new_manager_def Let_def set_watch_def update_at_def)
  have at: "map_of (cm_active ?m) ''in'' = Some 0" by (simp add: set_watch_def)
  have "manager_ok ?m" by (rule plain_updates) simp
  from watcher_gives_up [OF this at, of 0 "example_env\<lparr>env_now := 60 * second\<rparr>"
      "[(example_env\<lparr>env_now := 7200 * second\<rparr>, Life_timer)]"]
  show ?thesis
    using at last len
    by (intro exI [of _ ?m]) (auto simp: set_watch_def nth_update_at call_setup_timeout_def idle_tick_def second_def)
qed

subsection \<open>The realtime session\<close>

text \<open>The peer's number: an ordinary account whose user name is the decimal text of a 64-bit number is
  that number; an address of another kind, for which the store knows the ordinary one, is the number of
  the ordinary one; and a number is never made of a user name with a character that is not a digit.\<close>

theorem resolve_peer_correct:
  assumes "env_wa e = Some c" "wa_alt_jid c = Some get"
    and "jid_server peer \<noteq> env_dus e" "get peer = Inr (new_jid (format_uint (unat n)) (env_dus e))"
  shows "resolve_peer e peer = Inr n
    \<and> resolve_peer e (new_jid (format_uint (unat n)) (env_dus e)) = Inr n
    \<and> (\<forall>u k. resolve_peer e (new_jid u (env_dus e)) = Inr k \<longrightarrow> (\<forall>ch \<in> set u. digit_val ch \<noteq> None))"
proof -
  have p: "parse_uint 64 (format_uint (unat n)) = Inr (unat n)"
    using unsigned_less [of n, where ?'a = nat] by (intro parse_uint_format) simp
  have "\<forall>ch \<in> set u. digit_val ch \<noteq> None" if "resolve_peer e (new_jid u (env_dus e)) = Inr k" for u k
    using that parse_uint_digits by (fastforce simp: resolve_peer_def Let_def split: option.splits sum.splits)
  then show ?thesis
    using assms p by (simp add: resolve_peer_def Let_def)
qed

definition lid_env :: call_env where
  "lid_env = example_env\<lparr>env_wa := Some \<lparr>wa_logged_in = True,
     wa_alt_jid = Some (\<lambda>j. if j = new_jid ''ab'' ''lid'' then Inr (new_jid ''79'' ''s'') else Inl [])\<rparr>\<rparr>"

lemma format_uint_79: "format_uint 79 = ''79''" "digit_char 7 = CHR ''7''" "digit_char 9 = CHR ''9''"
  by code_simp+

theorem resolve_peer_correct_witness:
  "resolve_peer lid_env (new_jid ''ab'' ''lid'') = Inr 79"
  using resolve_peer_correct [of lid_env "the (env_wa lid_env)" "the (wa_alt_jid (the (env_wa lid_env)))"
      "new_jid ''ab'' ''lid''" 79]
  by (simp add: lid_env_def example_env_def format_uint_79)

text \<open>An error from the realtime provider ends the call: it leaves the map, and its stream ends with
  the error followed by \<open>call_ended\<close>.\<close>

theorem realtime_error_ends_call:
  assumes "manager_ok m" "map_of (cm_active m) cid = Some i" "cs_events (cm_sess m ! i)"
    and "ev_type ev = ''error''"
  shows "cid \<notin> set (active_call_ids (realtime_event e i ev m))
    \<and> (\<exists>earlier a b. hub_rep (earlier @ [a, b], True) (cs_hub (cm_sess (realtime_event e i ev m) ! i))
        \<and> ev_type a = ''error'' \<and> ev_err a = ev_err ev \<and> ev_type b = ''call_ended'')"
proof -
  note d = manager_okD [OF assms(1,2)]
  let ?s = "cm_sess m ! i"
  let ?m = "metric ''whatsapp_call_errors'' ''realtime'' [] (emit_event (env_now e) i ev m)"
  have r: "realtime_event e i ev m =
      upd_sess i (\<lambda>s. s\<lparr>cs_events := False\<rparr>) (fx (Fx_hangup cid) (cleanup (env_now e) cid ?m))"
    using assms(3,4) d(2) by (simp add: realtime_event_def fail_realtime_def Let_def)
  have ok: "manager_ok ?m" using emit_event_ok [OF assms(1)] by simp
  have at: "map_of (cm_active ?m) cid = Some i" using assms(2) by simp
  note d' = manager_okD [OF ok at]
  note c = cleanup_found [OF at d'(1,3), of "env_now e"]
  obtain evs where evs: "hub_rep (evs, False) (cs_hub ?s)"
    using d(3,4) by (auto simp: sess_ok_def)
  let ?ev1 = "ev\<lparr>ev_call_id := cid\<rparr>" and ?ev2 = "(blank_event ''call_ended'')\<lparr>ev_call_id := cid\<rparr>"
  have hub: "cs_hub (cm_sess (realtime_event e i ev m) ! i) =
      hub_run [Publish (env_now e) ?ev1, Publish (env_now e) ?ev2, Close_hub] (cs_hub ?s)"
    using d by (simp add: r c nth_update_at hub_run_def)
  have "hub_rep (evs @ [stamp (of_nat (length evs + 1)) (env_now e) ?ev1,
      stamp (of_nat (length evs + 2)) (env_now e) ?ev2], True) (cs_hub (cm_sess (realtime_event e i ev m) ! i))"
    unfolding hub using hub_run_rep [OF evs, of "[Publish (env_now e) ?ev1, Publish (env_now e) ?ev2, Close_hub]"]
    by simp
  moreover have "cid \<notin> set (active_call_ids (realtime_event e i ev m))"
    by (auto simp: r c active_call_ids_def AList.delete_eq)
  ultimately show ?thesis
    using assms(4) by (intro conjI exI) (assumption+, simp_all add: stamp_def blank_event_def)
qed

definition media_manager :: call_manager where
  "media_manager = on_ready example_env 0 example_manager"

lemma media_manager_events:
  "cm_active media_manager = [(''in'', 0)] \<and> cs_events (cm_sess media_manager ! 0)"
  by (simp add: media_manager_def on_ready_def example_manager_def handle_incoming_def example_env_def
      register_session_def new_session_def new_manager_def Let_def resolve_peer_def parse_uint_def
      digit_val_def start_realtime_def open_realtime_def user_channel_def model_fault_def
      adopt_realtime_def update_at_def)

theorem realtime_error_ends_call_witness:
  "''in'' \<notin> set (active_call_ids (realtime_event example_env 0 (blank_event ''error'') media_manager))"
proof -
  have ok: "manager_ok media_manager" unfolding media_manager_def by (rule on_ready_ok) simp
  show ?thesis
    using realtime_error_ends_call [OF ok, of "''in''" 0 "blank_event ''error''" example_env] media_manager_events
    by (simp add: blank_event_def)
qed

text \<open>A call that ends while its realtime session is still being started leaks that session: the session
  is adopted by the ended call, its audio source stays open, no call is active any more, and the
  provider is never told to close it.\<close>

theorem late_session_leaks:
  "\<exists>ops. let m = call_run ops new_manager in
     cm_active m = [] \<and> Fx_start_session 79 \<in> set (cm_fx m) \<and> Fx_close_session 79 \<notin> set (cm_fx m)
     \<and> cs_once (cm_sess m ! 0) \<and> cs_resp (cm_sess m ! 0) = 79
     \<and> (\<exists>src. cs_source (cm_sess m ! 0) = Some src \<and> \<not> src_closed src)"
proof -
  let ?ops = "[Op_incoming example_env ''in'' (new_jid ''79'' ''s''), Op_open example_env 79,
    Op_end 1 ''in'', Op_adopt 0 79]"
  have "let m = call_run ?ops new_manager in
     cm_active m = [] \<and> Fx_start_session 79 \<in> set (cm_fx m) \<and> Fx_close_session 79 \<notin> set (cm_fx m)
     \<and> cs_once (cm_sess m ! 0) \<and> cs_resp (cm_sess m ! 0) = 79
     \<and> (\<exists>src. cs_source (cm_sess m ! 0) = Some src \<and> \<not> src_closed src)"
    by (simp add: call_run_def handle_incoming_def example_env_def register_session_def new_session_def
        new_manager_def Let_def open_realtime_def user_channel_def model_fault_def cleanup_def
        adopt_realtime_def update_at_def new_audio_source_def)
  then show ?thesis by blast
qed

end
