(* ===== verification/Call_Watch.thy ===== *)
theory Call_Watch
  imports Call_Safety
begin

section \<open>The watcher of a call ends (watchTimeout in calls.go)\<close>

text \<open>
  The phases of a watcher are ordered as the code runs through them, and every event of the goroutine leaves
  them or moves on: the goroutine is over after two of them.
\<close>

instantiation watch_phase :: linorder
begin

fun watch_rank :: "watch_phase \<Rightarrow> nat" where
  "watch_rank Watch_setup = 0"
| "watch_rank Watch_media = 1"
| "watch_rank Watch_over = 2"

definition less_eq_watch_phase :: "watch_phase \<Rightarrow> watch_phase \<Rightarrow> bool" where
  "less_eq_watch_phase a b \<longleftrightarrow> watch_rank a \<le> watch_rank b"

definition less_watch_phase :: "watch_phase \<Rightarrow> watch_phase \<Rightarrow> bool" where
  "less_watch_phase a b \<longleftrightarrow> watch_rank a < watch_rank b"

instance
proof
  fix a b c :: watch_phase
  show "a < b \<longleftrightarrow> a \<le> b \<and> \<not> b \<le> a" by (auto simp: less_watch_phase_def less_eq_watch_phase_def)
  show "a \<le> a" by (simp add: less_eq_watch_phase_def)
  show "a \<le> b \<Longrightarrow> b \<le> c \<Longrightarrow> a \<le> c" by (simp add: less_eq_watch_phase_def)
  show "a \<le> b \<Longrightarrow> b \<le> a \<Longrightarrow> a = b" by (cases a; cases b) (simp_all add: less_eq_watch_phase_def)
  show "a \<le> b \<or> b \<le> a" by (auto simp: less_eq_watch_phase_def)
qed

end

definition phase :: "call_manager \<Rightarrow> nat \<Rightarrow> watch_phase" where
  "phase m i = cs_watch (cm_sess m ! i)"

definition watch_run :: "nat \<Rightarrow> (call_env \<times> watch_event) list \<Rightarrow> call_manager \<Rightarrow> call_manager" where
  "watch_run i evs m = fold (\<lambda>(e, ev). watch_step e i ev) evs m"

subsection \<open>Lemmas\<close>

lemma watch_rank_inject: "watch_rank a = watch_rank b \<longleftrightarrow> a = b"
  by (cases a; cases b) simp_all

lemma over_greatest [simp]: "Watch_over \<le> p \<longleftrightarrow> p = Watch_over" "p \<le> Watch_over" "Watch_setup \<le> p"
  by (cases p; simp add: less_eq_watch_phase_def)+

lemma ended_watch: "cs_watch (ended now s) = cs_watch s"
  by (simp add: ended_def Let_def close_source_def cancel_session_def split: option.split)

lemma cleanup_watch:
  assumes "manager_ok m"
  shows "map cs_watch (cm_sess (cleanup now cid m)) = map cs_watch (cm_sess m)"
proof (cases "map_of (cm_active m) cid")
  case None
  then show ?thesis by (simp add: cleanup_absent)
next
  case (Some i)
  note d = manager_okD [OF assms Some]
  show ?thesis unfolding cleanup_found(1) [OF Some d(1,3)] by (rule map_update_at) (rule ended_watch)
qed

lemma end_timed_out_watch:
  assumes "manager_ok m"
  shows "map cs_watch (cm_sess (end_timed_out e i m)) = map cs_watch (cm_sess m)"
proof -
  have "manager_ok (fx (Fx_hangup cid) m)" for cid using assms by simp
  then show ?thesis using cleanup_watch by (simp add: end_timed_out_def Let_def split: option.split)
qed

lemma phase_by_map: "map cs_watch (cm_sess a) = map cs_watch (cm_sess b) \<Longrightarrow> i < length (cm_sess b) \<Longrightarrow>
    phase a i = phase b i \<and> length (cm_sess a) = length (cm_sess b)"
  unfolding phase_def by (metis length_map nth_map)

lemma phase_set_watch [simp]: "i < length (cm_sess m) \<Longrightarrow> phase (set_watch i w m) i = w"
  by (simp add: phase_def set_watch_def nth_update_at)

lemma length_set_watch [simp]: "length (cm_sess (set_watch i w m)) = length (cm_sess m)"
  by (simp add: set_watch_def)

text \<open>Where an event takes the watcher.\<close>

definition next_phase :: "call_session \<Rightarrow> watch_event \<Rightarrow> watch_phase" where
  "next_phase s ev =
     (case (cs_watch s, ev) of
        (Watch_setup, Context_cancelled) \<Rightarrow> if cs_cancelled s then Watch_over else Watch_setup
      | (Watch_setup, Setup_timer) \<Rightarrow> if cs_ready s then Watch_media else Watch_over
      | (Watch_media, Context_cancelled) \<Rightarrow> if cs_cancelled s then Watch_over else Watch_media
      | (Watch_media, Life_timer) \<Rightarrow> Watch_over
      | (Watch_media, Idle_tick) \<Rightarrow> Watch_over
      | (w, _) \<Rightarrow> w)"

lemma timed_out_phase:
  assumes "manager_ok m" "i < length (cm_sess m)" "\<not> ended_fx f"
  shows "phase (set_watch i w (end_timed_out e i (fx f m))) i = w
    \<and> length (cm_sess (set_watch i w (end_timed_out e i (fx f m)))) = length (cm_sess m)"
proof -
  have "manager_ok (fx f m)" using assms by simp
  from phase_by_map [OF end_timed_out_watch [OF this], of i e] assms(2) show ?thesis by simp
qed

lemma watch_step_phase:
  assumes "manager_ok m" "i < length (cm_sess m)"
  shows "phase (watch_step e i ev m) i = next_phase (cm_sess m ! i) ev
    \<and> length (cm_sess (watch_step e i ev m)) = length (cm_sess m)"
proof -
  have life: "phase (set_watch i w (end_timed_out e i m)) i = w
      \<and> length (cm_sess (set_watch i w (end_timed_out e i m))) = length (cm_sess m)" for w
    using phase_by_map [OF end_timed_out_watch [OF assms(1)], of i e] assms(2) by simp
  show ?thesis
    using assms(2) life timed_out_phase [OF assms]
    by (simp add: watch_step.simps Let_def next_phase_def metric_def split: watch_phase.split watch_event.split)
      (simp add: phase_def)
qed

lemma next_phase_grows: "cs_watch s \<le> next_phase s ev"
  by (cases "cs_watch s"; cases ev) (simp_all add: next_phase_def less_eq_watch_phase_def)

lemma watch_run_phase:
  assumes "manager_ok m" "i < length (cm_sess m)"
  shows "phase m i \<le> phase (watch_run i evs m) i \<and> manager_ok (watch_run i evs m)
    \<and> length (cm_sess (watch_run i evs m)) = length (cm_sess m)"
  using assms
proof (induction evs arbitrary: m)
  case (Cons p evs)
  obtain e ev where p: "p = (e, ev)" by fastforce
  let ?m = "watch_step e i ev m"
  have "manager_ok ?m" using Cons.prems by (simp add: watch_step_ok)
  moreover have "phase m i \<le> phase ?m i" "length (cm_sess ?m) = length (cm_sess m)"
    using watch_step_phase [OF Cons.prems, of e ev] next_phase_grows [of "cm_sess m ! i" ev]
    by (simp_all add: phase_def)
  ultimately show ?case
    using Cons.IH [of ?m] Cons.prems(2) by (auto simp: p watch_run_def)
qed (simp add: watch_run_def)

lemma watch_run_append: "watch_run i (xs @ ys) m = watch_run i ys (watch_run i xs m)"
  by (simp add: watch_run_def)

lemma watch_run_Cons: "watch_run i ((e, ev) # evs) m = watch_run i evs (watch_step e i ev m)"
  by (simp add: watch_run_def)

text \<open>C27: the watcher of a call is over for good once its setup timer and then its lifetime timer or idle ticker
  have fired, whatever else happens between and after, and it never goes back to an earlier phase.\<close>

theorem watcher_ends:
  assumes "manager_ok m" "i < length (cm_sess m)"
    and "evs = before @ (e, Setup_timer) # between @ (e', t) # later" "t = Life_timer \<or> t = Idle_tick"
  shows "phase m i \<le> phase (watch_run i before m) i \<and> phase (watch_run i evs m) i = Watch_over
    \<and> watch_run i (evs @ more_events) m = watch_run i evs m"
proof -
  define m1 where "m1 = watch_run i before m"
  define m2 where "m2 = watch_step e i Setup_timer m1"
  define m3 where "m3 = watch_run i between m2"
  define m4 where "m4 = watch_step e' i t m3"
  have 1: "manager_ok m1" "i < length (cm_sess m1)" "phase m i \<le> phase m1 i"
    using watch_run_phase [OF assms(1,2), of before] assms(2) by (simp_all add: m1_def)
  have 2: "manager_ok m2" "i < length (cm_sess m2)" "Watch_media \<le> phase m2 i"
    using watch_step_phase [OF 1(1,2), of e Setup_timer] 1
    by (auto simp: m2_def watch_step_ok next_phase_def less_eq_watch_phase_def split: watch_phase.split)
  have 3: "manager_ok m3" "i < length (cm_sess m3)" "Watch_media \<le> phase m3 i"
    using watch_run_phase [OF 2(1,2), of between] 2 order_trans by (auto simp: m3_def)
  have 4: "manager_ok m4" "i < length (cm_sess m4)" "phase m4 i = Watch_over"
    using watch_step_phase [OF 3(1,2), of e' t] 3 assms(4)
    by (auto simp: m4_def watch_step_ok next_phase_def phase_def less_eq_watch_phase_def split: watch_phase.splits)
  have "watch_run i evs m = watch_run i later m4"
    by (simp add: assms(3) watch_run_append watch_run_Cons m1_def m2_def m3_def m4_def)
  also have "\<dots> = m4"
    using watch_over_fold [of m4 i later] 4(3) by (simp add: watch_run_def phase_def)
  finally have run: "watch_run i evs m = m4" .
  have "watch_run i more_events m4 = m4"
    using watch_over_fold [of m4 i more_events] 4(3) by (simp add: watch_run_def phase_def)
  then show ?thesis using 1(3) 4(3) run by (simp add: watch_run_append m1_def)
qed

theorem watcher_ends_witness:
  "phase (watch_run 0 [(example_env, Setup_timer), (example_env, Life_timer)] example_manager) 0 = Watch_over"
proof -
  have len: "0 < length (cm_sess example_manager)"
    by (simp add: example_manager_def handle_incoming_def example_env_def register_session_def new_manager_def Let_def)
  have evs: "[(example_env, Setup_timer), (example_env, Life_timer)] = [] @ (example_env, Setup_timer) # [] @ (example_env, Life_timer) # []"
    by simp
  show ?thesis using watcher_ends [OF example_manager_ok len evs] by blast
qed

end
