(* ===== verification/Messages.thy ===== *)
theory Messages
  imports Wa_Types
begin

section \<open>Classification of incoming messages (internal/whatsapp/messages)\<close>

text \<open>
  \<open>events.Message\<close> is a type of the client library; the records below hold what the program asks of it.
  \<open>wa_msg\<close> is the protobuf \<open>Message\<close>: each getter that may give nil is an option, and \<open>GetConversation\<close>
  gives the empty string when there is no conversation. For the context info of an extended text the
  model keeps its \<open>%+v\<close> print, which is all the program looks at. The pointers \<open>msg\<close> and \<open>msg.Message\<close>
  may be nil: a message is a \<open>wa_event option\<close> with an optional body.

  Texts in Russian are the bytes of their UTF-8 form; each is translated where it is defined.
\<close>

record audio_msg =
  au_ptt :: bool
  au_mime :: string

record doc_msg =
  doc_name :: string
  doc_mime :: string

record wa_msg =
  wm_conversation :: string
  wm_ext :: "(string \<times> string option) option"
  wm_audio :: "audio_msg option"
  wm_document :: "doc_msg option"
  wm_image :: "string option"
  wm_video :: "string option"

record wa_event =
  we_body :: "wa_msg option"
  we_id :: string
  we_sender :: jid
  we_sender_alt :: jid
  we_chat :: jid
  we_from_me :: bool
  we_broadcast :: bool
  we_category :: string
  we_time :: int
  we_push_name :: string

definition second :: int where "second = 1000000000"

subsection \<open>The text of a message\<close>

text \<open>"[Voice message]", "[Document]", "[Image]" and "[Unsupported message type]".\<close>

definition voice_label :: string where
  "voice_label = map char_of [91, 208, 147, 208, 190, 208, 187, 208, 190, 209, 129, 208, 190,
     208, 178, 208, 190, 208, 181, 32, 209, 129, 208, 190, 208, 190, 208, 177, 209, 137, 208,
     181, 208, 189, 208, 184, 208, 181, 93 :: nat]"

definition document_label :: string where
  "document_label = map char_of [91, 208, 148, 208, 190, 208, 186, 209, 131, 208, 188, 208,
     181, 208, 189, 209, 130, 93 :: nat]"

definition image_label :: string where
  "image_label = map char_of [91, 208, 152, 208, 183, 208, 190, 208, 177, 209, 128, 208, 176,
     208, 182, 208, 181, 208, 189, 208, 184, 208, 181, 93 :: nat]"

definition unsupported_label :: string where
  "unsupported_label = map char_of [91, 208, 157, 208, 181, 208, 191, 208, 190, 208, 180, 208,
     180, 208, 181, 209, 128, 208, 182, 208, 184, 208, 178, 208, 176, 208, 181, 208, 188, 209,
     139, 208, 185, 32, 209, 130, 208, 184, 208, 191, 32, 209, 129, 208, 190, 208, 190, 208,
     177, 209, 137, 208, 181, 208, 189, 208, 184, 209, 143, 93 :: nat]"

definition message_text :: "wa_event option \<Rightarrow> string" where
  "message_text ev =
     (case Option.bind ev we_body of
        None \<Rightarrow> []
      | Some m \<Rightarrow>
          if wm_conversation m \<noteq> [] then wm_conversation m
          else (case wm_ext m of
                  Some (body, _) \<Rightarrow> body
                | None \<Rightarrow>
                    if (case wm_audio m of Some a \<Rightarrow> au_ptt a | None \<Rightarrow> False) then voice_label
                    else if wm_document m \<noteq> None then document_label
                    else if wm_image m \<noteq> None then image_label
                    else unsupported_label))"

definition message_type :: "wa_event option \<Rightarrow> string" where
  "message_type ev =
     (case Option.bind ev we_body of
        None \<Rightarrow> ''unknown''
      | Some m \<Rightarrow>
          if wm_conversation m \<noteq> [] then ''text''
          else if wm_ext m \<noteq> None then ''extended_text''
          else if wm_audio m \<noteq> None then ''audio''
          else if wm_image m \<noteq> None then ''image''
          else if wm_video m \<noteq> None then ''video''
          else if wm_document m \<noteq> None then ''document''
          else ''other'')"

text \<open>\<open>SenderID\<close>; a nil message is an error of its own.\<close>

definition sender_id :: "wa_event option \<Rightarrow> num_error option + u64" where
  "sender_id ev =
     (case ev of
        None \<Rightarrow> Inl None
      | Some e \<Rightarrow>
          (case parse_uint 64 (jid_user (we_sender e)) of
             Inl err \<Rightarrow> Inl (Some err)
           | Inr n \<Rightarrow> Inr (of_nat n)))"

subsection \<open>Files of a message\<close>

record file_upload =
  fu_name :: string
  fu_content :: "byte list"
  fu_mime :: string

datatype media = Media_image | Media_document | Media_video | Media_audio

text \<open>
  The \<open>switch\<close> of \<open>ExtractFilesFromMessage\<close> picks the first kind of media there is, with the name of the
  upload; \<open>download\<close> fetches it or fails, which only drops the file.
\<close>

definition media_of :: "wa_event \<Rightarrow> wa_msg \<Rightarrow> (media \<times> string \<times> string) option" where
  "media_of e m =
     (case wm_image m of
        Some mime \<Rightarrow> Some (Media_image, ''image_'' @ we_id e @ ''.jpg'', mime)
      | None \<Rightarrow>
         (case wm_document m of
            Some d \<Rightarrow> Some (Media_document, if doc_name d = [] then ''document_'' @ we_id e else doc_name d, doc_mime d)
          | None \<Rightarrow>
             (case wm_video m of
                Some mime \<Rightarrow> Some (Media_video, ''video_'' @ we_id e @ ''.mp4'', mime)
              | None \<Rightarrow>
                 (case wm_audio m of
                    Some a \<Rightarrow>
                      if \<not> au_ptt a then Some (Media_audio, ''audio_'' @ we_id e @ ''.ogg'', au_mime a) else None
                  | None \<Rightarrow> None))))"

definition extract_files :: "wa_event option \<Rightarrow> (media \<Rightarrow> string + byte list) option \<Rightarrow> file_upload list" where
  "extract_files ev download =
     (case (ev, Option.bind ev we_body, download) of
        (Some e, Some m, Some fetch) \<Rightarrow>
          (case media_of e m of
             None \<Rightarrow> []
           | Some (kind, name, mime) \<Rightarrow>
               (case fetch kind of
                  Inl _ \<Rightarrow> []
                | Inr bs \<Rightarrow> [\<lparr>fu_name = name, fu_content = bs, fu_mime = mime\<rparr>]))
      | _ \<Rightarrow> [])"

subsection \<open>The filter (filter.go)\<close>

text \<open>
  \<open>ShouldIgnoreMessage\<close> gives the first rule that applies; \<open>None\<close> is "do not ignore". Times are
  nanoseconds; \<open>jid_text\<close> is the library's \<open>String\<close> of an address.
\<close>

definition context_noise :: "wa_msg \<Rightarrow> bool" where
  "context_noise m =
     (case wm_ext m of
        Some (_, Some ctx) \<Rightarrow>
          str_contains ctx ''deviceListMetadata'' \<or> str_contains ctx ''messageSecret''
          \<or> str_contains ctx ''recipientTimestamp''
      | _ \<Rightarrow> False)"

definition should_ignore :: "(jid \<Rightarrow> string) \<Rightarrow> int \<Rightarrow> int \<Rightarrow> wa_event option \<Rightarrow> string option" where
  "should_ignore jid_text now connected_at ev =
     (case ev of
        None \<Rightarrow> Some ''nil_message''
      | Some e \<Rightarrow>
        (case we_body e of
           None \<Rightarrow> Some ''nil_message''
         | Some m \<Rightarrow>
             if now - connected_at < 30 * second then Some ''message_ignore_window''
             else if jid_server (we_sender e) = ''broadcast'' \<or> jid_user (we_chat e) = ''status'' then
               Some ''status_broadcast''
             else if jid_text (we_chat e) = ''status@broadcast'' \<or> jid_text (we_sender e) = ''status@broadcast'' then
               Some ''status_broadcast''
             else if we_from_me e \<or> we_broadcast e then Some ''from_me_or_broadcast''
             else if we_category e = ''peer'' \<or> we_category e = ''retry'' then Some ''peer_or_retry''
             else if str_contains (we_id e) ''BAE'' \<or> str_contains (we_id e) ''_BAE'' then Some ''history_id''
             else if context_noise m then Some ''context_info''
             else if we_time e < now - 5 * 60 * second then Some ''too_old''
             else None))"

subsection \<open>The telephone of a contact (format.go)\<close>

definition extract_real_phone :: "(string \<Rightarrow> string + jid) \<Rightarrow> string \<Rightarrow> string \<Rightarrow> string \<Rightarrow> string" where
  "extract_real_phone parse_jid dus s fallback =
     (if s = [] then fallback
      else case parse_jid s of
             Inl _ \<Rightarrow> fallback
           | Inr j \<Rightarrow>
               if jid_server j = ''lid'' \<and> jid_user j \<noteq> [] then jid_user j
               else if jid_server j = dus \<and> jid_user j \<noteq> [] then jid_user j
               else if jid_user j = [] then fallback
               else jid_user j)"

subsection \<open>Lemmas\<close>

lemma length_labels:
  "length voice_label = 39" "length document_label = 18"
  "length image_label = 24" "length unsupported_label = 60"
  by (simp_all add: voice_label_def document_label_def image_label_def unsupported_label_def)

lemma labels_distinct [simp]:
  "voice_label \<noteq> unsupported_label" "document_label \<noteq> unsupported_label" "image_label \<noteq> unsupported_label"
  "voice_label \<noteq> document_label" "voice_label \<noteq> image_label" "voice_label \<noteq> []" "unsupported_label \<noteq> []"
  by (auto simp: length_labels dest!: arg_cong [where f = length])

text \<open>The servers make no difference: the user part is the telephone, whatever the server.\<close>

lemma extract_real_phone_eq:
  "extract_real_phone parse_jid dus s fallback =
     (if s = [] then fallback
      else case parse_jid s of Inl _ \<Rightarrow> fallback | Inr j \<Rightarrow> if jid_user j = [] then fallback else jid_user j)"
  by (auto simp: extract_real_phone_def split: sum.split)

lemma should_ignore_None:
  "should_ignore jid_text now connected_at ev = None \<longleftrightarrow>
     (\<exists>e m. ev = Some e \<and> we_body e = Some m \<and> now - connected_at \<ge> 30 * second
        \<and> jid_server (we_sender e) \<noteq> ''broadcast'' \<and> jid_user (we_chat e) \<noteq> ''status''
        \<and> jid_text (we_chat e) \<noteq> ''status@broadcast'' \<and> jid_text (we_sender e) \<noteq> ''status@broadcast''
        \<and> \<not> we_from_me e \<and> \<not> we_broadcast e \<and> we_category e \<noteq> ''peer'' \<and> we_category e \<noteq> ''retry''
        \<and> \<not> str_contains (we_id e) ''BAE''
        \<and> \<not> context_noise m \<and> we_time e \<ge> now - 5 * 60 * second)"
proof -
  have "sublist ''BAE'' ''_BAE''"
    by (rule suffix_imp_sublist) (auto simp: suffix_def)
  then have bae: "(sublist ''BAE'' t \<or> sublist ''_BAE'' t) = sublist ''BAE'' t" for t
    using sublist_order.order.trans by blast
  show ?thesis
  proof (cases "Option.bind ev we_body")
    case None
    then show ?thesis by (auto simp: should_ignore_def split: option.splits)
  next
    case (Some m)
    then obtain e where "ev = Some e" "we_body e = Some m" by (cases ev) auto
    then show ?thesis by (simp add: should_ignore_def bae not_less)
  qed
qed

text \<open>A message with nothing to read as text: the cases of \<open>MessageText\<close> backwards.\<close>

lemma unsupported_text:
  assumes "we_body e = Some m" "wm_conversation m = []" "wm_ext m = None"
    and "\<forall>a. wm_audio m = Some a \<longrightarrow> \<not> au_ptt a" "wm_document m = None" "wm_image m = None"
  shows "message_text (Some e) = unsupported_label"
  using assms by (simp add: message_text_def split: option.split)

end
