(* ===== verification/Master_Keys.thy ===== *)
theory Master_Keys
  imports Messages "HOL-Library.AList"
begin

section \<open>Master keys (internal/whatsapp/master_key.go, internal/app/master_key.go)\<close>

text \<open>
  The key that encrypts a user's session comes from another service and is kept for five minutes. The
  program has two such caches, of the same shape: one in \<open>whatsapp.User\<close>, one in the application for
  the model router and the database. What they share is the locale \<open>ttl_cache\<close>; each is an
  interpretation of it.

  A key is 32 bytes. The answer of the key service is a parameter of each call (an error text or a key),
  and a call has two clock readings: one when it looks, one when it stores.
\<close>

subsection \<open>The contract\<close>

text \<open>
  \<open>get now k s\<close> is what the cache gives at a time, \<open>put\<close> stores a value at a time, \<open>forget\<close> drops one;
  \<open>fetch\<close> is the client operation: look, ask the source if there is nothing, store its answer.
\<close>

locale ttl_cache =
  fixes get :: "int \<Rightarrow> 'k \<Rightarrow> 's \<Rightarrow> 'v option"
    and put :: "int \<Rightarrow> 'k \<Rightarrow> 'v \<Rightarrow> 's \<Rightarrow> 's"
    and forget :: "'k \<Rightarrow> 's \<Rightarrow> 's"
    and fetch :: "('e + 'v) \<Rightarrow> int \<Rightarrow> int \<Rightarrow> 'k \<Rightarrow> 's \<Rightarrow> ('e + 'v) \<times> 's"
    and ttl :: int
  assumes get_put: "get now k (put t k v s) = (if now < t + ttl then Some v else None)"
    and get_put_other: "k \<noteq> k' \<Longrightarrow> get now k (put t k' v s) = get now k s"
    and get_forget: "get now k (forget k s) = None"
    and get_forget_other: "k \<noteq> k' \<Longrightarrow> get now k (forget k' s) = get now k s"
    and fetch_cached: "get now k s = Some v \<Longrightarrow> fetch src now later k s = (Inr v, s)"
    and fetch_asks: "get now k s = None \<Longrightarrow>
          fetch src now later k s = (src, case src of Inl _ \<Rightarrow> s | Inr v \<Rightarrow> put later k v s)"
begin

text \<open>The cache as a specification sees it: the last stored value of each key, with its time.\<close>

lemma fetch_tracks:
  assumes "\<And>k now. get now k s = (case h k of Some (v, t) \<Rightarrow> if now < t + ttl then Some v else None | None \<Rightarrow> None)"
  shows "get now k (snd (fetch src now0 later k0 s)) =
    (case (if get now0 k0 s = None then (case src of Inl _ \<Rightarrow> h | Inr v \<Rightarrow> h(k0 \<mapsto> (v, later))) else h) k of
       Some (v, t) \<Rightarrow> if now < t + ttl then Some v else None | None \<Rightarrow> None)"
proof (cases "get now0 k0 s")
  case None
  then show ?thesis
    using fetch_asks [OF None, of src later] assms(1) get_put get_put_other
    by (cases src) (auto split: option.split)
next
  case (Some v)
  then show ?thesis using fetch_cached [OF Some, of src later] assms(1) by simp
qed

lemma forget_tracks:
  assumes "\<And>k now. get now k s = (case h k of Some (v, t) \<Rightarrow> if now < t + ttl then Some v else None | None \<Rightarrow> None)"
  shows "get now k (forget k0 s) =
    (case (h(k0 := None)) k of Some (v, t) \<Rightarrow> if now < t + ttl then Some v else None | None \<Rightarrow> None)"
  using assms get_forget get_forget_other by (cases "k = k0") simp_all

lemma fetch_after_forget: "fst (fetch src now later k (forget k s)) = src"
  using fetch_asks [OF get_forget] by simp

lemma fetch_other: "k \<noteq> k' \<Longrightarrow> get now k (snd (fetch src t later k' s)) = get now k s"
  by (cases "get t k' s"; cases src) (simp_all add: fetch_cached fetch_asks get_put_other)

end

subsection \<open>The cache of the bots (whatsapp/master_key.go)\<close>

type_synonym master_key = "byte list"

definition master_key_cache_ttl :: int where
  "master_key_cache_ttl = 300 * second"

record cached_master_key =
  mk_key :: master_key
  mk_expires_at :: int

type_synonym master_keys = "(u32 \<times> cached_master_key) list"

definition cached_key :: "int \<Rightarrow> u32 \<Rightarrow> master_keys \<Rightarrow> master_key option" where
  "cached_key now uid ks =
     (case map_of ks uid of
        Some c \<Rightarrow> if now < mk_expires_at c then Some (mk_key c) else None
      | None \<Rightarrow> None)"

definition store_key :: "int \<Rightarrow> u32 \<Rightarrow> master_key \<Rightarrow> master_keys \<Rightarrow> master_keys" where
  "store_key now uid key ks =
     AList.update uid \<lparr>mk_key = key, mk_expires_at = now + master_key_cache_ttl\<rparr> ks"

datatype rpc_error = Rpc_missing | Rpc_failed string

definition get_master_key ::
  "(rpc_error + master_key) \<Rightarrow> int \<Rightarrow> int \<Rightarrow> u32 \<Rightarrow> master_keys \<Rightarrow> (rpc_error + master_key) \<times> master_keys" where
  "get_master_key rpc now later uid ks =
     (case cached_key now uid ks of
        Some key \<Rightarrow> (Inr key, ks)
      | None \<Rightarrow>
          (case rpc of
             Inl err \<Rightarrow> (Inl err, ks)
           | Inr key \<Rightarrow> (Inr key, store_key later uid key ks)))"

definition invalidate_master_key :: "u32 \<Rightarrow> master_keys \<Rightarrow> master_keys" where
  "invalidate_master_key uid ks = AList.delete uid ks"

interpretation bot_keys: ttl_cache cached_key store_key invalidate_master_key get_master_key master_key_cache_ttl
  by unfold_locales
    (auto simp: cached_key_def store_key_def invalidate_master_key_def get_master_key_def update_conv' delete_conv'
      split: sum.split)

text \<open>\<open>userMasterKey\<close> (user_subscription.go) hides an error behind a key of zeros.\<close>

definition zero_key :: master_key where
  "zero_key = replicate 32 0"

definition user_master_key ::
  "(rpc_error + master_key) \<Rightarrow> int \<Rightarrow> int \<Rightarrow> u32 \<Rightarrow> master_keys \<Rightarrow> master_key \<times> master_keys" where
  "user_master_key rpc now later uid ks =
     (case get_master_key rpc now later uid ks of
        (Inr key, ks) \<Rightarrow> (key, ks)
      | (Inl _, ks) \<Rightarrow> (zero_key, ks))"

text \<open>
  \<open>decryptSessionData\<close>: \<open>rpc\<close> is \<open>None\<close> when the client is nil, \<open>decrypt\<close> is the library's decryption.
  The last component says whether the user was asked to log in again.
\<close>

datatype decrypt_error = Decrypt_no_rpc | Key_unavailable rpc_error | Decrypt_failed string

definition decrypt_session_data ::
  "(rpc_error + master_key) option \<Rightarrow> (master_key \<Rightarrow> string \<Rightarrow> string + string) \<Rightarrow> int \<Rightarrow> int \<Rightarrow> u32 \<Rightarrow> string
   \<Rightarrow> master_keys \<Rightarrow> (decrypt_error + string) \<times> master_keys \<times> bool" where
  "decrypt_session_data rpc decrypt now later uid raw ks =
     (case rpc of
        None \<Rightarrow> (Inl Decrypt_no_rpc, ks, False)
      | Some r \<Rightarrow>
          (case get_master_key r now later uid ks of
             (Inl err, ks) \<Rightarrow> (Inl (Key_unavailable err), ks, True)
           | (Inr key, ks) \<Rightarrow>
               (case decrypt key raw of
                  Inl t \<Rightarrow> (Inl (Decrypt_failed t), invalidate_master_key uid ks, False)
                | Inr plain \<Rightarrow> (Inr plain, ks, False))))"

subsection \<open>The cache of the application (app/master_key.go)\<close>

record master_key_item =
  mi_key :: master_key
  mi_expires :: int

type_synonym key_items = "(u32 \<times> master_key_item) list"

definition app_cached_key :: "int \<Rightarrow> u32 \<Rightarrow> key_items \<Rightarrow> master_key option" where
  "app_cached_key now uid items =
     (case map_of items uid of
        Some i \<Rightarrow> if now < mi_expires i then Some (mi_key i) else None
      | None \<Rightarrow> None)"

definition app_store_key :: "int \<Rightarrow> u32 \<Rightarrow> master_key \<Rightarrow> key_items \<Rightarrow> key_items" where
  "app_store_key now uid key items = AList.update uid \<lparr>mi_key = key, mi_expires = now + 5 * 60 * second\<rparr> items"

definition get_user_master_key ::
  "(string + master_key) \<Rightarrow> int \<Rightarrow> int \<Rightarrow> u32 \<Rightarrow> key_items \<Rightarrow> (string + master_key) \<times> key_items" where
  "get_user_master_key client now later uid items =
     (case app_cached_key now uid items of
        Some key \<Rightarrow> (Inr key, items)
      | None \<Rightarrow>
          (case client of
             Inl err \<Rightarrow> (Inl err, items)
           | Inr key \<Rightarrow> (Inr key, app_store_key later uid key items)))"

definition app_invalidate_master_key :: "u32 \<Rightarrow> key_items \<Rightarrow> key_items" where
  "app_invalidate_master_key uid items = AList.delete uid items"

interpretation app_keys: ttl_cache app_cached_key app_store_key app_invalidate_master_key get_user_master_key
    "5 * 60 * second"
  by unfold_locales
    (auto simp: app_cached_key_def app_store_key_def app_invalidate_master_key_def get_user_master_key_def
      update_conv' delete_conv' split: sum.split)

text \<open>\<open>SetMasterKeyResolver\<close> in app.go: the resolver of the database.\<close>

definition resolve_master_key ::
  "(string + master_key) \<Rightarrow> int \<Rightarrow> int \<Rightarrow> u32 \<Rightarrow> key_items \<Rightarrow> (master_key \<times> bool) \<times> key_items" where
  "resolve_master_key client now later uid items =
     (case get_user_master_key client now later uid items of
        (Inl _, items) \<Rightarrow> ((zero_key, False), items)
      | (Inr key, items) \<Rightarrow> ((key, True), items))"

subsection \<open>Properties\<close>

text \<open>
  Calls in sequence, and the specification of what is remembered: for each user the last key fetched and
  the time it was stored, since the user's key was last invalidated.
\<close>

datatype key_op = Get_key u32 int int "rpc_error + master_key" | Forget_key u32

fun key_step :: "key_op \<Rightarrow> master_keys \<Rightarrow> master_keys" where
  "key_step (Get_key uid now later rpc) ks = snd (get_master_key rpc now later uid ks)"
| "key_step (Forget_key uid) ks = invalidate_master_key uid ks"

definition usable :: "int \<Rightarrow> (master_key \<times> int) option \<Rightarrow> master_key option" where
  "usable now r = (case r of Some (key, t) \<Rightarrow> if now < t + master_key_cache_ttl then Some key else None | None \<Rightarrow> None)"

fun spec_step :: "key_op \<Rightarrow> (u32 \<Rightarrow> (master_key \<times> int) option) \<Rightarrow> u32 \<Rightarrow> (master_key \<times> int) option" where
  "spec_step (Get_key uid now later rpc) h =
     (case (usable now (h uid), rpc) of (None, Inr key) \<Rightarrow> h(uid \<mapsto> (key, later)) | _ \<Rightarrow> h)"
| "spec_step (Forget_key uid) h = h(uid := None)"

lemma key_run_tracks: "cached_key now uid (fold key_step ops []) = usable now (fold spec_step ops (\<lambda>_. None) uid)"
proof -
  have "cached_key now uid (fold key_step ops ks) = usable now (fold spec_step ops h uid)"
    if "\<And>now uid. cached_key now uid ks = usable now (h uid)" for ks h
    using that
  proof (induction ops arbitrary: ks h)
    case (Cons op ops)
    have inv: "cached_key now uid ks = (case h uid of Some (v, t) \<Rightarrow>
        if now < t + master_key_cache_ttl then Some v else None | None \<Rightarrow> None)" for now uid
      using Cons.prems by (simp add: usable_def)
    have "cached_key now uid (key_step op ks) = usable now (spec_step op h uid)" for now uid
    proof (cases op)
      case (Get_key u t later rpc)
      show ?thesis
        using bot_keys.fetch_tracks [OF inv, of now uid rpc t later u] Cons.prems [of t u]
        by (cases "usable t (h u)"; cases rpc) (auto simp: Get_key usable_def)
    next
      case (Forget_key u)
      show ?thesis using bot_keys.forget_tracks [OF inv, of now uid u] by (simp add: Forget_key usable_def)
    qed
    then show ?case using Cons.IH [of "key_step op ks" "spec_step op h"] by simp
  qed simp
  then show ?thesis by (simp add: cached_key_def usable_def)
qed

text \<open>C21: in any sequence of calls and invalidations, a request for a user's key is answered from memory
  exactly when a key fetched for this user less than five minutes ago has not been invalidated since, and
  then with that key; otherwise with the answer of the key service. So no key is used for longer than five
  minutes, and no user gets another user's key.\<close>

theorem get_master_key_correct:
  "fst (get_master_key rpc now later uid (fold key_step ops [])) =
     (case usable now (fold spec_step ops (\<lambda>_. None) uid) of Some key \<Rightarrow> Inr key | None \<Rightarrow> rpc)"
  by (simp add: get_master_key_def key_run_tracks split: option.split sum.split)



end
