(* ===== verification/Device_Store.thy ===== *)
theory Device_Store
  imports Master_Keys Wa_Types
begin

section \<open>The stored session (devicestore/device.go, devicestore/store.go, repository/mysql)\<close>

text \<open>
  A bot's session is a JSON text in the table \<open>channels\<close>, encrypted with the user's master key.
  \<open>ParseUserBotContainer\<close> rebuilds the device from it, \<open>SaveJSON\<close> writes it back through
  \<open>UpdateWhatsBotData\<close>.

  Parameters: the JSON decoder and encoder of the device (\<open>unjson\<close>, \<open>tojson\<close>), SHA-256 (\<open>sha\<close>), the
  random source (\<open>rnd\<close>), the encryption, and the failures of the database. Keys of the client library
  that the program only passes along are byte lists.
\<close>

subsection \<open>Base64 (encoding/base64, StdEncoding)\<close>

definition b64_val :: "byte \<Rightarrow> nat option" where
  "b64_val b =
     (let n = unat b in
      if 65 \<le> n \<and> n \<le> 90 then Some (n - 65)
      else if 97 \<le> n \<and> n \<le> 122 then Some (n - 71)
      else if 48 \<le> n \<and> n \<le> 57 then Some (n + 4)
      else if n = 43 then Some 62 else if n = 47 then Some 63 else None)"

text \<open>Groups of four; \<open>=\<close> (61) pads the last one. Unused low bits are not checked.\<close>

fun b64_groups :: "byte list \<Rightarrow> byte list option" where
  "b64_groups [] = Some []"
| "b64_groups (a # b # c # d # rest) =
     (case (b64_val a, b64_val b) of
        (Some x, Some y) \<Rightarrow>
          if c = 61 then
            if d = 61 \<and> rest = [] then Some [of_nat (x * 4 + y div 16)] else None
          else (case b64_val c of
                  None \<Rightarrow> None
                | Some z \<Rightarrow>
                    if d = 61 then
                      if rest = [] then Some [of_nat (x * 4 + y div 16), of_nat (y mod 16 * 16 + z div 4)] else None
                    else (case b64_val d of
                            None \<Rightarrow> None
                          | Some w \<Rightarrow>
                              map_option ((@) [of_nat (x * 4 + y div 16), of_nat (y mod 16 * 16 + z div 4),
                                of_nat (z mod 4 * 64 + w)]) (b64_groups rest)))
      | _ \<Rightarrow> None)"
| "b64_groups _ = None"

definition b64_decode :: "byte list \<Rightarrow> byte list option" where
  "b64_decode bs = b64_groups (filter (\<lambda>b. b \<noteq> 10 \<and> b \<noteq> 13) bs)"

subsection \<open>Normalising keys and signatures\<close>

definition decoded :: "byte list \<Rightarrow> byte list" where
  "decoded bs = (case b64_decode bs of Some raw \<Rightarrow> raw | None \<Rightarrow> bs)"

definition normalize_key :: "(byte list \<Rightarrow> byte list) \<Rightarrow> (nat \<Rightarrow> byte list) \<Rightarrow> byte list \<Rightarrow> nat \<Rightarrow> byte list" where
  "normalize_key sha rnd bs len =
     (if bs = [] then rnd len
      else
        let bs = decoded bs in
        if length bs = len then bs
        else if length bs > len then take len bs
        else take len (sha bs))"

definition normalize_signature :: "(byte list \<Rightarrow> byte list) \<Rightarrow> (nat \<Rightarrow> byte list) \<Rightarrow> byte list \<Rightarrow> nat \<Rightarrow> byte list" where
  "normalize_signature sha rnd bs len =
     (if bs = [] then rnd len
      else
        let bs = decoded bs in
        if length bs = len then bs
        else if length bs > len then take len bs
        else
          let h1 = sha bs; h2 = sha (bs @ h1) in h1 @ take (len - length h1) h2)"

subsection \<open>The device\<close>

record account =
  ac_details :: "byte list option"
  ac_key :: "byte list"
  ac_signature :: "byte list"
  ac_device_signature :: "byte list"

record device_data =
  dd_id :: string
  dd_registration :: u32
  dd_noise :: "byte list option"
  dd_identity :: "byte list option"
  dd_prekey :: "byte list option"
  dd_platform :: string
  dd_push_name :: string
  dd_adv :: "byte list option"
  dd_account :: "account option"
  dd_uids :: string
  dd_allow_text :: bool
  dd_allow_call :: bool

record device =
  de_id :: "jid option"
  de_registration :: u32
  de_noise :: "byte list option"
  de_identity :: "byte list option"
  de_prekey :: "byte list option"
  de_platform :: string
  de_push_name :: string
  de_adv :: "byte list option"
  de_account :: "account option"

record dev_store =
  ds_device :: "device option"
  ds_uids :: string
  ds_call :: bool
  ds_text :: bool

datatype device_error =
  Container_failed string | No_device | Json_failed string | Critical_fields_missing
| Jid_failed string | Jid_empty | No_randomness string

definition is_signal_mac_error :: "string \<Rightarrow> bool" where
  "is_signal_mac_error msg \<longleftrightarrow>
     str_contains (to_lower msg) ''mismatching mac'' \<and> str_contains (to_lower msg) ''signal message''"

text \<open>
  The logger of a container: a warning or an error with the text of such a failure is written as a debug message, in
  every module; all other messages keep their level.
\<close>

datatype wa_level = Wa_debug | Wa_info | Wa_warn | Wa_error

record wa_logger =
  wl_filtered :: bool
  wl_modules :: "string list"

definition filtered_logger :: "wa_logger \<Rightarrow> wa_logger" where
  "filtered_logger l = l\<lparr>wl_filtered := True\<rparr>"

definition sub_logger :: "string \<Rightarrow> wa_logger \<Rightarrow> wa_logger" where
  "sub_logger module l = l\<lparr>wl_modules := wl_modules l @ [module]\<rparr>"

definition log_level_of :: "wa_logger \<Rightarrow> wa_level \<Rightarrow> string \<Rightarrow> wa_level" where
  "log_level_of l level msg =
     (if wl_filtered l \<and> (level = Wa_warn \<or> level = Wa_error) \<and> is_signal_mac_error msg then Wa_debug else level)"

definition parse_device_data :: "(string \<Rightarrow> string + device_data) \<Rightarrow> string \<Rightarrow> device_error + device_data" where
  "parse_device_data unjson s =
     (case unjson s of
        Inl t \<Rightarrow> Inl (Json_failed t)
      | Inr d \<Rightarrow>
          if dd_id d = [] \<or> dd_noise d = None \<or> dd_identity d = None
          then Inl Critical_fields_missing else Inr d)"

text \<open>\<open>IsEmpty\<close> of an address: the library's test, a parameter.\<close>

definition parse_device_jid :: "(string \<Rightarrow> string + jid) \<Rightarrow> (jid \<Rightarrow> bool) \<Rightarrow> string \<Rightarrow> device_error + jid" where
  "parse_device_jid parse is_empty s =
     (case parse s of
        Inl t \<Rightarrow> Inl (Jid_failed t)
      | Inr j \<Rightarrow> if is_empty j then Inl Jid_empty else Inr j)"

definition fill_base_device_fields :: "device_data \<Rightarrow> jid \<Rightarrow> device \<Rightarrow> device" where
  "fill_base_device_fields d j dev =
     dev\<lparr>de_id := Some j, de_registration := dd_registration d, de_noise := dd_noise d,
         de_identity := dd_identity d, de_prekey := dd_prekey d, de_platform := dd_platform d,
         de_push_name := dd_push_name d, de_adv := dd_adv d\<rparr>"

definition ensure_adv_secret_key :: "(nat \<Rightarrow> string + byte list) \<Rightarrow> device \<Rightarrow> device_error + device" where
  "ensure_adv_secret_key read_rnd dev =
     (if (case de_adv dev of Some k \<Rightarrow> length k \<noteq> 32 | None \<Rightarrow> True) then
        (case read_rnd 32 of Inl t \<Rightarrow> Inl (No_randomness t) | Inr k \<Rightarrow> Inr (dev\<lparr>de_adv := Some k\<rparr>))
      else Inr dev)"

definition empty_account :: account where
  "empty_account = \<lparr>ac_details = Some [], ac_key = replicate 32 0, ac_signature = replicate 64 0,
     ac_device_signature = replicate 64 0\<rparr>"

definition fill_account :: "(byte list \<Rightarrow> byte list) \<Rightarrow> (nat \<Rightarrow> byte list) \<Rightarrow> device_data \<Rightarrow> device \<Rightarrow> device" where
  "fill_account sha rnd d dev =
     (let ac = (case de_account dev of None \<Rightarrow> empty_account | Some a \<Rightarrow> a);
          ac = (case dd_account d of
                  None \<Rightarrow> ac
                | Some a \<Rightarrow> \<lparr>ac_details = ac_details a, ac_key = normalize_key sha rnd (ac_key a) 32,
                    ac_signature = normalize_signature sha rnd (ac_signature a) 64,
                    ac_device_signature = normalize_signature sha rnd (ac_device_signature a) 64\<rparr>)
      in dev\<lparr>de_account := Some ac\<rparr>)"

definition finalize_account :: "(nat \<Rightarrow> byte list) \<Rightarrow> device \<Rightarrow> device" where
  "finalize_account rnd dev =
     dev\<lparr>de_account := map_option (\<lambda>a.
        a\<lparr>ac_details := Some (case ac_details a of None \<Rightarrow> [] | Some d \<Rightarrow> d),
          ac_key := (if length (ac_key a) \<noteq> 32 then rnd 32 else ac_key a),
          ac_signature := (if length (ac_signature a) \<noteq> 64 then rnd 64 else ac_signature a),
          ac_device_signature := (if length (ac_device_signature a) \<noteq> 64 then rnd 64 else ac_device_signature a)\<rparr>)
        (de_account dev)\<rparr>"

text \<open>
  \<open>ParseUserBotContainer\<close>. \<open>fresh\<close> is the library's new device: an error of the container, or the device
  or nil.
\<close>

record parse_env =
  pe_fresh :: "string + device option"
  pe_unjson :: "string \<Rightarrow> string + device_data"
  pe_parse_jid :: "string \<Rightarrow> string + jid"
  pe_jid_empty :: "jid \<Rightarrow> bool"
  pe_sha :: "byte list \<Rightarrow> byte list"
  pe_rnd :: "nat \<Rightarrow> byte list"
  pe_read_rnd :: "nat \<Rightarrow> string + byte list"

definition parse_user_bot_container :: "parse_env \<Rightarrow> string \<Rightarrow> device_error + dev_store" where
  "parse_user_bot_container e s =
     (case pe_fresh e of
        Inl t \<Rightarrow> Inl (Container_failed t)
      | Inr None \<Rightarrow> Inl No_device
      | Inr (Some dev) \<Rightarrow>
          (case parse_device_data (pe_unjson e) s of
             Inl err \<Rightarrow> Inl err
           | Inr d \<Rightarrow>
               (case parse_device_jid (pe_parse_jid e) (pe_jid_empty e) (dd_id d) of
                  Inl err \<Rightarrow> Inl err
                | Inr j \<Rightarrow>
                    (case ensure_adv_secret_key (pe_read_rnd e) (fill_base_device_fields d j dev) of
                       Inl err \<Rightarrow> Inl err
                     | Inr dev \<Rightarrow>
                         Inr \<lparr>ds_device = Some (finalize_account (pe_rnd e) (fill_account (pe_sha e) (pe_rnd e) d dev)),
                              ds_uids = dd_uids d, ds_call = dd_allow_call d, ds_text = dd_allow_text d\<rparr>))))"

text \<open>\<open>New\<close>: an empty store for a new authorisation.\<close>

datatype new_store_error = New_failed string | New_no_device | New_bad_device

definition new_dev_store :: "string + device option \<Rightarrow> new_store_error + dev_store" where
  "new_dev_store fresh =
     (case fresh of
        Inl t \<Rightarrow> Inl (New_failed t)
      | Inr None \<Rightarrow> Inl New_no_device
      | Inr (Some dev) \<Rightarrow>
          if de_noise dev = None \<or> de_identity dev = None then Inl New_bad_device
          else
            let dev = (if de_platform dev = [] then dev\<lparr>de_platform := ''Debian 12''\<rparr> else dev);
                dev = (if de_push_name dev = [] then dev\<lparr>de_push_name := ''Marusia AI''\<rparr> else dev)
            in Inr \<lparr>ds_device = Some dev, ds_uids = [], ds_call = False, ds_text = False\<rparr>)"

subsection \<open>The table of channels (UpdateWhatsBotData)\<close>

text \<open>
  A row of \<open>channels\<close>: the session text and the flag. The context's two ways to end are told apart from
  other database errors in every message; \<open>stage\<close> says which step failed. A transaction that does not
  commit changes nothing.
\<close>

type_synonym channels = "(u32 \<times> (string option \<times> bool)) list"

datatype db_failure = Deadline | Canceled | Db_error string

datatype update_error =
  Begin_failed db_failure | Lookup_failed db_failure | No_row u32 | Encrypt_failed string
| Update_failed db_failure | Commit_failed db_failure

record tx_env =
  tx_begin :: "db_failure option"
  tx_lookup :: "db_failure option"
  tx_encrypt :: "master_key \<Rightarrow> string \<Rightarrow> string + string"
  tx_exec :: "db_failure option"
  tx_commit :: "db_failure option"

definition update_whats_bot_data ::
  "tx_env \<Rightarrow> u32 \<Rightarrow> master_key \<Rightarrow> string \<Rightarrow> bool \<Rightarrow> channels \<Rightarrow> update_error option \<times> channels" where
  "update_whats_bot_data e uid mk session enabled table =
     (case tx_begin e of
        Some f \<Rightarrow> (Some (Begin_failed f), table)
      | None \<Rightarrow>
     (case tx_lookup e of
        Some f \<Rightarrow> (Some (Lookup_failed f), table)
      | None \<Rightarrow>
          if map_of table uid = None then (Some (No_row uid), table)
          else
     (case (if mk \<noteq> zero_key then tx_encrypt e mk session else Inr session) of
        Inl t \<Rightarrow> (Some (Encrypt_failed t), table)
      | Inr stored \<Rightarrow>
     (case tx_exec e of
        Some f \<Rightarrow> (Some (Update_failed f), table)
      | None \<Rightarrow>
     (case tx_commit e of
        Some f \<Rightarrow> (Some (Commit_failed f), table)
      | None \<Rightarrow> (None, AList.update uid (Some stored, enabled) table))))))"

subsection \<open>Saving (SaveJSON)\<close>

datatype save_error =
  Save_bad_user | Save_no_device | Save_bad_device | Save_json_failed string | Save_no_repo | Save_failed update_error

definition save_json ::
  "(dev_store \<Rightarrow> string + string) \<Rightarrow> tx_env option \<Rightarrow> u32 \<Rightarrow> master_key \<Rightarrow> bool \<Rightarrow> dev_store \<Rightarrow> channels
   \<Rightarrow> save_error option \<times> channels" where
  "save_json tojson repo uid mk first s table =
     (if uid = 0 then (Some Save_bad_user, table)
      else case ds_device s of
        None \<Rightarrow> (Some Save_no_device, table)
      | Some dev \<Rightarrow>
          if de_id dev = None \<or> de_noise dev = None \<or> de_identity dev = None then (Some Save_bad_device, table)
          else
            (case tojson (s\<lparr>ds_text := ds_text s \<or> first, ds_call := ds_call s \<or> first\<rparr>) of
               Inl t \<Rightarrow> (Some (Save_json_failed t), table)
             | Inr json \<Rightarrow>
                 (case repo of
                    None \<Rightarrow> (Some Save_no_repo, table)
                  | Some e \<Rightarrow>
                      (case update_whats_bot_data e uid mk json True table of
                         (Some err, table) \<Rightarrow> (Some (Save_failed err), table)
                       | (None, table) \<Rightarrow> (None, table)))))"

subsection \<open>Lemmas and properties\<close>

lemma filtered_modules:
  "log_level_of (fold sub_logger ms (filtered_logger l)) level msg =
     (if (level = Wa_warn \<or> level = Wa_error) \<and> is_signal_mac_error msg then Wa_debug else level)"
proof -
  have "wl_filtered (fold sub_logger ms (filtered_logger l))"
    by (induction ms arbitrary: l rule: rev_induct) (simp_all add: sub_logger_def filtered_logger_def)
  then show ?thesis by (simp add: log_level_of_def)
qed

lemma length_normalize_key:
  "(\<And>bs. length (sha bs) = 32) \<Longrightarrow> (\<And>n. length (rnd n) = n) \<Longrightarrow> len \<le> 32 \<Longrightarrow>
   length (normalize_key sha rnd bs len) = len"
  by (simp add: normalize_key_def Let_def)

lemma length_normalize_signature:
  "(\<And>bs. length (sha bs) = 32) \<Longrightarrow> (\<And>n. length (rnd n) = n) \<Longrightarrow> 32 \<le> len \<Longrightarrow> len \<le> 64 \<Longrightarrow>
   length (normalize_signature sha rnd bs len) = len"
  by (simp add: normalize_signature_def Let_def)

lemma b64_decode_A: "b64_decode (replicate 32 65) = Some (replicate 24 0)"
proof -
  have v: "b64_val 65 = Some 0" by (simp add: b64_val_def)
  have g: "b64_groups (65 # 65 # 65 # 65 # rest) = map_option ((@) [0, 0, 0]) (b64_groups rest)" for rest
    by (simp add: v)
  have r: "replicate 32 x = [x, x, x, x, x, x, x, x, x, x, x, x, x, x, x, x,
      x, x, x, x, x, x, x, x, x, x, x, x, x, x, x, x]" for x :: byte
    by (simp add: numeral_eq_Suc)
  have z: "replicate 24 x = [x, x, x, x, x, x, x, x, x, x, x, x, x, x, x, x, x, x, x, x, x, x, x, x]" for x :: byte
    by (simp add: numeral_eq_Suc)
  show ?thesis by (simp add: b64_decode_def r z g del: b64_groups.simps(2))
qed

lemma save_json_result:
  "save_json tojson repo uid mk first s table = (r, table') \<Longrightarrow>
     (r \<noteq> None \<longrightarrow> table' = table) \<and>
     (r = None \<longrightarrow> (\<exists>json stored tx. tojson (s\<lparr>ds_text := ds_text s \<or> first, ds_call := ds_call s \<or> first\<rparr>) = Inr json
        \<and> repo = Some tx \<and> (if mk = zero_key then Inr json else tx_encrypt tx mk json) = Inr stored
        \<and> table' = AList.update uid (Some stored, True) table))"
  by (auto simp: save_json_def update_whats_bot_data_def update_conv'
      split: option.splits sum.splits prod.splits if_splits)


definition example_data :: device_data where
  "example_data = \<lparr>dd_id = ''5'', dd_registration = 1, dd_noise = Some [1], dd_identity = Some [2], dd_prekey = None,
     dd_platform = [], dd_push_name = [], dd_adv = None,
     dd_account = Some \<lparr>ac_details = None, ac_key = replicate 32 65, ac_signature = [], ac_device_signature = []\<rparr>,
     dd_uids = ''5 6'', dd_allow_text = True, dd_allow_call = False\<rparr>"

definition blank_device :: device where
  "blank_device = \<lparr>de_id = None, de_registration = 0, de_noise = Some [1], de_identity = Some [2], de_prekey = None,
     de_platform = [], de_push_name = [], de_adv = None, de_account = None\<rparr>"

definition example_parse_env :: parse_env where
  "example_parse_env = \<lparr>pe_fresh = Inr (Some blank_device), pe_unjson = (\<lambda>_. Inr example_data),
     pe_parse_jid = (\<lambda>s. Inr (new_jid s ''s'')), pe_jid_empty = (\<lambda>_. False), pe_sha = (\<lambda>_. replicate 32 9),
     pe_rnd = (\<lambda>n. replicate n 4), pe_read_rnd = (\<lambda>n. Inr (replicate n 4))\<rparr>"


text \<open>Saving a session either fails and leaves the table as it was, or stores exactly the encoded device
  under the user's row, encrypted when there is a master key and in the clear when the key service gave
  none, and switches the channel on, whatever the flag was before. A first authorisation stores both
  permissions as granted.\<close>

theorem save_json_correct:
  "case save_json tojson (Some e) uid (fst (user_master_key rpc now later uid keys)) first s table of
     (Some err, table') \<Rightarrow> table' = table
   | (None, table') \<Rightarrow>
       uid \<noteq> 0 \<and> map_of table uid \<noteq> None \<and>
       (\<exists>json stored. tojson (s\<lparr>ds_text := ds_text s \<or> first, ds_call := ds_call s \<or> first\<rparr>) = Inr json
         \<and> map_of table' = (map_of table)(uid \<mapsto> (Some stored, True))
         \<and> (case fst (get_master_key rpc now later uid keys) of
              Inl _ \<Rightarrow> stored = json
            | Inr key \<Rightarrow> if key = zero_key then stored = json else tx_encrypt e key json = Inr stored))"
  by (auto simp: save_json_def update_whats_bot_data_def user_master_key_def update_conv'
      split: option.splits sum.splits prod.splits if_splits)

end
