(* ===== verification/Repository.thy ===== *)
theory Repository
  imports Device_Store
begin

section \<open>Reading the users of the bots (repository/mysql/repository.go, domain/entities.go)\<close>

text \<open>
  The SQL is the database's: a query gives rows or fails. A row has the columns of the two SELECTs, those
  of the outer joins nullable. \<open>unpack\<close> is the library's \<open>DecompressModelData\<close>.
\<close>

record notifications =
  nt_start :: bool
  nt_end :: bool
  nt_target :: bool

record wa_user =
  wu_user :: u32
  wu_session :: string
  wu_enabled :: bool
  wu_name :: string
  wu_assistant :: string
  wu_provider :: byte
  wu_meta :: string
  wu_triggers :: "string list"
  wu_limit :: u32
  wu_espero :: byte
  wu_ignore :: bool
  wu_events :: notifications

record wa_row =
  rw_user :: u32
  rw_session :: string
  rw_enabled :: bool
  rw_name :: "string option"
  rw_assistant :: "string option"
  rw_data :: "byte list option"
  rw_provider :: "byte option"
  rw_start :: "bool option"
  rw_end :: "bool option"
  rw_target :: "bool option"

record model_data =
  md_meta :: string
  md_triggers :: "string list"
  md_limit :: int
  md_wait :: byte
  md_ignore :: bool

text \<open>\<open>NullBytes.Scan\<close>: a driver value that is neither NULL nor bytes cannot be read.\<close>

datatype driver_value = Db_null | Db_bytes "byte list" | Db_other

definition null_bytes_scan :: "driver_value \<Rightarrow> unit + byte list option" where
  "null_bytes_scan v = (case v of Db_null \<Rightarrow> Inr None | Db_bytes bs \<Rightarrow> Inr (Some bs) | Db_other \<Rightarrow> Inl ())"

text \<open>\<open>open_ai\<close> is the provider used when none is stored. The limit is cut to 32 bits.\<close>

definition fill_wa_user_fields :: "(byte list \<Rightarrow> string + model_data) \<Rightarrow> byte \<Rightarrow> wa_row \<Rightarrow> wa_user \<Rightarrow> wa_user" where
  "fill_wa_user_fields unpack open_ai r u =
     (let u = (case rw_assistant r of Some a \<Rightarrow> u\<lparr>wu_assistant := a\<rparr> | None \<Rightarrow> u);
          u = (case rw_name r of Some n \<Rightarrow> u\<lparr>wu_name := n\<rparr> | None \<Rightarrow> u);
          u = u\<lparr>wu_provider := (case rw_provider r of Some p \<Rightarrow> p | None \<Rightarrow> open_ai)\<rparr>;
          u = (case rw_data r of
                 None \<Rightarrow> u
               | Some bs \<Rightarrow>
                   (case unpack bs of
                      Inl _ \<Rightarrow> u
                    | Inr md \<Rightarrow> u\<lparr>wu_meta := md_meta md, wu_triggers := md_triggers md, wu_limit := of_int (md_limit md),
                        wu_espero := md_wait md, wu_ignore := md_ignore md\<rparr>));
          ev = wu_events u;
          ev = (case rw_start r of Some b \<Rightarrow> ev\<lparr>nt_start := b\<rparr> | None \<Rightarrow> ev);
          ev = (case rw_end r of Some b \<Rightarrow> ev\<lparr>nt_end := b\<rparr> | None \<Rightarrow> ev);
          ev = (case rw_target r of Some b \<Rightarrow> ev\<lparr>nt_target := b\<rparr> | None \<Rightarrow> ev)
      in u\<lparr>wu_events := ev\<rparr>)"

definition blank_user :: "wa_row \<Rightarrow> wa_user" where
  "blank_user r = \<lparr>wu_user = rw_user r, wu_session = rw_session r, wu_enabled = rw_enabled r, wu_name = [],
     wu_assistant = [], wu_provider = 0, wu_meta = [], wu_triggers = [], wu_limit = 0, wu_espero = 0,
     wu_ignore = False, wu_events = \<lparr>nt_start = False, nt_end = False, nt_target = False\<rparr>\<rparr>"

datatype read_error = Query_failed db_failure | Scan_failed string | Rows_failed db_failure | User_not_found u32

definition scan_wa_user ::
  "(byte list \<Rightarrow> string + model_data) \<Rightarrow> byte \<Rightarrow> string + wa_row \<Rightarrow> read_error + wa_user" where
  "scan_wa_user unpack open_ai row =
     (case row of
        Inl t \<Rightarrow> Inl (Scan_failed t)
      | Inr r \<Rightarrow> Inr (fill_wa_user_fields unpack open_ai r (blank_user r)))"

text \<open>The loop over the rows stops at the first that cannot be read.\<close>

fun scan_rows ::
  "(byte list \<Rightarrow> string + model_data) \<Rightarrow> byte \<Rightarrow> (string + wa_row) list \<Rightarrow> read_error + wa_user list" where
  "scan_rows unpack open_ai [] = Inr []"
| "scan_rows unpack open_ai (row # rows) =
     (case scan_wa_user unpack open_ai row of
        Inl err \<Rightarrow> Inl err
      | Inr u \<Rightarrow>
          (case scan_rows unpack open_ai rows of
             Inl err \<Rightarrow> Inl err
           | Inr us \<Rightarrow> Inr (u # us)))"

definition get_wa_user_bot_users ::
  "(byte list \<Rightarrow> string + model_data) \<Rightarrow> byte \<Rightarrow> db_failure + ((string + wa_row) list \<times> db_failure option)
   \<Rightarrow> read_error + wa_user list" where
  "get_wa_user_bot_users unpack open_ai query =
     (case query of
        Inl f \<Rightarrow> Inl (Query_failed f)
      | Inr (rows, end_error) \<Rightarrow>
          (case scan_rows unpack open_ai rows of
             Inl err \<Rightarrow> Inl err
           | Inr us \<Rightarrow> (case end_error of Some f \<Rightarrow> Inl (Rows_failed f) | None \<Rightarrow> Inr us)))"

text \<open>\<open>GetWaUser\<close>: \<open>Inr None\<close> is \<open>sql.ErrNoRows\<close>.\<close>

definition get_wa_user ::
  "(byte list \<Rightarrow> string + model_data) \<Rightarrow> byte \<Rightarrow> u32 \<Rightarrow> db_failure + wa_row option \<Rightarrow> read_error + wa_user" where
  "get_wa_user unpack open_ai uid query =
     (case query of
        Inl f \<Rightarrow> Inl (Query_failed f)
      | Inr None \<Rightarrow> Inl (User_not_found uid)
      | Inr (Some r) \<Rightarrow> Inr (fill_wa_user_fields unpack open_ai r (blank_user r)))"

subsection \<open>Lemmas\<close>

lemma fill_keeps_identity [simp]:
  "wu_user (fill_wa_user_fields unpack o_ai r u) = wu_user u"
  "wu_session (fill_wa_user_fields unpack o_ai r u) = wu_session u"
  "wu_enabled (fill_wa_user_fields unpack o_ai r u) = wu_enabled u"
  by (auto simp: fill_wa_user_fields_def Let_def split: option.split sum.split)

lemma scan_rows_users:
  "scan_rows unpack o_ai rows = Inr us \<Longrightarrow> map (Inr :: wa_row \<Rightarrow> string + wa_row) rs = rows \<Longrightarrow>
     map wu_user us = map rw_user rs"
  by (induction unpack o_ai rows arbitrary: us rs rule: scan_rows.induct)
    (auto simp: scan_wa_user_def blank_user_def split: sum.splits)

end
