(* ===== verification/Responders.thy ===== *)
theory Responders
  imports Wa_Types "HOL-Library.AList"
begin

section \<open>Respondents (internal/whatsapp/responder, internal/whatsapp/bot_responder.go)\<close>

text \<open>
  A respondent is the other party of a dialog, named by a 64-bit number. \<open>Store\<close> keeps a pointer to an
  \<open>Info\<close> for each; the message handler and the goroutine of the first contact share and change the
  same \<open>Info\<close>, so the infos are a list of cells and the map leads to their indices.

  Redis holds the marks "already met" under textual keys. The client's answers are parameters: a
  function for \<open>EXISTS\<close>, one for \<open>SET\<close>, the list of keys for \<open>SCAN\<close>; an error is its text. Go's
  conversions between \<open>uint64\<close> and \<open>int64\<close> keep the bits, so a sender is one word of 64 bits, printed
  unsigned or signed.
\<close>

subsection \<open>The store (responder/store.go)\<close>

record resp_info =
  ri_jid :: jid
  ri_phone :: string
  ri_known :: bool

record resp_store =
  rs_cells :: "resp_info list"
  rs_items :: "(u64 \<times> nat) list"

definition new_resp_store :: resp_store where
  "new_resp_store = \<lparr>rs_cells = [], rs_items = []\<rparr>"

definition known_only :: resp_info where
  "known_only = \<lparr>ri_jid = empty_jid, ri_phone = [], ri_known = True\<rparr>"

definition rs_load :: "u64 \<Rightarrow> resp_store \<Rightarrow> nat option" where
  "rs_load sid s = map_of (rs_items s) sid"

text \<open>\<open>&Info{..}\<close> is a new cell.\<close>

definition rs_alloc :: "resp_info \<Rightarrow> resp_store \<Rightarrow> nat \<times> resp_store" where
  "rs_alloc info s = (length (rs_cells s), s\<lparr>rs_cells := rs_cells s @ [info]\<rparr>)"

definition rs_store :: "u64 \<Rightarrow> nat \<Rightarrow> resp_store \<Rightarrow> resp_store" where
  "rs_store sid p s = s\<lparr>rs_items := AList.update sid p (rs_items s)\<rparr>"

definition rs_load_or_store :: "u64 \<Rightarrow> nat \<Rightarrow> resp_store \<Rightarrow> (nat \<times> bool) \<times> resp_store" where
  "rs_load_or_store sid p s =
     (case map_of (rs_items s) sid of
        Some q \<Rightarrow> ((q, True), s)
      | None \<Rightarrow> ((p, False), s\<lparr>rs_items := AList.update sid p (rs_items s)\<rparr>))"

definition rs_count :: "resp_store \<Rightarrow> nat" where
  "rs_count s = length (rs_items s)"

definition rs_upd :: "nat \<Rightarrow> (resp_info \<Rightarrow> resp_info) \<Rightarrow> resp_store \<Rightarrow> resp_store" where
  "rs_upd p f s = s\<lparr>rs_cells := update_at f p (rs_cells s)\<rparr>"

text \<open>What the map says of a sender: the contents of its cell.\<close>

definition rs_get :: "u64 \<Rightarrow> resp_store \<Rightarrow> resp_info option" where
  "rs_get sid s = map_option ((!) (rs_cells s)) (rs_load sid s)"

definition rs_wf :: "resp_store \<Rightarrow> bool" where
  "rs_wf s \<longleftrightarrow> distinct (map fst (rs_items s)) \<and> (\<forall>(_, p) \<in> set (rs_items s). p < length (rs_cells s))
     \<and> inj_on snd (set (rs_items s))"

subsection \<open>The keys of the cache (responder/cache.go)\<close>

definition known_responder_service_id :: nat where
  "known_responder_service_id = 3"

definition known_responder_user_prefix :: "u32 \<Rightarrow> string" where
  "known_responder_user_prefix uid =
     ''known_responder:'' @ format_uint known_responder_service_id @ '':'' @ format_uint (unat uid) @ '':''"

definition known_responder_key :: "u32 \<Rightarrow> u64 \<Rightarrow> string" where
  "known_responder_key uid sid =
     ''known_responder:'' @ format_uint known_responder_service_id @ '':'' @ format_uint (unat uid) @ '':''
       @ format_int (sint sid)"

datatype key_error = Other_prefix | Bad_sender num_error

definition parse_known_responder_key :: "u32 \<Rightarrow> string \<Rightarrow> key_error + u64" where
  "parse_known_responder_key uid key =
     (let pre = known_responder_user_prefix uid in
      if \<not> prefix pre key then Inl Other_prefix
      else case parse_int 64 (trim_prefix key pre) of
             Inl err \<Rightarrow> Inl (Bad_sender err)
           | Inr n \<Rightarrow> Inr (of_int n))"

text \<open>
  \<open>LoadUser\<close> scans the keys that match the prefix followed by anything. \<open>scan\<close> gives the keys the
  iterator yields and its final error.
\<close>

fun known_ids :: "u32 \<Rightarrow> string list \<Rightarrow> u64 list" where
  "known_ids uid [] = []"
| "known_ids uid (k # ks) =
     (case parse_known_responder_key uid k of
        Inl _ \<Rightarrow> known_ids uid ks
      | Inr sid \<Rightarrow> sid # known_ids uid ks)"

definition cache_load_user :: "(string \<Rightarrow> string list \<times> string option) \<Rightarrow> u32 \<Rightarrow> string + u64 list" where
  "cache_load_user scan uid =
     (case scan (known_responder_user_prefix uid @ ''*'') of
        (keys, None) \<Rightarrow> Inr (known_ids uid keys)
      | (_, Some err) \<Rightarrow> Inl err)"

text \<open>\<open>Has\<close>: \<open>EXISTS\<close> gives a count. On an error the flag is false.\<close>

definition cache_has :: "(string \<Rightarrow> string + int) \<Rightarrow> u32 \<Rightarrow> u64 \<Rightarrow> bool \<times> string option" where
  "cache_has ex uid sid =
     (case ex (known_responder_key uid sid) of
        Inl err \<Rightarrow> (False, Some err)
      | Inr n \<Rightarrow> (n > 0, None))"

text \<open>The marks with the optional cache (\<open>None\<close>: Redis is not configured).\<close>

definition store_known :: "(string \<Rightarrow> string + int) option \<Rightarrow> u32 \<Rightarrow> u64 \<Rightarrow> bool \<times> string option" where
  "store_known cache uid sid = (case cache of None \<Rightarrow> (False, None) | Some ex \<Rightarrow> cache_has ex uid sid)"

definition store_load_user ::
  "(string \<Rightarrow> string list \<times> string option) option \<Rightarrow> u32 \<Rightarrow> string + u64 list" where
  "store_load_user cache uid = (case cache of None \<Rightarrow> Inr [] | Some scan \<Rightarrow> cache_load_user scan uid)"

subsection \<open>Restoring and preloading (bot_responder.go)\<close>

text \<open>\<open>None\<close> is a nil pointer.\<close>

definition restore_fields :: "jid \<Rightarrow> string \<Rightarrow> u64 \<Rightarrow> resp_info \<Rightarrow> bool \<times> resp_info" where
  "restore_fields sender phone sid info =
     (let info = (if jid_user (ri_jid info) = [] then info\<lparr>ri_jid := sender\<rparr> else info)
      in if ri_phone info \<noteq> [] then (False, info)
         else if phone \<noteq> [] then (True, info\<lparr>ri_phone := phone\<rparr>)
         else (True, info\<lparr>ri_phone := format_uint (unat sid)\<rparr>))"

definition restore_responder_fields ::
  "nat option \<Rightarrow> jid \<Rightarrow> string \<Rightarrow> u64 \<Rightarrow> resp_store \<Rightarrow> bool \<times> resp_store" where
  "restore_responder_fields p sender phone sid s =
     (case p of
        None \<Rightarrow> (False, s)
      | Some p \<Rightarrow> (fst (restore_fields sender phone sid (rs_cells s ! p)),
                   rs_upd p (\<lambda>i. snd (restore_fields sender phone sid i)) s))"

definition store_known_only :: "u64 \<Rightarrow> resp_store \<Rightarrow> resp_store" where
  "store_known_only sid s = (case rs_alloc known_only s of (p, s) \<Rightarrow> rs_store sid p s)"

definition preload_first_interaction :: "string + u64 list \<Rightarrow> resp_store \<Rightarrow> resp_store" where
  "preload_first_interaction loaded s =
     (case loaded of Inl _ \<Rightarrow> s | Inr ids \<Rightarrow> fold store_known_only ids s)"

subsection \<open>Lemmas\<close>

lemma key_split: "known_responder_key uid sid = known_responder_user_prefix uid @ format_int (sint sid)"
  by (simp add: known_responder_key_def known_responder_user_prefix_def)

lemma sint64_range: "- (2 ^ 63) \<le> sint (w :: u64)" "sint (w :: u64) < 2 ^ 63"
  using sint_ge [of w] sint_lt [of w] by simp_all

lemma trim_prefix_append [simp]: "trim_prefix (p @ s) p = s"
  by (simp add: trim_prefix_def)

lemma parse_own_key [simp]: "parse_known_responder_key uid (known_responder_key uid sid) = Inr sid"
  using sint64_range [of sid]
  by (simp add: parse_known_responder_key_def key_split Let_def)

text \<open>A key of one user is not read as a key of another, though one prefix may continue the other's number.\<close>

lemma format_colon_prefix:
  assumes "prefix (format_uint a @ '':'') (format_uint b @ '':'' @ rest)"
  shows "a = b"
proof -
  let ?P = "\<lambda>c. c \<noteq> CHR '':''"
  obtain t where t: "format_uint b @ '':'' @ rest = (format_uint a @ '':'') @ t"
    using assms by (auto simp: prefix_def)
  have tw: "takeWhile ?P (format_uint n @ '':'' @ r) = format_uint n" for n r
  proof -
    have "x \<in> set (format_uint n) \<Longrightarrow> ?P x" for x using colon_not_in_format [of n] by auto
    then show ?thesis by (subst takeWhile_append2) simp_all
  qed
  have "takeWhile ?P (format_uint b @ '':'' @ rest) = takeWhile ?P (format_uint a @ '':'' @ t)"
    using t by simp
  then show "a = b" by (simp only: tw format_uint_inject)
qed

lemma parse_other_key:
  assumes "u \<noteq> uid"
  shows "parse_known_responder_key uid (known_responder_key u sid) = Inl Other_prefix"
proof -
  have "\<not> prefix (known_responder_user_prefix uid) (known_responder_key u sid)"
  proof
    assume "prefix (known_responder_user_prefix uid) (known_responder_key u sid)"
    then have "prefix (format_uint (unat uid) @ '':'') (format_uint (unat u) @ '':'' @ format_int (sint sid))"
      by (simp add: known_responder_user_prefix_def known_responder_key_def)
    then have "unat uid = unat u" by (rule format_colon_prefix)
    then have "uid = u" by (simp only: unsigned_word_eqI)
    with assms show False by simp
  qed
  then show ?thesis by (simp add: parse_known_responder_key_def Let_def)
qed

interpretation key_codec: codec "\<lambda>_. True" "known_responder_key uid" "parse_known_responder_key uid" for uid
  by unfold_locales simp

lemma known_ids_keys:
  "known_ids uid (map (\<lambda>(u, sid). known_responder_key u sid) marks) = map snd (filter (\<lambda>(u, _). u = uid) marks)"
  by (induction marks) (auto simp: parse_other_key)


lemma rs_store_ok:
  assumes "rs_wf s"
  shows "rs_wf (store_known_only sid s)" "rs_get sid (store_known_only sid s) = Some known_only"
    "k \<noteq> sid \<Longrightarrow> rs_get k (store_known_only sid s) = rs_get k s"
proof -
  let ?n = "length (rs_cells s)"
  have e: "(k, p) \<in> set (AList.update sid ?n (rs_items s)) \<longleftrightarrow>
      (k = sid \<and> p = ?n) \<or> (k \<noteq> sid \<and> (k, p) \<in> set (rs_items s))" for k p
  proof -
    have d: "distinct (map fst (rs_items s))" "distinct (map fst (AList.update sid ?n (rs_items s)))"
      using assms by (simp_all add: rs_wf_def distinct_update)
    show ?thesis
      unfolding map_of_eq_Some_iff [OF d(1), symmetric] map_of_eq_Some_iff [OF d(2), symmetric]
      by (auto simp: update_conv')
  qed
  have lt: "p < ?n" if "(k, p) \<in> set (rs_items s)" for k p
    using assms that by (auto simp: rs_wf_def)
  have inj: "k = k'" if "(k, p) \<in> set (rs_items s)" "(k', p) \<in> set (rs_items s)" for k k' p
    using inj_onD [of snd "set (rs_items s)" "(k, p)" "(k', p)"] assms that by (simp add: rs_wf_def)
  have "inj_on snd (set (AList.update sid ?n (rs_items s)))"
  proof (rule inj_onI)
    fix x y :: "u64 \<times> nat"
    assume "x \<in> set (AList.update sid ?n (rs_items s))" "y \<in> set (AList.update sid ?n (rs_items s))" "snd x = snd y"
    moreover obtain k p k' p' where "x = (k, p)" "y = (k', p')" by (metis surj_pair)
    ultimately have "(k = sid \<and> p = ?n) \<or> (k \<noteq> sid \<and> (k, p) \<in> set (rs_items s))"
      "(k' = sid \<and> p = ?n) \<or> (k' \<noteq> sid \<and> (k', p) \<in> set (rs_items s))" "p = p'"
      using e [of k p] e [of k' p'] by simp_all
    then show "x = y" using \<open>x = (k, p)\<close> \<open>y = (k', p')\<close> lt inj by auto
  qed
  moreover have lt': "p < Suc ?n" if "(k, p) \<in> set (rs_items s)" for k p using lt [OF that] by simp
  ultimately show "rs_wf (store_known_only sid s)"
    using assms
    by (auto simp: store_known_only_def rs_alloc_def rs_store_def rs_wf_def distinct_update e dest: lt')
  show "rs_get sid (store_known_only sid s) = Some known_only"
    by (simp add: store_known_only_def rs_alloc_def rs_store_def rs_get_def rs_load_def update_conv')
  show "rs_get k (store_known_only sid s) = rs_get k s" if "k \<noteq> sid"
  proof (cases "map_of (rs_items s) k")
    case (Some p)
    then have "p < ?n" using lt map_of_SomeD by fast
    then show ?thesis
      using that Some
      by (simp add: store_known_only_def rs_alloc_def rs_store_def rs_get_def rs_load_def update_conv' nth_append)
  qed (use that in \<open>simp add: store_known_only_def rs_alloc_def rs_store_def rs_get_def rs_load_def update_conv'\<close>)
qed

lemma preload_get:
  "rs_wf s \<Longrightarrow> rs_wf (fold store_known_only ids s) \<and>
     rs_get k (fold store_known_only ids s) = (if k \<in> set ids then Some known_only else rs_get k s)"
  by (induction ids arbitrary: s) (auto simp: rs_store_ok)

subsection \<open>Properties\<close>

text \<open>C34: the marks survive a restart: whatever marks were set, by any user, and even if Redis returned the
  keys of all users, preloading makes known exactly the respondents this user had marked, with their
  exact 64-bit numbers, and changes no other entry.\<close>

theorem preload_restores_marks:
  assumes "rs_wf s"
    and "scan (known_responder_user_prefix uid @ ''*'') =
      (map (\<lambda>(u, sid). known_responder_key u sid) marks, None)"
  shows "rs_get sid (preload_first_interaction (store_load_user (Some scan) uid) s) =
    (if (uid, sid) \<in> set marks then Some known_only else rs_get sid s)"
proof -
  have "store_load_user (Some scan) uid = Inr (map snd (filter (\<lambda>(u, _). u = uid) marks))"
    using assms(2) by (simp add: store_load_user_def cache_load_user_def known_ids_keys)
  then show ?thesis
    using preload_get [OF assms(1)] by (force simp: preload_first_interaction_def)
qed

theorem preload_restores_marks_witness:
  "rs_get 5 (preload_first_interaction
     (store_load_user (Some (\<lambda>_. ([known_responder_key 12 5, known_responder_key 1 (- 2)], None))) 12) new_resp_store)
   = Some known_only"
  using preload_restores_marks [of new_resp_store
      "\<lambda>_. ([known_responder_key 12 5, known_responder_key 1 (- 2)], None)" 12 "[(12, 5), (1, - 2)]" 5]
  by (simp add: rs_wf_def new_resp_store_def)

text \<open>Restoring a preloaded respondent from a message gives it an address and a telephone to answer to,
  keeps what it already had and its mark, changes no other respondent, and doing it again changes
  nothing.\<close>

theorem restore_fills_missing:
  assumes "rs_wf s" "rs_load sid s = Some p" "jid_user sender \<noteq> []"
  shows "let s' = snd (restore_responder_fields (Some p) sender phone sid s) in
    (\<exists>i i'. rs_get sid s = Some i \<and> rs_get sid s' = Some i'
       \<and> jid_user (ri_jid i') \<noteq> [] \<and> ri_phone i' \<noteq> [] \<and> ri_known i' = ri_known i
       \<and> (jid_user (ri_jid i) \<noteq> [] \<longrightarrow> ri_jid i' = ri_jid i) \<and> (ri_phone i \<noteq> [] \<longrightarrow> ri_phone i' = ri_phone i))
    \<and> (\<forall>k. k \<noteq> sid \<longrightarrow> rs_get k s' = rs_get k s)
    \<and> restore_responder_fields (Some p) sender phone' sid s' = (False, s')"
proof -
  let ?i = "rs_cells s ! p"
  let ?s = "snd (restore_responder_fields (Some p) sender phone sid s)"
  have p: "p < length (rs_cells s)" "(sid, p) \<in> set (rs_items s)"
    using assms(1,2) by (auto simp: rs_load_def rs_wf_def dest: map_of_SomeD)
  have other: "rs_get k ?s = rs_get k s" if "k \<noteq> sid" for k
  proof (cases "map_of (rs_items s) k")
    case (Some q)
    have "(k, q) \<in> set (rs_items s)" using map_of_SomeD [OF Some] .
    then have "q \<noteq> p"
      using inj_onD [of snd "set (rs_items s)" "(k, q)" "(sid, p)"] assms(1) p(2) that by (auto simp: rs_wf_def)
    then show ?thesis
      using Some p by (simp add: restore_responder_fields_def rs_upd_def rs_get_def rs_load_def nth_update_at)
  qed (simp add: restore_responder_fields_def rs_upd_def rs_get_def rs_load_def)
  have get: "rs_get sid s = Some ?i" "rs_get sid ?s = Some (snd (restore_fields sender phone sid ?i))"
    using assms(2) p
    by (simp_all add: restore_responder_fields_def rs_upd_def rs_get_def rs_load_def nth_update_at)
  have fixed: "restore_fields sender phone' sid (snd (restore_fields sender phone sid i)) =
      (False, snd (restore_fields sender phone sid i))" for i
    using assms(3) by (simp add: restore_fields_def Let_def)
  have again: "restore_responder_fields (Some p) sender phone' sid ?s = (False, ?s)"
    using fixed p by (simp add: restore_responder_fields_def rs_upd_def nth_update_at)
  have new: "jid_user (ri_jid (snd (restore_fields sender phone sid i))) \<noteq> []"
    "ri_phone (snd (restore_fields sender phone sid i)) \<noteq> []"
    "ri_known (snd (restore_fields sender phone sid i)) = ri_known i"
    "jid_user (ri_jid i) \<noteq> [] \<Longrightarrow> ri_jid (snd (restore_fields sender phone sid i)) = ri_jid i"
    "ri_phone i \<noteq> [] \<Longrightarrow> ri_phone (snd (restore_fields sender phone sid i)) = ri_phone i" for i
    using assms(3) by (simp_all add: restore_fields_def Let_def)
  show ?thesis
    unfolding Let_def using get other again new [of ?i] by blast
qed

theorem restore_fills_missing_witness:
  "rs_get 5 (snd (restore_responder_fields (Some 0) (new_jid ''5'' ''s'') [] 5 (store_known_only 5 new_resp_store))) \<noteq> None"
  using restore_fills_missing [of "store_known_only 5 new_resp_store" 5 0 "new_jid ''5'' ''s''" "[]" "[]"]
    rs_store_ok(1) [of new_resp_store 5]
  by (simp add: rs_wf_def new_resp_store_def rs_load_def store_known_only_def rs_alloc_def rs_store_def Let_def) auto

end
