(* ===== verification/Channels.thy ===== *)
theory Channels
  imports Wa_Types Responders
begin

section \<open>Channels of a dialog (internal/whatsapp/bot_channels.go and the operator mode of whatsapp.go)\<close>

text \<open>
  A dialog with a respondent needs a model, a channel pair and a listener for the answers. All of these
  come from libraries: their answers are the fields of a record \<open>chan_env\<close>, one record for each call
  of \<open>initializeUserChannels\<close>; \<open>GetCh\<close>, asked twice, has two fields. What the code does to them is a
  list of effects in order. Errors carry the text of the error they wrap, and \<open>chan_error_text\<close> is the
  whole text, because a caller looks for a phrase in it.
\<close>

subsection \<open>Errors\<close>

text \<open>"dialog ID error: ", "user model error: ", "user channel error: ", "error sending data to StartCh".\<close>

definition dialog_error_label :: string where
  "dialog_error_label = map char_of [208, 190, 209, 136, 208, 184, 208, 177, 208, 186, 208,
     176, 32, 73, 68, 32, 208, 180, 208, 184, 208, 176, 208, 187, 208, 190, 208, 179, 208, 176,
     58, 32 :: nat]"

definition model_error_label :: string where
  "model_error_label = map char_of [208, 190, 209, 136, 208, 184, 208, 177, 208, 186, 208, 176,
     32, 208, 188, 208, 190, 208, 180, 208, 181, 208, 187, 208, 184, 32, 208, 191, 208, 190,
     208, 187, 209, 140, 208, 183, 208, 190, 208, 178, 208, 176, 209, 130, 208, 181, 208, 187,
     209, 143, 58, 32 :: nat]"

definition channel_error_label :: string where
  "channel_error_label = map char_of [208, 190, 209, 136, 208, 184, 208, 177, 208, 186, 208,
     176, 32, 208, 186, 208, 176, 208, 189, 208, 176, 208, 187, 208, 176, 32, 208, 191, 208,
     190, 208, 187, 209, 140, 208, 183, 208, 190, 208, 178, 208, 176, 209, 130, 208, 181, 208,
     187, 209, 143, 58, 32 :: nat]"

definition start_error_label :: string where
  "start_error_label = map char_of [208, 190, 209, 136, 208, 184, 208, 177, 208, 186, 208, 176,
     32, 208, 190, 209, 130, 208, 191, 209, 128, 208, 176, 208, 178, 208, 186, 208, 184, 32,
     208, 180, 208, 176, 208, 189, 208, 189, 209, 139, 209, 133, 32, 208, 178, 32, 83, 116, 97,
     114, 116, 67, 104 :: nat]"

datatype chan_error =
  Invalid_user | Invalid_sender u64 | No_resolver | No_model | No_assistant
| Dialog_failed string | User_model_failed string | User_channel_failed string | Start_full

definition chan_error_text :: "chan_error \<Rightarrow> string" where
  "chan_error_text err =
     (case err of
        Invalid_user \<Rightarrow> ''invalid userId: 0''
      | Invalid_sender n \<Rightarrow> ''invalid senderID: '' @ format_uint (unat n)
      | No_resolver \<Rightarrow> ''dialog resolver is nil''
      | No_model \<Rightarrow> ''model provider is nil''
      | No_assistant \<Rightarrow> ''assistant is nil''
      | Dialog_failed t \<Rightarrow> dialog_error_label @ t
      | User_model_failed t \<Rightarrow> model_error_label @ t
      | User_channel_failed t \<Rightarrow> channel_error_label @ t
      | Start_full \<Rightarrow> start_error_label)"

subsection \<open>Setting up a dialog\<close>

text \<open>\<open>model.Ch\<close>: the fields the program reads.\<close>

record model_ch =
  mc_dialog :: u64
  mc_name :: string
  mc_rx_open :: bool

record chan_env =
  ch_has_db :: bool
  ch_has_model :: bool
  ch_has_assistant :: bool
  ch_dialog :: "u32 \<Rightarrow> u64 \<Rightarrow> string \<Rightarrow> string + u64"
  ch_get_first :: "u64 \<Rightarrow> string + model_ch"
  ch_resp_model :: "u64 \<Rightarrow> u64 \<Rightarrow> string \<Rightarrow> bool \<times> string option"
  ch_get_second :: "u64 \<Rightarrow> model_ch option \<times> string option"
  ch_start_room :: bool

datatype chan_effect =
  Cx_clean u64
| Cx_listen u64 "model_ch option"
| Cx_start u64 u64 bool "model_ch option"

definition validate_responder :: "u32 \<Rightarrow> u64 \<Rightarrow> chan_error option" where
  "validate_responder uid sid =
     (if uid = 0 then Some Invalid_user else if sid = 0 then Some (Invalid_sender sid) else None)"

definition dialog_id_for_user :: "chan_env \<Rightarrow> u32 \<Rightarrow> u64 \<Rightarrow> string \<Rightarrow> chan_error + u64" where
  "dialog_id_for_user e uid sid name =
     (if uid = 0 then Inl Invalid_user
      else if sid = 0 then Inl (Invalid_sender sid)
      else if \<not> ch_has_db e then Inl No_resolver
      else case ch_dialog e uid sid name of
             Inl t \<Rightarrow> Inl (Dialog_failed t)
           | Inr d \<Rightarrow> Inr d)"

text \<open>An error is fatal unless its text says that the data are empty.\<close>

definition fatal_text :: "string option \<Rightarrow> string option" where
  "fatal_text err = (case err of None \<Rightarrow> None | Some t \<Rightarrow> if str_contains t empty_data_text then None else Some t)"

definition init_user_channels ::
  "chan_env \<Rightarrow> u32 \<Rightarrow> u64 \<Rightarrow> string \<Rightarrow> chan_error option \<times> chan_effect list" where
  "init_user_channels e uid sid name =
     (if uid = 0 then (Some Invalid_user, [])
      else if sid = 0 then (Some (Invalid_sender sid), [])
      else if \<not> ch_has_db e then (Some No_resolver, [])
      else if \<not> ch_has_model e then (Some No_model, [])
      else if \<not> ch_has_assistant e then (Some No_assistant, [])
      else
        case dialog_id_for_user e uid sid name of
          Inl err \<Rightarrow> (Some err, [])
        | Inr dialog \<Rightarrow>
            let existing = ch_get_first e sid in
            if (case existing of Inr c \<Rightarrow> mc_rx_open c | Inl _ \<Rightarrow> False) then (None, [])
            else
              let clean = (case existing of Inr _ \<Rightarrow> [Cx_clean dialog] | Inl _ \<Rightarrow> []);
                  (usr_mod, merr) = ch_resp_model e dialog sid name
              in case fatal_text merr of
                   Some t \<Rightarrow> (Some (User_model_failed t), clean)
                 | None \<Rightarrow>
                     (case ch_get_second e sid of
                        (usr_ch, cerr) \<Rightarrow>
                          (case fatal_text cerr of
                             Some t \<Rightarrow> (Some (User_channel_failed t), clean)
                           | None \<Rightarrow>
                               let fx = clean @ [Cx_listen sid usr_ch] in
                               if ch_start_room e then (None, fx @ [Cx_start dialog sid usr_mod usr_ch])
                               else (Some Start_full, fx))))"

definition initialize_user_channels ::
  "chan_env \<Rightarrow> u32 \<Rightarrow> u64 \<Rightarrow> string \<Rightarrow> chan_error option \<times> chan_effect list" where
  "initialize_user_channels e uid sid name =
     (case validate_responder uid sid of
        Some err \<Rightarrow> (Some err, [])
      | None \<Rightarrow> init_user_channels e uid sid name)"

subsection \<open>Listening to the answers\<close>

text \<open>
  \<open>startResponseListener\<close> fixes the address and the telephone when it starts; \<open>None\<close>: the address could
  not be made and nothing is started. \<open>parse\<close> is \<open>types.ParseJID\<close>.
\<close>

definition listener_target ::
  "(string \<Rightarrow> string + jid) \<Rightarrow> u64 \<Rightarrow> resp_info option \<Rightarrow> (jid \<times> string) option" where
  "listener_target parse sid info =
     (let addr = (case info of Some i \<Rightarrow> ri_jid i | None \<Rightarrow> empty_jid);
          phone = (case info of Some i \<Rightarrow> ri_phone i | None \<Rightarrow> []);
          phone = (if phone = [] then format_uint (unat sid) else phone)
      in if jid_user addr = []
         then (case parse (phone @ ''@s.whatsapp.net'') of Inl _ \<Rightarrow> None | Inr j \<Rightarrow> Some (j, phone))
         else Some (addr, phone))"

record model_msg =
  mm_type :: string
  mm_operator :: bool
  mm_set_operator :: bool
  mm_text :: string
  mm_files :: "string list"

datatype listen_effect =
  Lx_operator u64
| Lx_send jid model_msg
| Lx_crm string string "string list"
| Lx_closed

text \<open>
  One turn of the loop: \<open>None\<close> from the channel means it was closed, which ends the loop (the flag is
  False). The CRM is told even when the delivery failed.
\<close>

definition listen_step ::
  "u64 \<Rightarrow> jid \<Rightarrow> string \<Rightarrow> model_msg option \<Rightarrow> bool \<times> listen_effect list" where
  "listen_step dialog addr phone got =
     (case got of
        None \<Rightarrow> (False, [Lx_closed])
      | Some msg \<Rightarrow>
          (True,
           (if mm_operator msg \<and> mm_set_operator msg then [Lx_operator dialog] else []) @
           (if mm_type msg = ''assist''
            then [Lx_send addr msg, Lx_crm phone (mm_text msg) (mm_files msg)] else [])))"

fun listen_run :: "u64 \<Rightarrow> jid \<Rightarrow> string \<Rightarrow> model_msg option list \<Rightarrow> listen_effect list" where
  "listen_run dialog addr phone [] = []"
| "listen_run dialog addr phone (got # later) =
     (case listen_step dialog addr phone got of
        (go_on, fx) \<Rightarrow> fx @ (if go_on then listen_run dialog addr phone later else []))"

subsection \<open>The operator mode (SetOperatorMode, IsOperatorMode, countSyncMap)\<close>

type_synonym operator_modes = "(u64 \<times> bool) list"

definition set_operator_mode :: "u64 \<Rightarrow> bool \<Rightarrow> operator_modes \<Rightarrow> operator_modes" where
  "set_operator_mode dialog on ops =
     (if on then AList.update dialog True ops else AList.delete dialog ops)"

definition is_operator_mode :: "u64 \<Rightarrow> operator_modes \<Rightarrow> bool" where
  "is_operator_mode dialog ops \<longleftrightarrow> map_of ops dialog \<noteq> None"

definition count_sync_map :: "('k \<times> 'v) list \<Rightarrow> nat" where
  "count_sync_map m = length m"

subsection \<open>Lemmas\<close>

lemma init_no_start_on_error:
  "init_user_channels e uid sid name = (Some err, fx) \<Longrightarrow> Cx_start d s u c \<notin> set fx"
  by (auto simp: init_user_channels_def Let_def
      split: if_splits sum.splits prod.splits option.splits)

lemma operator_mode_simps [simp]:
  "is_operator_mode d (set_operator_mode d on ops) = on"
  "d' \<noteq> d \<Longrightarrow> is_operator_mode d' (set_operator_mode d on ops) = is_operator_mode d' ops"
  by (auto simp: is_operator_mode_def set_operator_mode_def update_conv' delete_conv')

text \<open>Whether the dialog's channel is there and open, and what is done to a channel that is there but closed.\<close>

definition open_channel :: "chan_env \<Rightarrow> u64 \<Rightarrow> bool" where
  "open_channel e sid = (case ch_get_first e sid of Inr c \<Rightarrow> mc_rx_open c | Inl _ \<Rightarrow> False)"

definition discarded :: "chan_env \<Rightarrow> u64 \<Rightarrow> u64 \<Rightarrow> chan_effect list" where
  "discarded e sid dialog = (case ch_get_first e sid of Inr _ \<Rightarrow> [Cx_clean dialog] | Inl _ \<Rightarrow> [])"

text \<open>The parts without which nothing is done.\<close>

definition parts_present :: "chan_env \<Rightarrow> u32 \<Rightarrow> u64 \<Rightarrow> bool" where
  "parts_present e uid sid \<longleftrightarrow> uid \<noteq> 0 \<and> sid \<noteq> 0 \<and> ch_has_db e \<and> ch_has_model e \<and> ch_has_assistant e"

lemma fatal_text_None: "fatal_text t = None \<longleftrightarrow> (\<forall>x. t = Some x \<longrightarrow> str_contains x empty_data_text)"
  by (cases t) (simp_all add: fatal_text_def)

lemma fatal_text_Some: "fatal_text t = Some x \<longleftrightarrow> t = Some x \<and> \<not> str_contains x empty_data_text"
  by (cases t) (auto simp: fatal_text_def)

lemma initialize_parts:
  "initialize_user_channels e uid sid name =
    (if uid = 0 then (Some Invalid_user, []) else if sid = 0 then (Some (Invalid_sender 0), [])
     else if \<not> ch_has_db e then (Some No_resolver, []) else if \<not> ch_has_model e then (Some No_model, [])
     else if \<not> ch_has_assistant e then (Some No_assistant, [])
     else case ch_dialog e uid sid name of
       Inl t \<Rightarrow> (Some (Dialog_failed t), [])
     | Inr dialog \<Rightarrow>
         if open_channel e sid then (None, [])
         else case fatal_text (snd (ch_resp_model e dialog sid name)) of
           Some t \<Rightarrow> (Some (User_model_failed t), discarded e sid dialog)
         | None \<Rightarrow>
             (case fatal_text (snd (ch_get_second e sid)) of
                Some t \<Rightarrow> (Some (User_channel_failed t), discarded e sid dialog)
              | None \<Rightarrow>
                  if ch_start_room e then (None, discarded e sid dialog @ [Cx_listen sid (fst (ch_get_second e sid)),
                    Cx_start dialog sid (fst (ch_resp_model e dialog sid name)) (fst (ch_get_second e sid))])
                  else (Some Start_full, discarded e sid dialog @ [Cx_listen sid (fst (ch_get_second e sid))])))"
  by (cases "ch_get_first e sid")
    (simp_all add: initialize_user_channels_def init_user_channels_def validate_responder_def dialog_id_for_user_def
      open_channel_def discarded_def case_prod_unfold Let_def split: sum.split option.split)

text \<open>C23: \<open>initializeUserChannels\<close> either finds an open channel and does nothing; or starts the listener and
  then exactly one session of the core for this dialog, after discarding the old dialog's data if there
  was a closed channel, when the model and the channel can be had, or are empty, and the queue has room; or fails. An argument, a
  part or the dialog that is missing is an error before anything is done; a model or a channel that cannot be had is
  an error when the old data may be gone but nothing is started; and a full queue is an error after the listener was
  started, the only thing that is then running.\<close>

theorem initialize_user_channels_correct:
  "case initialize_user_channels e uid sid name of
     (None, fx) \<Rightarrow>
       parts_present e uid sid \<and>
       (\<exists>dialog. ch_dialog e uid sid name = Inr dialog \<and>
         (if open_channel e sid then fx = []
          else fatal_text (snd (ch_resp_model e dialog sid name)) = None \<and> fatal_text (snd (ch_get_second e sid)) = None
            \<and> ch_start_room e
            \<and> fx = discarded e sid dialog @ [Cx_listen sid (fst (ch_get_second e sid)),
                Cx_start dialog sid (fst (ch_resp_model e dialog sid name)) (fst (ch_get_second e sid))]))
   | (Some err, fx) \<Rightarrow>
       (case err of
          Invalid_user \<Rightarrow> uid = 0 \<and> fx = []
        | Invalid_sender n \<Rightarrow> uid \<noteq> 0 \<and> sid = 0 \<and> n = 0 \<and> fx = []
        | No_resolver \<Rightarrow> uid \<noteq> 0 \<and> sid \<noteq> 0 \<and> \<not> ch_has_db e \<and> fx = []
        | No_model \<Rightarrow> uid \<noteq> 0 \<and> sid \<noteq> 0 \<and> ch_has_db e \<and> \<not> ch_has_model e \<and> fx = []
        | No_assistant \<Rightarrow> uid \<noteq> 0 \<and> sid \<noteq> 0 \<and> ch_has_db e \<and> ch_has_model e \<and> \<not> ch_has_assistant e \<and> fx = []
        | Dialog_failed t \<Rightarrow> parts_present e uid sid \<and> ch_dialog e uid sid name = Inl t \<and> fx = []
        | User_model_failed t \<Rightarrow> parts_present e uid sid \<and> \<not> open_channel e sid \<and>
            (\<exists>dialog. ch_dialog e uid sid name = Inr dialog \<and> snd (ch_resp_model e dialog sid name) = Some t
               \<and> \<not> str_contains t empty_data_text \<and> fx = discarded e sid dialog)
        | User_channel_failed t \<Rightarrow> parts_present e uid sid \<and> \<not> open_channel e sid \<and>
            (\<exists>dialog. ch_dialog e uid sid name = Inr dialog \<and> fatal_text (snd (ch_resp_model e dialog sid name)) = None
               \<and> snd (ch_get_second e sid) = Some t \<and> \<not> str_contains t empty_data_text \<and> fx = discarded e sid dialog)
        | Start_full \<Rightarrow> parts_present e uid sid \<and> \<not> open_channel e sid \<and> \<not> ch_start_room e \<and>
            (\<exists>dialog. ch_dialog e uid sid name = Inr dialog \<and> fatal_text (snd (ch_resp_model e dialog sid name)) = None
               \<and> fatal_text (snd (ch_get_second e sid)) = None
               \<and> fx = discarded e sid dialog @ [Cx_listen sid (fst (ch_get_second e sid))]))"
proof (cases "parts_present e uid sid")
  case False
  then show ?thesis by (auto simp: initialize_parts parts_present_def)
next
  case True
  then show ?thesis
    by (cases "ch_dialog e uid sid name"; cases "open_channel e sid")
      (auto simp: initialize_parts parts_present_def split: option.split dest: fatal_text_Some [THEN iffD1])
qed

end
