(* ===== verification/Bot_Messages.thy ===== *)
theory Bot_Messages
  imports Messages Responders Channels
begin

section \<open>Messages of a bot (bot_event.go, bot_message.go, bot_responder.go)\<close>

text \<open>
  The path of a message: \<open>handleEvent\<close> sorts the events of the client, \<open>handleMessage\<close> filters a message,
  finds or makes its respondent, sets up the dialog of a new one, and \<open>processMessage\<close> tells the CRM and
  puts the message into the channel of the model. The goroutine of the first contact
  (\<open>sendFirstContactMessage\<close>) runs beside it: starting it adds it to \<open>ms_spawned\<close>, and it runs as an
  operation of its own, \<open>run_first_contact\<close>.

  \<open>msg_env\<close> holds the answers of the libraries during one message; \<open>me_init\<close> is indexed by the three
  places that may set up channels. \<open>ms_fx\<close> lists in order what is done to the outside.
\<close>

subsection \<open>State\<close>

datatype msg_effect =
  Mx_read string jid
| Mx_typing u64
| Mx_crm string string string bool bool "string list"
| Mx_rx u64 string bool "file_upload list"
| Mx_notify_start string
| Mx_mark string
| Mx_chan chan_effect
| Mx_reauth string
| Mx_metric string string

record msg_state =
  ms_user :: u32
  ms_text_on :: bool
  ms_uids :: "int list"
  ms_connected_at :: int
  ms_synced :: bool
  ms_notify_start :: bool
  ms_resp :: resp_store
  ms_ops :: operator_modes
  ms_spawned :: "(u64 \<times> string) list"
  ms_fx :: "msg_effect list"

record msg_env =
  me_now :: int
  me_dus :: string
  me_jid_text :: "jid \<Rightarrow> string"
  me_parse_jid :: "string \<Rightarrow> string + jid"
  me_audio_mode :: bool
  me_download :: "media \<Rightarrow> string + byte list"
  me_voice_download :: "string + byte list"
  me_transcribe :: "byte list \<Rightarrow> string + string"
  me_init :: "nat \<Rightarrow> chan_env"
  me_get_ch :: "nat \<Rightarrow> string + model_ch"
  me_send_rx :: "nat \<Rightarrow> string option"
  me_redis :: "(string \<Rightarrow> string + int) option"
  me_logged_in :: bool

datatype msg_error =
  Bad_sender_id num_error
| Init_failed chan_error
| Voice_disabled
| Rechannel_failed chan_error
| No_channel string
| No_respondent
| Rx_rechannel_failed chan_error
| Rx_no_channel string
| Not_delivered string

definition mfx :: "msg_effect list \<Rightarrow> msg_state \<Rightarrow> msg_state" where
  "mfx es st = st\<lparr>ms_fx := ms_fx st @ es\<rparr>"

text \<open>\<open>initializeUserChannels\<close> of the bot.\<close>

definition init_channels :: "chan_env \<Rightarrow> u64 \<Rightarrow> string \<Rightarrow> msg_state \<Rightarrow> chan_error option \<times> msg_state" where
  "init_channels ce sid name st =
     (case initialize_user_channels ce (ms_user st) sid name of
        (r, fx) \<Rightarrow> (r, mfx (map Mx_chan fx) st))"

subsection \<open>Delivering a message (processMessage, processVoiceMessage)\<close>

definition obtain_channel :: "msg_env \<Rightarrow> u64 \<Rightarrow> string \<Rightarrow> msg_state \<Rightarrow> (msg_error + model_ch) \<times> msg_state" where
  "obtain_channel e sid name st =
     (case me_get_ch e 0 of
        Inr ch \<Rightarrow> (Inr ch, st)
      | Inl _ \<Rightarrow>
          (case init_channels (me_init e 1) sid name st of
             (Some err, st) \<Rightarrow> (Inl (Rechannel_failed err), st)
           | (None, st) \<Rightarrow>
               (case me_get_ch e 1 of
                  Inl t \<Rightarrow> (Inl (No_channel t), st)
                | Inr ch \<Rightarrow> (Inr ch, st))))"

definition send_to_rx ::
  "msg_env \<Rightarrow> u64 \<Rightarrow> string \<Rightarrow> model_ch \<Rightarrow> string \<Rightarrow> file_upload list \<Rightarrow> msg_state \<Rightarrow> msg_error option \<times> msg_state" where
  "send_to_rx e sid name ch body files st =
     (let op = is_operator_mode (mc_dialog ch) (ms_ops st) in
      case me_send_rx e 0 of
        None \<Rightarrow> (None, mfx [Mx_rx (mc_dialog ch) body op files] st)
      | Some _ \<Rightarrow>
          (case init_channels (me_init e 2) sid name st of
             (Some err, st) \<Rightarrow> (Some (Rx_rechannel_failed err), st)
           | (None, st) \<Rightarrow>
               (case me_get_ch e 2 of
                  Inl t \<Rightarrow> (Some (Rx_no_channel t), st)
                | Inr ch2 \<Rightarrow>
                    (case me_send_rx e 1 of
                       Some t \<Rightarrow> (Some (Not_delivered t), st)
                     | None \<Rightarrow> (None, mfx [Mx_rx (mc_dialog ch2) body op files] st)))))"

definition process_message ::
  "msg_env \<Rightarrow> string \<Rightarrow> bool \<Rightarrow> bool \<Rightarrow> wa_event \<Rightarrow> msg_state \<Rightarrow> msg_error option \<times> msg_state" where
  "process_message e body voice first ev st =
     (case sender_id (Some ev) of
        Inl err \<Rightarrow> (Some (Bad_sender_id (the err)), st)
      | Inr sid \<Rightarrow>
          let st = mfx [Mx_read (we_id ev) (we_sender ev)] st;
              name = we_push_name ev
          in case obtain_channel e sid name st of
               (Inl err, st) \<Rightarrow> (Some err, st)
             | (Inr ch, st) \<Rightarrow>
                 let st = (if is_operator_mode (mc_dialog ch) (ms_ops st) then st else mfx [Mx_typing sid] st);
                     files = extract_files (Some ev) (Some (me_download e))
                 in case rs_get sid (ms_resp st) of
                      None \<Rightarrow> (Some No_respondent, st)
                    | Some info \<Rightarrow>
                        send_to_rx e sid name ch body files
                          (mfx [Mx_crm name (ri_phone info) body voice first (map fu_name files)] st))"

definition process_voice_message ::
  "msg_env \<Rightarrow> bool \<Rightarrow> wa_event \<Rightarrow> msg_state \<Rightarrow> msg_error option \<times> msg_state" where
  "process_voice_message e first ev st =
     (case Option.bind (we_body ev) wm_audio of
        None \<Rightarrow> (None, st)
      | Some _ \<Rightarrow>
          (case me_voice_download e of
             Inl _ \<Rightarrow> (None, st)
           | Inr bs \<Rightarrow>
               (case me_transcribe e bs of
                  Inl _ \<Rightarrow> (None, st)
                | Inr body \<Rightarrow> process_message e body True first ev st)))"

subsection \<open>The first contact (sendFirstContactMessage)\<close>

definition send_first_contact :: "msg_env \<Rightarrow> u64 \<Rightarrow> string \<Rightarrow> msg_state \<Rightarrow> msg_state" where
  "send_first_contact e sid name st =
     (let key = known_responder_key (ms_user st) sid;
          mark = (case me_redis e of None \<Rightarrow> [] | Some _ \<Rightarrow> [Mx_mark key])
      in if (case rs_get sid (ms_resp st) of Some i \<Rightarrow> ri_known i | None \<Rightarrow> False) then mfx mark st
         else
           let known = fst (store_known (me_redis e) (ms_user st) sid);
               st = (if \<not> known \<and> ms_notify_start st then mfx [Mx_notify_start name] st else st);
               st = mfx mark st
           in case rs_load sid (ms_resp st) of
                None \<Rightarrow> st\<lparr>ms_resp := store_known_only sid (ms_resp st)\<rparr>
              | Some p \<Rightarrow>
                  st\<lparr>ms_resp := rs_store sid p (rs_upd p (\<lambda>i. i\<lparr>ri_known := True\<rparr>) (ms_resp st))\<rparr>)"

definition run_first_contact :: "msg_env \<Rightarrow> msg_state \<Rightarrow> msg_state" where
  "run_first_contact e st =
     (case ms_spawned st of
        [] \<Rightarrow> st
      | (sid, name) # rest \<Rightarrow> send_first_contact e sid name (st\<lparr>ms_spawned := rest\<rparr>))"

subsection \<open>Handling a message\<close>

text \<open>The telephone: from the alternative address, else from the address itself, else the number.\<close>

definition real_phone :: "msg_env \<Rightarrow> wa_event \<Rightarrow> u64 \<Rightarrow> string" where
  "real_phone e ev sid =
     (let p1 = (if jid_user (we_sender_alt ev) \<noteq> []
                then extract_real_phone (me_parse_jid e) (me_dus e) (me_jid_text e (we_sender_alt ev)) [] else []);
          p2 = (if p1 = [] then extract_real_phone (me_parse_jid e) (me_dus e) (me_jid_text e (we_sender ev))
                                  (format_uint (unat sid)) else p1)
      in if p2 = [] then format_uint (unat sid) else p2)"

definition allowed_uid :: "int list \<Rightarrow> u64 \<Rightarrow> bool" where
  "allowed_uid uids sid \<longleftrightarrow> uids = [] \<or> sint sid \<in> set uids"

text \<open>Finding or making the respondent; the result is the cell and whether it was there before.\<close>

definition respondent :: "msg_env \<Rightarrow> wa_event \<Rightarrow> u64 \<Rightarrow> msg_state \<Rightarrow> (nat \<times> bool) \<times> msg_state" where
  "respondent e ev sid st =
     (let addr = new_jid (jid_user (we_sender ev)) (jid_server (we_sender ev));
          phone = real_phone e ev sid;
          (fresh, rs) = rs_alloc \<lparr>ri_jid = addr, ri_phone = phone, ri_known = False\<rparr> (ms_resp st);
          ((p, loaded), rs) = rs_load_or_store sid fresh rs;
          rs = snd (restore_responder_fields (Some p) addr phone sid rs)
      in ((p, loaded), st\<lparr>ms_resp := rs\<rparr>))"

text \<open>The first interaction of a respondent: the error, or the flag \<open>first\<close>.\<close>

definition first_interaction ::
  "msg_env \<Rightarrow> u64 \<Rightarrow> string \<Rightarrow> nat \<Rightarrow> msg_state \<Rightarrow> (msg_error + bool) \<times> msg_state" where
  "first_interaction e sid name p st =
     (if ri_known (rs_cells (ms_resp st) ! p) then (Inr False, st)
      else
        let st = st\<lparr>ms_spawned := ms_spawned st @ [(sid, name)]\<rparr> in
        case init_channels (me_init e 0) sid name st of
          (r, st) \<Rightarrow>
            if (case r of Some err \<Rightarrow> \<not> str_contains (chan_error_text err) empty_data_text | None \<Rightarrow> False)
            then (Inl (Init_failed (the r)), st)
            else (Inr True,
                  st\<lparr>ms_resp := rs_store sid p (rs_upd p (\<lambda>i. i\<lparr>ri_known := True\<rparr>) (ms_resp st))\<rparr>))"

datatype msg_result = Msg_waits | Msg_done "msg_error option"

definition handle_message :: "msg_env \<Rightarrow> wa_event \<Rightarrow> msg_state \<Rightarrow> msg_result \<times> msg_state" where
  "handle_message e ev st =
     (if \<not> ms_synced st then (Msg_waits, st)
      else
        case should_ignore (me_jid_text e) (me_now e) (ms_connected_at st) (Some ev) of
          Some rule \<Rightarrow>
            (Msg_done None, if rule = ''nil_message'' then st else mfx [Mx_metric ''messages_ignored'' rule] st)
        | None \<Rightarrow>
            (case parse_uint 64 (jid_user (we_sender ev)) of
               Inl err \<Rightarrow> (Msg_done (Some (Bad_sender_id err)), st)
             | Inr n \<Rightarrow>
                 let sid = of_nat n; content = message_text (Some ev) in
                 if \<not> allowed_uid (ms_uids st) sid then
                   (Msg_done None, mfx [Mx_metric ''messages_ignored'' ''not_allowed_user''] st)
                 else if content = unsupported_label then (Msg_done None, st)
                 else
                   (case respondent e ev sid st of
                      ((p, _), st) \<Rightarrow>
                        (case first_interaction e sid (we_push_name ev) p st of
                           (Inl err, st) \<Rightarrow> (Msg_done (Some err), st)
                         | (Inr first, st) \<Rightarrow>
                             if content = voice_label then
                               if me_audio_mode e
                               then map_prod Msg_done (\<lambda>s. s) (process_voice_message e first ev st)
                               else (Msg_done (Some Voice_disabled), st)
                             else map_prod Msg_done (\<lambda>s. s) (process_message e content False first ev st)))))"

subsection \<open>Events of the client (bot_event.go)\<close>

text \<open>"[Error: mismatching MAC]".\<close>

definition mac_error_text :: string where
  "mac_error_text = map char_of [91, 208, 158, 209, 136, 208, 184, 208, 177, 208, 186, 208,
     176, 58, 32, 109, 105, 115, 109, 97, 116, 99, 104, 105, 110, 103, 32, 77, 65, 67,
     93 :: nat]"

definition is_decryption_error :: "wa_event \<Rightarrow> bool" where
  "is_decryption_error ev \<longleftrightarrow>
     we_body ev = None \<or> we_category ev = ''error'' \<or> we_category ev = ''decrypt''"

definition has_text :: "wa_event \<Rightarrow> bool" where
  "has_text ev = (case we_body ev of
     None \<Rightarrow> False | Some m \<Rightarrow> wm_conversation m \<noteq> [] \<or> wm_ext m \<noteq> None)"

text \<open>
  \<open>Connected\<close> also ends the wait for the offline messages: the second handler of the client does it (\<open>initializeBot\<close>).
\<close>

datatype client_event =
  Ev_message wa_event | Ev_connected | Ev_disconnected | Ev_logged_out | Ev_offline_done | Ev_other

definition handle_event :: "msg_env \<Rightarrow> client_event \<Rightarrow> msg_state \<Rightarrow> msg_result \<times> msg_state" where
  "handle_event e evt st =
     (case evt of
        Ev_message ev \<Rightarrow>
          let st = mfx [Mx_metric ''messages_received'' (message_type (Some ev))] st in
          if \<not> ms_text_on st \<and> has_text ev then
            (Msg_done None, mfx [Mx_metric ''messages_ignored'' ''text_disabled''] st)
          else if is_decryption_error ev then
            (Msg_done None, mfx [Mx_metric ''decrypt_errors'' ''decrypt_error''] st)
          else if message_text (Some ev) = mac_error_text then
            (Msg_done None, mfx [Mx_metric ''decrypt_errors'' ''mismatching_mac'', Mx_reauth ''mismatching_mac''] st)
          else
            (case handle_message e ev st of
               (Msg_waits, st) \<Rightarrow> (Msg_waits, st)
             | (Msg_done None, st) \<Rightarrow> (Msg_done None, mfx [Mx_metric ''messages_processed'' ''success''] st)
             | (Msg_done (Some err), st) \<Rightarrow>
                 (Msg_done (Some err), mfx [Mx_metric ''messages_processed'' ''error''] st))
      | Ev_connected \<Rightarrow>
          (Msg_done None, mfx [Mx_metric ''reconnects'' ''success''] (st\<lparr>ms_connected_at := me_now e, ms_synced := True\<rparr>))
      | Ev_disconnected \<Rightarrow>
          (Msg_done None,
           let st = mfx [Mx_metric ''reconnects'' ''disconnected''] st
           in if me_logged_in e then st else mfx [Mx_reauth ''disconnected_not_logged_in''] st)
      | Ev_logged_out \<Rightarrow>
          (Msg_done None, mfx [Mx_metric ''reconnects'' ''logged_out'', Mx_reauth ''logged_out''] st)
      | Ev_offline_done \<Rightarrow> (Msg_done None, st\<lparr>ms_synced := True\<rparr>)
      | Ev_other \<Rightarrow> (Msg_done None, st))"

subsection \<open>Lemmas\<close>

lemma mfx_simps [simp]:
  "ms_fx (mfx es st) = ms_fx st @ es" "ms_resp (mfx es st) = ms_resp st" "ms_ops (mfx es st) = ms_ops st"
  "ms_user (mfx es st) = ms_user st" "ms_text_on (mfx es st) = ms_text_on st" "ms_uids (mfx es st) = ms_uids st"
  "ms_synced (mfx es st) = ms_synced st" "ms_connected_at (mfx es st) = ms_connected_at st"
  "ms_spawned (mfx es st) = ms_spawned st" "ms_notify_start (mfx es st) = ms_notify_start st"
  "mfx [] st = st" "mfx es2 (mfx es st) = mfx (es @ es2) st"
  by (simp_all add: mfx_def)

text \<open>What a message may cause: \<open>grows P st st'\<close> says that the effects grew by effects that satisfy \<open>P\<close>.\<close>

definition grows :: "(msg_effect \<Rightarrow> bool) \<Rightarrow> msg_state \<Rightarrow> msg_state \<Rightarrow> bool" where
  "grows P st st' \<longleftrightarrow> (\<exists>es. ms_fx st' = ms_fx st @ es \<and> list_all P es)"

lemma grows_refl [intro]: "grows P st st"
  unfolding grows_def by (rule exI [of _ "[]"]) simp

lemma grows_trans: "grows P a b \<Longrightarrow> grows P b c \<Longrightarrow> grows P a c"
  unfolding grows_def by (metis append.assoc list_all_append)

lemma grows_mfx [simp]: "list_all P es \<Longrightarrow> grows P st (mfx es st)"
  by (auto simp: grows_def)

lemma grows_mfx_right: "grows P st st' \<Longrightarrow> list_all P es \<Longrightarrow> grows P st (mfx es st')"
  by (rule grows_trans [OF _ grows_mfx])

lemma init_channels_fx:
  "init_channels ce sid name st = (r, st') \<Longrightarrow> \<exists>fx. st' = mfx (map Mx_chan fx) st"
  by (auto simp: init_channels_def split: prod.splits)

definition crm_first :: "bool \<Rightarrow> msg_effect \<Rightarrow> bool" where
  "crm_first b x = (case x of Mx_crm _ _ _ _ f _ \<Rightarrow> f = b | Mx_reauth _ \<Rightarrow> False | _ \<Rightarrow> True)"

lemma crm_first_simps [simp]:
  "crm_first b (Mx_crm n p t v f fs) = (f = b)" "crm_first b (Mx_read i j)" "crm_first b (Mx_typing sid)"
  "crm_first b (Mx_rx d t op us)" "crm_first b (Mx_chan c)" "crm_first b (Mx_metric m l)"
  by (simp_all add: crm_first_def)

lemma init_channels_grows: "init_channels ce sid name st = (r, st') \<Longrightarrow> grows (crm_first b) st st'"
  using init_channels_fx [of ce sid name st r st'] by (auto intro!: grows_mfx simp: list_all_iff)

lemma obtain_channel_grows: "obtain_channel e sid name st = (r, st') \<Longrightarrow> grows (crm_first b) st st'"
  by (auto simp: obtain_channel_def split: sum.splits prod.splits option.splits
      intro: init_channels_grows)

lemma send_to_rx_grows: "send_to_rx e sid name ch body files st = (r, st') \<Longrightarrow> grows (crm_first b) st st'"
  by (auto simp: send_to_rx_def Let_def split: sum.splits prod.splits option.splits
      intro: init_channels_grows grows_mfx_right)

lemma process_message_grows:
  assumes "process_message e body voice first ev st = (r, st')"
  shows "grows (crm_first first) st st'"
proof (cases "sender_id (Some ev)")
  case (Inl err)
  then show ?thesis using assms by (auto simp: process_message_def)
next
  case (Inr sid)
  let ?st = "mfx [Mx_read (we_id ev) (we_sender ev)] st"
  obtain q st1 where q: "obtain_channel e sid (we_push_name ev) ?st = (q, st1)" by fastforce
  have 1: "grows (crm_first first) st st1"
    by (rule grows_trans [OF _ obtain_channel_grows [OF q]]) simp
  show ?thesis
  proof (cases q)
    case (Inl err)
    then show ?thesis using assms Inr q 1 by (simp add: process_message_def Let_def)
  next
    case ch: (Inr ch)
    define st2 where "st2 = (if is_operator_mode (mc_dialog ch) (ms_ops st1) then st1 else mfx [Mx_typing sid] st1)"
    have 2: "grows (crm_first first) st st2" using 1 by (simp add: st2_def grows_mfx_right)
    show ?thesis
    proof (cases "rs_get sid (ms_resp st2)")
      case None
      then show ?thesis using assms Inr q ch 2 by (simp add: process_message_def Let_def flip: st2_def)
    next
      case (Some info)
      let ?crm = "Mx_crm (we_push_name ev) (ri_phone info) body voice first
        (map fu_name (extract_files (Some ev) (Some (me_download e))))"
      have "send_to_rx e sid (we_push_name ev) ch body (extract_files (Some ev) (Some (me_download e)))
          (mfx [?crm] st2) = (r, st')"
        using assms Inr q ch Some by (simp add: process_message_def Let_def flip: st2_def)
      then show ?thesis
        using grows_trans [OF grows_mfx_right [OF 2, of "[?crm]"] send_to_rx_grows] by simp
    qed
  qed
qed

lemma process_voice_grows:
  "process_voice_message e first ev st = (r, st') \<Longrightarrow> grows (crm_first first) st st'"
  by (auto simp: process_voice_message_def split: option.splits sum.splits intro: process_message_grows)

lemma first_interaction_grows:
  "first_interaction e sid name p st = (r, st') \<Longrightarrow> grows (crm_first b) st st'"
  using init_channels_fx [of "me_init e 0" sid name "st\<lparr>ms_spawned := ms_spawned st @ [(sid, name)]\<rparr>"]
  by (fastforce simp: first_interaction_def Let_def grows_def list_all_iff split: if_splits prod.splits option.splits)

lemma respondent_fx: "respondent e ev sid st = (pl, st') \<Longrightarrow> ms_fx st' = ms_fx st"
  by (auto simp: respondent_def Let_def split: prod.splits)

lemma grows_eq: "ms_fx a = ms_fx a' \<Longrightarrow> grows P a b \<longleftrightarrow> grows P a' b"
  by (simp add: grows_def)

text \<open>Handling a message tells the CRM one value of the flag \<open>first\<close>, and never asks for an authorisation.\<close>

lemma handle_message_grows: "\<exists>b. grows (crm_first b) st (snd (handle_message e ev st))"
proof (cases "ms_synced st \<and> should_ignore (me_jid_text e) (me_now e) (ms_connected_at st) (Some ev) = None")
  case False
  then show ?thesis by (auto simp: handle_message_def split: option.split)
next
  case go: True
  show ?thesis
  proof (cases "parse_uint 64 (jid_user (we_sender ev))")
    case (Inl err)
    then show ?thesis using go by (auto simp: handle_message_def)
  next
    case (Inr n)
    obtain p l st1 where r: "respondent e ev (of_nat n) st = ((p, l), st1)" by (metis prod.collapse)
    obtain f st2 where f: "first_interaction e (of_nat n) (we_push_name ev) p st1 = (f, st2)" by fastforce
    have g: "grows (crm_first b) st st2" for b
      using first_interaction_grows [OF f] respondent_fx [OF r] grows_eq by metis
    have v: "grows (crm_first b) st (snd (process_voice_message e b ev st2))" for b
      by (rule grows_trans [OF g process_voice_grows]) (rule prod.collapse [symmetric])
    have t: "grows (crm_first b) st (snd (process_message e body False b ev st2))" for b body
      by (rule grows_trans [OF g process_message_grows]) (rule prod.collapse [symmetric])
    show ?thesis
    proof (cases f)
      case (Inl err)
      then show ?thesis using go Inr r f g by (auto simp: handle_message_def Let_def)
    next
      case first: (Inr b)
      then show ?thesis
        by (intro exI [of _ b]) (use go Inr r f g v t first in \<open>simp add: handle_message_def Let_def grows_refl\<close>)
    qed
  qed
qed

subsection \<open>Which messages get through\<close>

definition accepted :: "msg_env \<Rightarrow> wa_event \<Rightarrow> msg_state \<Rightarrow> bool" where
  "accepted e ev st \<longleftrightarrow>
     (ms_text_on st \<or> \<not> has_text ev) \<and> \<not> is_decryption_error ev
     \<and> message_text (Some ev) \<noteq> mac_error_text \<and> message_text (Some ev) \<noteq> unsupported_label
     \<and> ms_synced st \<and> should_ignore (me_jid_text e) (me_now e) (ms_connected_at st) (Some ev) = None
     \<and> (\<exists>n. parse_uint 64 (jid_user (we_sender ev)) = Inr n \<and> allowed_uid (ms_uids st) (of_nat n))"

definition only_metrics :: "msg_effect \<Rightarrow> bool" where
  "only_metrics x = (case x of Mx_metric _ _ \<Rightarrow> True | _ \<Rightarrow> False)"

lemma handle_message_refused:
  assumes "message_text (Some ev) = unsupported_label \<or> \<not> ms_synced st
      \<or> should_ignore (me_jid_text e) (me_now e) (ms_connected_at st) (Some ev) \<noteq> None
      \<or> (\<forall>n. parse_uint 64 (jid_user (we_sender ev)) = Inr n \<longrightarrow> \<not> allowed_uid (ms_uids st) (of_nat n))"
  shows "\<exists>es. snd (handle_message e ev st) = mfx es st \<and> list_all only_metrics es"
proof -
  define quiet where "quiet st' \<longleftrightarrow> (\<exists>es. st' = mfx es st \<and> list_all only_metrics es)" for st'
  have q: "quiet st" "\<And>m l. quiet (mfx [Mx_metric m l] st)"
    unfolding quiet_def by (rule exI [of _ "[]"], simp, rule exI, rule conjI, rule refl, simp add: only_metrics_def)
  have "quiet (snd (handle_message e ev st))"
  proof (cases "ms_synced st")
    case False
    then show ?thesis by (simp add: handle_message_def q)
  next
    case sync: True
    show ?thesis
    proof (cases "should_ignore (me_jid_text e) (me_now e) (ms_connected_at st) (Some ev)")
      case (Some rule)
      then show ?thesis using sync by (simp add: handle_message_def q)
    next
      case keep: None
      show ?thesis
      proof (cases "parse_uint 64 (jid_user (we_sender ev))")
        case (Inl err)
        then show ?thesis using sync keep by (simp add: handle_message_def q)
      next
        case (Inr n)
        then have "\<not> allowed_uid (ms_uids st) (of_nat n) \<or> message_text (Some ev) = unsupported_label"
          using assms sync keep by auto
        then show ?thesis using sync keep Inr by (auto simp: handle_message_def Let_def q)
      qed
    qed
  qed
  then show ?thesis unfolding quiet_def .
qed

text \<open>C7: a message has an effect only if it passes every gate: the bot takes text, the message could be
  decrypted, the offline queue is done, the filter keeps it, its sender is a number on the list of
  allowed users (an empty list allows all), and its kind is supported. Otherwise no respondent, channel
  or dialog is touched and nothing is sent; only metrics are counted, and the one text that reads like a
  MAC error starts a new authorisation.\<close>

theorem refused_message_no_effect:
  assumes "\<not> accepted e ev st"
  shows "\<exists>es. snd (handle_event e (Ev_message ev) st) = mfx es st
    \<and> list_all (\<lambda>x. only_metrics x \<or> (x = Mx_reauth ''mismatching_mac'' \<and> message_text (Some ev) = mac_error_text)) es"
proof -
  let ?ok = "\<lambda>x. only_metrics x \<or> (x = Mx_reauth ''mismatching_mac'' \<and> message_text (Some ev) = mac_error_text)"
  let ?st = "mfx [Mx_metric ''messages_received'' (message_type (Some ev))] st"
  have m [simp]: "only_metrics (Mx_metric a b)" for a b by (simp add: only_metrics_def)
  consider "\<not> ms_text_on st \<and> has_text ev" | "\<not> (\<not> ms_text_on st \<and> has_text ev)" "is_decryption_error ev"
    | "\<not> (\<not> ms_text_on st \<and> has_text ev)" "\<not> is_decryption_error ev" "message_text (Some ev) = mac_error_text"
    | "\<not> (\<not> ms_text_on st \<and> has_text ev)" "\<not> is_decryption_error ev" "message_text (Some ev) \<noteq> mac_error_text"
    by blast
  then show ?thesis
  proof cases
    case 4
    obtain es where es: "snd (handle_message e ev ?st) = mfx es ?st" "list_all only_metrics es"
      using handle_message_refused [of ev ?st e] assms 4 by (auto simp: accepted_def)
    have es': "list_all ?ok (Mx_metric a b # es @ es2)" if "list_all ?ok es2" for a b es2
      using es(2) that by (auto simp: list_all_iff)
    obtain r st' where r: "handle_message e ev ?st = (r, st')" by fastforce
    have "snd (handle_event e (Ev_message ev) st) = (case r of
        Msg_waits \<Rightarrow> st' | Msg_done None \<Rightarrow> mfx [Mx_metric ''messages_processed'' ''success''] st'
      | Msg_done (Some _) \<Rightarrow> mfx [Mx_metric ''messages_processed'' ''error''] st')"
      using 4 r by (auto simp: handle_event_def Let_def split: msg_result.split option.split)
    moreover have "st' = mfx (Mx_metric ''messages_received'' (message_type (Some ev)) # es) st"
      using es(1) r by simp
    ultimately have "\<exists>es2. snd (handle_event e (Ev_message ev) st) =
        mfx (Mx_metric ''messages_received'' (message_type (Some ev)) # es @ es2) st \<and> list_all ?ok es2"
      by (cases r) (auto split: option.split intro: exI [of _ "[]"])
    then show ?thesis using es' by blast
  qed (auto simp: handle_event_def Let_def)
qed

text \<open>The channel that \<open>processMessage\<close> comes to, at once or after setting the channels up again, and the dialog that
  the message goes to from there, at the first attempt or after one more set-up.\<close>

definition channel_found :: "msg_env \<Rightarrow> u32 \<Rightarrow> u64 \<Rightarrow> string \<Rightarrow> model_ch \<Rightarrow> bool" where
  "channel_found e u sid name ch \<longleftrightarrow>
     me_get_ch e 0 = Inr ch \<or>
     (isl (me_get_ch e 0) \<and> fst (initialize_user_channels (me_init e 1) u sid name) = None \<and> me_get_ch e 1 = Inr ch)"

definition goes_to :: "msg_env \<Rightarrow> u32 \<Rightarrow> u64 \<Rightarrow> string \<Rightarrow> model_ch \<Rightarrow> u64 \<Rightarrow> bool" where
  "goes_to e u sid name ch d \<longleftrightarrow>
     (if me_send_rx e 0 = None then d = mc_dialog ch
      else fst (initialize_user_channels (me_init e 2) u sid name) = None \<and> me_send_rx e 1 = None \<and>
        (case me_get_ch e 2 of Inl _ \<Rightarrow> False | Inr ch2 \<Rightarrow> d = mc_dialog ch2))"

definition setup_fx :: "msg_env \<Rightarrow> nat \<Rightarrow> u32 \<Rightarrow> u64 \<Rightarrow> string \<Rightarrow> msg_effect list" where
  "setup_fx e n u sid name = map Mx_chan (snd (initialize_user_channels (me_init e n) u sid name))"

definition crm_phone :: "msg_env \<Rightarrow> wa_event \<Rightarrow> u64 \<Rightarrow> resp_info \<Rightarrow> string" where
  "crm_phone e ev sid info = (if ri_phone info \<noteq> [] then ri_phone info else real_phone e ev sid)"

lemma channel_found_unique: "channel_found e u sid name ch \<Longrightarrow> channel_found e u sid name ch' \<Longrightarrow> ch' = ch"
  by (auto simp: channel_found_def)

lemma obtain_channel_result:
  assumes "obtain_channel e sid name st = (r, st')"
  shows "st' = mfx (if isl (me_get_ch e 0) then setup_fx e 1 (ms_user st) sid name else []) st
    \<and> (case r of Inl _ \<Rightarrow> \<forall>ch. \<not> channel_found e (ms_user st) sid name ch
        | Inr ch \<Rightarrow> channel_found e (ms_user st) sid name ch)"
  using assms
  by (auto simp: obtain_channel_def init_channels_def channel_found_def setup_fx_def case_prod_unfold
      split: sum.splits option.splits prod.splits)

lemma send_to_rx_result:
  assumes "send_to_rx e sid name ch body files st = (r, st')"
  shows "\<exists>rx. st' = mfx ((if me_send_rx e 0 = None then [] else setup_fx e 2 (ms_user st) sid name) @ rx) st
    \<and> (r = None \<and> (\<exists>d. goes_to e (ms_user st) sid name ch d \<and> rx = [Mx_rx d body (is_operator_mode (mc_dialog ch) (ms_ops st)) files])
       \<or> r \<noteq> None \<and> rx = [] \<and> (\<forall>d. \<not> goes_to e (ms_user st) sid name ch d))"
  using assms
  by (auto simp: send_to_rx_def Let_def init_channels_def goes_to_def setup_fx_def case_prod_unfold
      split: sum.splits option.splits prod.splits)

text \<open>What a message of a known respondent causes after it is marked read; the channels may not be set up.\<close>

definition delivery :: "msg_env \<Rightarrow> u32 \<Rightarrow> wa_event \<Rightarrow> u64 \<Rightarrow> operator_modes \<Rightarrow> msg_effect \<Rightarrow> msg_error option \<Rightarrow> msg_effect list \<Rightarrow> bool" where
  "delivery e u ev sid ops crm r es \<longleftrightarrow>
     (let found = channel_found e u sid (we_push_name ev); sent = goes_to e u sid (we_push_name ev);
          files = extract_files (Some ev) (Some (me_download e))
      in (\<forall>ch. \<not> found ch) \<and> r \<noteq> None \<and> es = []
       \<or> (\<exists>ch rx. found ch
            \<and> es = (if is_operator_mode (mc_dialog ch) ops then [] else [Mx_typing sid]) @ [crm]
                @ (if me_send_rx e 0 = None then [] else setup_fx e 2 u sid (we_push_name ev)) @ rx
            \<and> (r = None \<and> (\<exists>d. sent ch d
                  \<and> rx = [Mx_rx d (message_text (Some ev)) (is_operator_mode (mc_dialog ch) ops) files])
               \<or> r \<noteq> None \<and> (\<forall>d. \<not> sent ch d) \<and> rx = [])))"

lemma process_message_delivers:
  assumes "process_message e (message_text (Some ev)) False False ev st = (r, st')"
    and "sender_id (Some ev) = Inr sid" "rs_get sid (ms_resp st) = Some info"
  shows "\<exists>es. st' = mfx ([Mx_read (we_id ev) (we_sender ev)]
      @ (if isl (me_get_ch e 0) then setup_fx e 1 (ms_user st) sid (we_push_name ev) else []) @ es) st
    \<and> delivery e (ms_user st) ev sid (ms_ops st) (Mx_crm (we_push_name ev) (ri_phone info) (message_text (Some ev)) False False
        (map fu_name (extract_files (Some ev) (Some (me_download e))))) r es"
proof -
  let ?st = "mfx [Mx_read (we_id ev) (we_sender ev)] st"
  let ?files = "extract_files (Some ev) (Some (me_download e))"
  let ?crm = "Mx_crm (we_push_name ev) (ri_phone info) (message_text (Some ev)) False False (map fu_name ?files)"
  obtain q st1 where q: "obtain_channel e sid (we_push_name ev) ?st = (q, st1)" by fastforce
  note found = obtain_channel_result [OF q]
  show ?thesis
  proof (cases q)
    case (Inl err)
    then show ?thesis
      using assms q found by (intro exI [of _ "[]"]) (auto simp: process_message_def Let_def delivery_def)
  next
    case (Inr ch)
    let ?typing = "if is_operator_mode (mc_dialog ch) (ms_ops st) then [] else [Mx_typing sid]"
    let ?f1 = "if isl (me_get_ch e 0) then setup_fx e 1 (ms_user st) sid (we_push_name ev) else []"
    let ?f2 = "if me_send_rx e 0 = None then [] else setup_fx e 2 (ms_user st) sid (we_push_name ev)"
    have st1: "st1 = mfx ?f1 ?st" and ch: "channel_found e (ms_user st) sid (we_push_name ev) ch"
      using found Inr by simp_all
    have "send_to_rx e sid (we_push_name ev) ch (message_text (Some ev)) ?files (mfx (?typing @ [?crm]) st1) = (r, st')"
      using assms q Inr st1 by (auto simp: process_message_def Let_def)
    from send_to_rx_result [OF this, unfolded st1 mfx_simps] obtain rx
      where rx: "st' = mfx ([Mx_read (we_id ev) (we_sender ev)] @ ?f1 @ ?typing @ [?crm] @ ?f2 @ rx) st"
        "r = None \<and> (\<exists>d. goes_to e (ms_user st) sid (we_push_name ev) ch d
             \<and> rx = [Mx_rx d (message_text (Some ev)) (is_operator_mode (mc_dialog ch) (ms_ops st)) ?files])
         \<or> r \<noteq> None \<and> rx = [] \<and> (\<forall>d. \<not> goes_to e (ms_user st) sid (we_push_name ev) ch d)"
      unfolding append.assoc by blast
    have "delivery e (ms_user st) ev sid (ms_ops st) ?crm r (?typing @ [?crm] @ ?f2 @ rx)"
      unfolding delivery_def Let_def using rx(2) ch by blast
    then show ?thesis using rx(1) by blast
  qed
qed


subsection \<open>Examples\<close>

definition quiet_chan_env :: chan_env where
  "quiet_chan_env = \<lparr>ch_has_db = True, ch_has_model = True, ch_has_assistant = True,
     ch_dialog = (\<lambda>_ sid _. Inr sid), ch_get_first = (\<lambda>_. Inl ''none''), ch_resp_model = (\<lambda>_ _ _. (True, None)),
     ch_get_second = (\<lambda>sid. (Some \<lparr>mc_dialog = sid, mc_name = [], mc_rx_open = True\<rparr>, None)), ch_start_room = True\<rparr>"

definition example_msg_env :: msg_env where
  "example_msg_env = \<lparr>me_now = 60 * second, me_dus = ''s'', me_jid_text = (\<lambda>j. jid_user j), me_parse_jid = (\<lambda>_. Inl []),
     me_audio_mode = True, me_download = (\<lambda>_. Inl []), me_voice_download = Inl [], me_transcribe = (\<lambda>_. Inl []),
     me_init = (\<lambda>_. quiet_chan_env), me_get_ch = (\<lambda>_. Inr \<lparr>mc_dialog = 7, mc_name = [], mc_rx_open = True\<rparr>),
     me_send_rx = (\<lambda>_. None), me_redis = None, me_logged_in = True\<rparr>"

definition example_event :: "string \<Rightarrow> wa_event" where
  "example_event body = \<lparr>we_body = Some \<lparr>wm_conversation = body, wm_ext = None, wm_audio = None, wm_document = None,
       wm_image = None, wm_video = None\<rparr>, we_id = ''m1'', we_sender = new_jid ''5'' ''s'', we_sender_alt = empty_jid,
     we_chat = new_jid ''5'' ''s'', we_from_me = False, we_broadcast = False, we_category = [],
     we_time = 60 * second, we_push_name = ''Ann''\<rparr>"

definition known_five :: resp_store where
  "known_five = \<lparr>rs_cells = [\<lparr>ri_jid = new_jid ''5'' ''s'', ri_phone = ''5'', ri_known = True\<rparr>], rs_items = [(5, 0)]\<rparr>"

definition example_msg_state :: msg_state where
  "example_msg_state = \<lparr>ms_user = 1, ms_text_on = True, ms_uids = [5], ms_connected_at = 0, ms_synced = True,
     ms_notify_start = True, ms_resp = known_five, ms_ops = [], ms_spawned = [], ms_fx = []\<rparr>"

lemma mac_text_length: "length mac_error_text = 31"
  by (simp add: mac_error_text_def)

lemma parse_five [simp]: "parse_uint 64 ''5'' = Inr 5" "parse_uint 64 ''6'' = Inr 6"
  by (simp_all add: parse_uint_def digit_val_def)

lemma example_text [simp]: "body \<noteq> [] \<Longrightarrow> message_text (Some (example_event body)) = body"
  by (simp add: message_text_def example_event_def)

lemma hi_not_label [simp]: "''hi'' \<noteq> mac_error_text" "''hi'' \<noteq> unsupported_label" "''hi'' \<noteq> voice_label"
  by (auto simp: mac_text_length length_labels dest!: arg_cong [where f = length])

lemma example_accepted: "accepted example_msg_env (example_event ''hi'') example_msg_state"
  by (auto simp: accepted_def should_ignore_None is_decryption_error_def example_msg_env_def example_msg_state_def
      example_event_def context_noise_def second_def allowed_uid_def has_text_def sublist_code
      message_text_def hi_not_label)

theorem refused_message_no_effect_witness:
  "ms_resp (snd (handle_event example_msg_env (Ev_message (example_event ''hi'')) (example_msg_state\<lparr>ms_uids := [6]\<rparr>)))
   = known_five"
proof -
  have "\<not> accepted example_msg_env (example_event ''hi'') (example_msg_state\<lparr>ms_uids := [6]\<rparr>)"
    by (simp add: accepted_def example_event_def example_msg_state_def allowed_uid_def)
  from refused_message_no_effect [OF this] show ?thesis by (auto simp: example_msg_state_def)
qed


subsection \<open>The first contact\<close>

lemma handle_message_known:
  assumes "rs_wf (ms_resp st)" "rs_get sid (ms_resp st) = Some info" "ri_known info"
    and "sender_id (Some ev) = Inr sid"
  shows "grows (crm_first False) st (snd (handle_message e ev st))"
proof -
  obtain n where n: "parse_uint 64 (jid_user (we_sender ev)) = Inr n" "sid = of_nat n"
    using assms(4) by (auto simp: sender_id_def split: sum.splits)
  obtain p where p: "p < length (rs_cells (ms_resp st))"
    "rs_cells (ms_resp st) ! p = info" "map_of (rs_items (ms_resp st)) sid = Some p"
    using assms(1,2) by (auto simp: rs_get_def rs_load_def rs_wf_def dest: map_of_SomeD)
  obtain loaded st1 where resp: "respondent e ev sid st = ((p, loaded), st1)"
    and st1: "ms_fx st1 = ms_fx st" "ri_known (rs_cells (ms_resp st1) ! p)"
    using p assms(3)
    by (auto simp: respondent_def Let_def rs_alloc_def rs_load_or_store_def restore_responder_fields_def
        rs_upd_def nth_update_at nth_append restore_fields_def)
  have first: "first_interaction e sid (we_push_name ev) p st1 = (Inr False, st1)"
    using st1(2) by (simp add: first_interaction_def)
  have g: "grows (crm_first False) st1 (snd (process_message e c False False ev st1))"
    "grows (crm_first False) st1 (snd (process_voice_message e False ev st1))" for c
    using process_message_grows process_voice_grows by (metis prod.collapse)+
  have "grows (crm_first False) st st1" using st1(1) by (auto simp: grows_def intro: exI [of _ "[]"])
  then show ?thesis
    using g [THEN [2] grows_trans] n resp first
    by (auto simp: handle_message_def Let_def split: option.splits)
qed

text \<open>The set-up of a new respondent's dialog may fail; the goroutine of the first contact marks the
  respondent as known all the same. After that no message of this respondent is ever reported to the CRM
  as the first one of a dialog.\<close>

theorem failed_first_contact_forgotten:
  assumes "rs_wf (ms_resp st)" "rs_get sid (ms_resp st) = None" "accepted e ev st" "ms_spawned st = []"
    and "sender_id (Some ev) = Inr sid" "sender_id (Some later) = Inr sid"
    and "fst (initialize_user_channels (me_init e 0) (ms_user st) sid (we_push_name ev)) = Some err"
    and "\<not> str_contains (chan_error_text err) empty_data_text"
  shows "fst (handle_message e ev st) = Msg_done (Some (Init_failed err))
    \<and> (let st2 = run_first_contact e (snd (handle_message e ev st))
       in (\<exists>info. rs_get sid (ms_resp st2) = Some info \<and> ri_known info)
         \<and> grows (crm_first False) st2 (snd (handle_message e' later st2)))"
proof -
  obtain n where n: "parse_uint 64 (jid_user (we_sender ev)) = Inr n" "sid = of_nat n"
    using assms(5) by (auto simp: sender_id_def split: sum.splits)
  let ?addr = "new_jid (jid_user (we_sender ev)) (jid_server (we_sender ev))"
  let ?p = "length (rs_cells (ms_resp st))"
  define rs where "rs = rs_upd ?p (\<lambda>i. snd (restore_fields ?addr (real_phone e ev sid) sid i))
    ((ms_resp st)\<lparr>rs_cells := rs_cells (ms_resp st) @
        [\<lparr>ri_jid = ?addr, ri_phone = real_phone e ev sid, ri_known = False\<rparr>],
      rs_items := AList.update sid ?p (rs_items (ms_resp st))\<rparr>)"
  have new: "map_of (rs_items (ms_resp st)) sid = None" using assms(2) by (simp add: rs_get_def rs_load_def)
  have resp: "respondent e ev sid st = ((?p, False), st\<lparr>ms_resp := rs\<rparr>)"
    using new by (simp add: respondent_def Let_def rs_alloc_def rs_load_or_store_def restore_responder_fields_def rs_def)
  have known: "ri_known (snd (restore_fields a ph k i)) = ri_known i" for a ph k i
    by (simp add: restore_fields_def Let_def)
  have rs: "rs_items rs = AList.update sid ?p (rs_items (ms_resp st))" "length (rs_cells rs) = Suc ?p"
    "\<not> ri_known (rs_cells rs ! ?p)"
    by (simp_all add: rs_def rs_upd_def nth_update_at known)
  obtain fx where fx: "initialize_user_channels (me_init e 0) (ms_user st) sid (we_push_name ev) = (Some err, fx)"
    using assms(7) by (metis prod.collapse)
  let ?st1 = "mfx (map Mx_chan fx) (st\<lparr>ms_resp := rs, ms_spawned := [(sid, we_push_name ev)]\<rparr>)"
  have h: "handle_message e ev st = (Msg_done (Some (Init_failed err)), ?st1)"
    using assms(3,4,8) n resp rs(3) fx
    by (auto simp: handle_message_def accepted_def Let_def first_interaction_def init_channels_def)
  have at: "rs_load sid rs = Some ?p" by (simp add: rs_load_def rs(1) update_conv')
  have d: "rs_items rs = AList.update sid ?p (rs_items rs)"
    by (metis at rs_load_def update_triv)
  define st2 where "st2 = run_first_contact e ?st1"
  have st2: "ms_resp st2 = rs_upd ?p (\<lambda>i. i\<lparr>ri_known := True\<rparr>) rs"
    using at rs(3) d [symmetric]
    by (simp add: st2_def run_first_contact_def send_first_contact_def Let_def rs_get_def rs_load_def
        rs_store_def rs_upd_def split: option.split)
  have get: "rs_get sid (ms_resp st2) = Some ((rs_cells rs ! ?p)\<lparr>ri_known := True\<rparr>)"
    using at rs(2) by (simp add: st2 rs_get_def rs_load_def rs_upd_def nth_update_at)
  have wf: "rs_wf (ms_resp st2)"
    using rs_store_ok(1) [OF assms(1), of sid] rs(1,2)
    by (simp add: st2 rs_wf_def rs_upd_def store_known_only_def rs_alloc_def rs_store_def)
  have "grows (crm_first False) st2 (snd (handle_message e' later st2))"
    by (rule handle_message_known [OF wf get _ assms(6)]) simp
  then show ?thesis using get by (simp add: h flip: st2_def)
qed

definition failing_env :: msg_env where
  "failing_env = example_msg_env\<lparr>me_init := (\<lambda>_. quiet_chan_env\<lparr>ch_has_model := False\<rparr>)\<rparr>"

lemma No_model_text: "\<not> str_contains (chan_error_text No_model) empty_data_text"
proof
  assume "sublist empty_data_text (chan_error_text No_model)"
  then have "length empty_data_text \<le> length (chan_error_text No_model)" by (rule sublist_length_le)
  then show False by (simp add: empty_data_text_def chan_error_text_def)
qed

theorem failed_first_contact_forgotten_witness:
  "fst (handle_message failing_env (example_event ''hi'') (example_msg_state\<lparr>ms_resp := new_resp_store\<rparr>))
   = Msg_done (Some (Init_failed No_model))"
proof -
  have "accepted failing_env (example_event ''hi'') (example_msg_state\<lparr>ms_resp := new_resp_store\<rparr>)"
    using example_accepted by (simp add: accepted_def failing_env_def example_msg_state_def example_msg_env_def)
  from failed_first_contact_forgotten [OF _ _ this _ _ _ _ No_model_text, of 5 "example_event ''hi''" example_msg_env]
  show ?thesis
    by (simp add: rs_wf_def new_resp_store_def rs_get_def rs_load_def example_msg_state_def sender_id_def
        example_event_def failing_env_def initialize_user_channels_def validate_responder_def
        init_user_channels_def quiet_chan_env_def)
qed

subsection \<open>Messages lost to the labels\<close>

text \<open>\<open>MessageText\<close> describes a message without text by a label that the handler then reads back. So a
  known user who types the label of a voice message is ignored, though the message counts as processed;
  and a message whose file \<open>ExtractFilesFromMessage\<close> would take as a video or an audio file never
  gets there: without text it is "unsupported".\<close>

theorem label_messages_lost:
  assumes "accepted e ev st" "rs_wf (ms_resp st)" "sender_id (Some ev) = Inr sid"
    and "rs_get sid (ms_resp st) = Some info" "ri_known info" "me_audio_mode e"
    and "we_body ev = Some m" "wm_conversation m = voice_label" "wm_audio m = None"
  shows "(\<exists>st1. handle_event e (Ev_message ev) st =
        (Msg_done None, mfx [Mx_metric ''messages_processed'' ''success''] st1)
      \<and> ms_fx st1 = ms_fx st @ [Mx_metric ''messages_received'' ''text''])
    \<and> (\<forall>ev' m' kind name mime st'. we_body ev' = Some m' \<longrightarrow> wm_conversation m' = [] \<longrightarrow> wm_ext m' = None \<longrightarrow>
         media_of ev' m' = Some (kind, name, mime) \<longrightarrow> kind = Media_video \<or> kind = Media_audio \<longrightarrow>
         wm_video m' = None \<or> wm_audio m' = None \<longrightarrow> \<not> accepted e ev' st')"
proof (intro conjI allI impI)
  let ?st = "mfx [Mx_metric ''messages_received'' ''text''] st"
  obtain n where n: "parse_uint 64 (jid_user (we_sender ev)) = Inr n" "sid = of_nat n"
    using assms(3) by (auto simp: sender_id_def split: sum.splits)
  obtain p where p: "p < length (rs_cells (ms_resp st))"
    "rs_cells (ms_resp st) ! p = info" "map_of (rs_items (ms_resp st)) sid = Some p"
    using assms(2,4) by (auto simp: rs_get_def rs_load_def rs_wf_def dest: map_of_SomeD)
  obtain loaded st1 where resp: "respondent e ev sid ?st = ((p, loaded), st1)"
    and st1: "ms_fx st1 = ms_fx ?st" "ri_known (rs_cells (ms_resp st1) ! p)"
    using p assms(5)
    by (auto simp: respondent_def Let_def rs_alloc_def rs_load_or_store_def restore_responder_fields_def
        rs_upd_def nth_update_at nth_append restore_fields_def)
  have first: "first_interaction e sid (we_push_name ev) p st1 = (Inr False, st1)"
    using st1(2) by (simp add: first_interaction_def)
  have t: "message_text (Some ev) = voice_label" "message_type (Some ev) = ''text''"
    using assms(7,8) by (simp_all add: message_text_def message_type_def)
  have "handle_message e ev ?st = (Msg_done None, st1)"
    using assms(1,6,7,9) n resp first t
    by (auto simp: handle_message_def accepted_def Let_def process_voice_message_def)
  then show "\<exists>st1. handle_event e (Ev_message ev) st =
      (Msg_done None, mfx [Mx_metric ''messages_processed'' ''success''] st1)
      \<and> ms_fx st1 = ms_fx st @ [Mx_metric ''messages_received'' ''text'']"
    using assms(1) st1(1) t by (intro exI [of _ st1]) (auto simp: handle_event_def accepted_def Let_def)
next
  fix ev' m' kind name mime st'
  assume a: "we_body ev' = Some m'" "wm_conversation m' = []" "wm_ext m' = None"
    "media_of ev' m' = Some (kind, name, mime)" "kind = Media_video \<or> kind = Media_audio"
    "wm_video m' = None \<or> wm_audio m' = None"
  then have "message_text (Some ev') = unsupported_label"
    by (intro unsupported_text) (auto simp: media_of_def split: option.splits if_splits)
  then show "\<not> accepted e ev' st'" by (simp add: accepted_def)
qed

lemma voice_not_mac: "voice_label \<noteq> mac_error_text"
  by (auto simp: mac_text_length length_labels dest!: arg_cong [where f = length])

theorem label_messages_lost_witness:
  "fst (handle_event example_msg_env (Ev_message (example_event voice_label)) example_msg_state) = Msg_done None"
proof -
  have v: "message_text (Some (example_event voice_label)) = voice_label" by simp
  have "accepted example_msg_env (example_event voice_label) example_msg_state"
    using example_accepted v
    by (simp add: accepted_def should_ignore_None is_decryption_error_def example_event_def has_text_def
        context_noise_def example_msg_state_def voice_not_mac)
  from label_messages_lost [OF this, of 5 "the (rs_get 5 known_five)" "the (we_body (example_event voice_label))"]
  show ?thesis
    by (auto simp: example_msg_state_def known_five_def rs_wf_def rs_get_def rs_load_def sender_id_def
        example_event_def example_msg_env_def)
qed

end
