(* ===== verification/Bots.thy ===== *)
theory Bots
  imports Repository Bot_Messages
begin

section \<open>The bots of the users (user_bots.go, bot_lifecycle.go, user_subscription.go, user_auth.go, reauth.go)\<close>

text \<open>
  \<open>whatsapp.User\<close> keeps one bot per user in a \<open>sync.Map\<close>. Bots are shared by pointer between the map, the
  connecting goroutine and the event handlers, so they live in a list and are named by index; the map is
  an association list. A bot's context is \<open>bo_cancelled\<close>, its client's connection \<open>bo_disconnected\<close>, the
  stored identity of its device \<open>bo_identity\<close>.

  \<open>bots_env\<close> holds the answers of the database, the subscription service, the notifier and the
  libraries. The connecting goroutine started by \<open>initializeBot\<close> is the operation \<open>connect_bot\<close>, to be
  run later. \<open>bt_fx\<close> lists what is done to the outside.
\<close>

subsection \<open>State\<close>

text \<open>The assistant that answers for a user: \<open>createAssistantModel\<close> copies the row of the user.\<close>

record assistant =
  as_user :: u32
  as_name :: string
  as_id :: string
  as_provider :: byte
  as_espero :: byte
  as_limit :: u32
  as_ignore :: bool
  as_events :: notifications
  as_meta :: string
  as_triggers :: "string list"

definition create_assistant_model :: "wa_user \<Rightarrow> assistant" where
  "create_assistant_model u =
     \<lparr>as_user = wu_user u, as_name = wu_name u, as_id = wu_assistant u, as_provider = wu_provider u,
      as_espero = wu_espero u, as_limit = wu_limit u, as_ignore = wu_ignore u, as_events = wu_events u,
      as_meta = wu_meta u, as_triggers = wu_triggers u\<rparr>"

text \<open>The assistant of a bot made for an authorisation has the user's number only.\<close>

definition auth_assistant :: "u32 \<Rightarrow> assistant" where
  "auth_assistant uid =
     \<lparr>as_user = uid, as_name = [], as_id = [], as_provider = 0, as_espero = 0, as_limit = 0, as_ignore = False,
      as_events = \<lparr>nt_start = False, nt_end = False, nt_target = False\<rparr>, as_meta = [], as_triggers = []\<rparr>"

record bot =
  bo_user :: u32
  bo_store :: dev_store
  bo_assist :: assistant
  bo_identity :: bool
  bo_stopped :: bool
  bo_cancelled :: bool
  bo_disconnected :: bool
  bo_text :: bool
  bo_voice :: bool
  bo_uids :: "int list"

datatype bot_effect =
  Bx_stop_calls u32 string
| Bx_notify u32 string string
| Bx_disable_channel u32
| Bx_disable_all u32
| Bx_connecting u32 nat
| Bx_delete_device u32

record bots =
  bt_bots :: "bot list"
  bt_map :: "(u32 \<times> nat) list"
  bt_keys :: master_keys
  bt_fx :: "bot_effect list"

datatype subscription = Sub_ok | Sub_denied nat | Sub_unknown string

datatype connection = Conn_ok | Conn_not_logged_in | Conn_failed string

record bots_env =
  be_user :: "u32 \<Rightarrow> read_error + wa_user"
  be_users :: "read_error + wa_user list"
  be_subscription :: "u32 \<Rightarrow> subscription"
  be_notify :: "u32 \<Rightarrow> string \<Rightarrow> string option"
  be_disable_all :: "u32 \<Rightarrow> string option"
  be_disable_channel :: "u32 \<Rightarrow> string option"
  be_encrypted :: "string \<Rightarrow> bool"
  be_rpc :: "(rpc_error + master_key) option"
  be_decrypt :: "master_key \<Rightarrow> string \<Rightarrow> string + string"
  be_now :: int
  be_parse :: parse_env
  be_settings :: "string \<Rightarrow> string + bool \<times> bool \<times> string"
  be_connect :: connection

datatype sub_error = Sub_notify_failed string | Sub_disable_failed string | Sub_check_unknown string | Sub_check_denied nat

datatype bots_error =
  Bot_already_running u32 | Bot_db_failed read_error | Bot_disabled u32 | Bot_subscription sub_error
| Bot_decrypt decrypt_error | Bot_token device_error | Bot_not_found u32 | Bot_store new_store_error

definition bfx :: "bot_effect list \<Rightarrow> bots \<Rightarrow> bots" where
  "bfx es s = s\<lparr>bt_fx := bt_fx s @ es\<rparr>"

definition upd_bot :: "nat \<Rightarrow> (bot \<Rightarrow> bot) \<Rightarrow> bots \<Rightarrow> bots" where
  "upd_bot i f s = s\<lparr>bt_bots := update_at f i (bt_bots s)\<rparr>"

definition lookup_bot :: "u32 \<Rightarrow> bots \<Rightarrow> nat option" where
  "lookup_bot uid s = map_of (bt_map s) uid"

definition store_bot :: "u32 \<Rightarrow> nat \<Rightarrow> bots \<Rightarrow> bots" where
  "store_bot uid i s = s\<lparr>bt_map := AList.update uid i (bt_map s)\<rparr>"

definition delete_bot :: "u32 \<Rightarrow> bots \<Rightarrow> bots" where
  "delete_bot uid s = s\<lparr>bt_map := AList.delete uid (bt_map s)\<rparr>"

subsection \<open>Subscription (checkUserSubscription)\<close>

definition check_user_subscription :: "bots_env \<Rightarrow> u32 \<Rightarrow> bots \<Rightarrow> sub_error option \<times> bots" where
  "check_user_subscription e uid s =
     (case be_subscription e uid of
        Sub_ok \<Rightarrow> (None, s)
      | Sub_unknown t \<Rightarrow> (Some (Sub_check_unknown t), s)
      | Sub_denied code \<Rightarrow>
          let s = bfx [Bx_notify uid ''subscription'' (format_uint code)] s in
          (case be_notify e uid ''subscription'' of
             Some t \<Rightarrow> (Some (Sub_notify_failed t), s)
           | None \<Rightarrow>
               let s = bfx [Bx_disable_all uid] s in
               (case be_disable_all e uid of
                  Some t \<Rightarrow> (Some (Sub_disable_failed t), s)
                | None \<Rightarrow> (Some (Sub_check_denied code), s))))"

subsection \<open>Making a bot (initializeBot, createOrUpdateBot, Connect)\<close>

text \<open>The list of allowed users: fields that are not numbers are skipped.\<close>

fun numbers_of :: "string list \<Rightarrow> int list" where
  "numbers_of [] = []"
| "numbers_of (w # ws) = (case parse_int 64 w of Inr n \<Rightarrow> n # numbers_of ws | Inl _ \<Rightarrow> numbers_of ws)"

definition parse_uids :: "string \<Rightarrow> int list" where
  "parse_uids uids = (if uids = [] then [] else numbers_of (str_fields uids))"

definition initialize_bot :: "u32 \<Rightarrow> dev_store \<Rightarrow> assistant \<Rightarrow> bool \<Rightarrow> bots \<Rightarrow> nat \<times> bots" where
  "initialize_bot uid st a auto s =
     (let i = length (bt_bots s);
          b = \<lparr>bo_user = uid, bo_store = st, bo_assist = a,
               bo_identity = (case ds_device st of Some d \<Rightarrow> de_id d \<noteq> None | None \<Rightarrow> False),
               bo_stopped = False, bo_cancelled = False, bo_disconnected = False,
               bo_text = ds_text st, bo_voice = ds_call st, bo_uids = parse_uids (ds_uids st)\<rparr>;
          s = s\<lparr>bt_bots := bt_bots s @ [b]\<rparr>
      in (i, if auto then bfx [Bx_connecting uid i] s else s))"

definition create_or_update_bot :: "u32 \<Rightarrow> dev_store \<Rightarrow> assistant \<Rightarrow> bots \<Rightarrow> nat \<times> bots" where
  "create_or_update_bot uid st a s =
     initialize_bot uid st a True
       (case lookup_bot uid s of
          Some i \<Rightarrow> upd_bot i (\<lambda>b. b\<lparr>bo_cancelled := True\<rparr>) s
        | None \<Rightarrow> s)"

text \<open>
  The second event handler of the client: on \<open>Connected\<close> the session is saved under the user's key (the key
  of zeros when there is none), and the wait for the offline messages ends (\<open>ms_synced\<close> of Bot_Messages).
\<close>

definition save_on_connected ::
  "bots_env \<Rightarrow> (dev_store \<Rightarrow> string + string) \<Rightarrow> tx_env option \<Rightarrow> nat \<Rightarrow> bots \<Rightarrow> channels
   \<Rightarrow> save_error option \<times> bots \<times> channels" where
  "save_on_connected e tojson repo i s table =
     (let b = bt_bots s ! i;
          rpc = (case be_rpc e of None \<Rightarrow> Inl Rpc_missing | Some r \<Rightarrow> r)
      in case user_master_key rpc (be_now e) (be_now e) (bo_user b) (bt_keys s) of
        (mk, keys) \<Rightarrow>
          (case save_json tojson repo (bo_user b) mk False (bo_store b) table of
             (err, table) \<Rightarrow> (err, s\<lparr>bt_keys := keys\<rparr>, table)))"

text \<open>\<open>Bot.Connect\<close>: an error is the text, or the demand for an authorisation.\<close>

datatype connect_error = Connection_error string | Needs_auth

definition bot_connect :: "connection \<Rightarrow> bot \<Rightarrow> connect_error option" where
  "bot_connect c b =
     (if \<not> bo_identity b then Some Needs_auth
      else case c of
        Conn_ok \<Rightarrow> None
      | Conn_not_logged_in \<Rightarrow> Some Needs_auth
      | Conn_failed t \<Rightarrow> Some (Connection_error t))"

text \<open>The connecting goroutine.\<close>

definition connect_bot :: "bots_env \<Rightarrow> nat \<Rightarrow> bots \<Rightarrow> bots" where
  "connect_bot e i s =
     (let b = bt_bots s ! i in
      case bot_connect (be_connect e) b of
        None \<Rightarrow> s
      | Some _ \<Rightarrow>
          upd_bot i (\<lambda>b. b\<lparr>bo_stopped := True\<rparr>)
            (bfx [Bx_notify (bo_user b) ''reauth'' ''WhatsApp User'', Bx_disable_channel (bo_user b)] s))"

subsection \<open>Starting, stopping, restarting (user_bots.go)\<close>

text \<open>Decrypting when the session is marked as encrypted.\<close>

definition open_session :: "bots_env \<Rightarrow> u32 \<Rightarrow> string \<Rightarrow> bots \<Rightarrow> (decrypt_error + string) \<times> bots" where
  "open_session e uid raw s =
     (if be_encrypted e raw then
        (case decrypt_session_data (be_rpc e) (be_decrypt e) (be_now e) (be_now e) uid raw (bt_keys s) of
           (r, keys, notify) \<Rightarrow>
             (r, (if notify then bfx [Bx_notify uid ''reauth-userkey'' []] else (\<lambda>s. s)) (s\<lparr>bt_keys := keys\<rparr>)))
      else (Inr raw, s))"

definition stop_user_bot :: "u32 \<Rightarrow> bots \<Rightarrow> bots_error option \<times> bots" where
  "stop_user_bot uid s =
     (case lookup_bot uid s of
        None \<Rightarrow> (Some (Bot_not_found uid), s)
      | Some i \<Rightarrow>
          if bo_stopped (bt_bots s ! i) then (None, s)
          else
            let s = upd_bot i (\<lambda>b. b\<lparr>bo_stopped := True\<rparr>) s;
                s = bfx [Bx_stop_calls uid ''user_removed''] s;
                s = upd_bot i (\<lambda>b. b\<lparr>bo_cancelled := True, bo_disconnected := True\<rparr>) s
            in (None, delete_bot uid s))"

definition start_user_bot :: "bots_env \<Rightarrow> u32 \<Rightarrow> bots \<Rightarrow> bots_error option \<times> bots" where
  "start_user_bot e uid s =
     (if lookup_bot uid s \<noteq> None then (Some (Bot_already_running uid), s)
      else case be_user e uid of
        Inl err \<Rightarrow> (Some (Bot_db_failed err), s)
      | Inr u \<Rightarrow>
          if \<not> wu_enabled u then (Some (Bot_disabled uid), s)
          else case check_user_subscription e uid s of
            (Some err, s) \<Rightarrow> (Some (Bot_subscription err), s)
          | (None, s) \<Rightarrow>
          (case open_session e (wu_user u) (wu_session u) s of
             (Inl err, s) \<Rightarrow> (Some (Bot_decrypt err), s)
           | (Inr session, s) \<Rightarrow>
          (case parse_user_bot_container (be_parse e) session of
             Inl err \<Rightarrow> (Some (Bot_token err), s)
           | Inr st \<Rightarrow>
               (case initialize_bot (wu_user u) st (create_assistant_model u) True s of
                  (i, s) \<Rightarrow> (None, store_bot (wu_user u) i s)))))"

text \<open>The second half of \<open>restartUserBot\<close>, after the old bot is stopped.\<close>

definition rebuild_bot :: "bots_env \<Rightarrow> u32 \<Rightarrow> wa_user \<Rightarrow> string \<Rightarrow> bots \<Rightarrow> bots_error option \<times> bots" where
  "rebuild_bot e uid u session s =
     (case check_user_subscription e uid s of
        (Some err, s) \<Rightarrow> (Some (Bot_subscription err), s)
      | (None, s) \<Rightarrow>
          (case parse_user_bot_container (be_parse e) session of
             Inl err \<Rightarrow> (Some (Bot_token err), s)
           | Inr st \<Rightarrow>
               (case create_or_update_bot (wu_user u) st (create_assistant_model u) s of
                  (i, s) \<Rightarrow> (None, store_bot (wu_user u) i s))))"

text \<open>The bot that is registered is stopped, if there is one.\<close>

definition stop_if_present :: "u32 \<Rightarrow> bots \<Rightarrow> bots_error option \<times> bots" where
  "stop_if_present uid s = (if lookup_bot uid s \<noteq> None then stop_user_bot uid s else (None, s))"

definition restart_user_bot :: "bots_env \<Rightarrow> u32 \<Rightarrow> bots \<Rightarrow> bots_error option \<times> bots" where
  "restart_user_bot e uid s =
     (case be_user e uid of
        Inl err \<Rightarrow> (Some (Bot_db_failed err), s)
      | Inr u \<Rightarrow>
          (case open_session e (wu_user u) (wu_session u) s of
             (Inl err, s) \<Rightarrow> (Some (Bot_decrypt err), s)
           | (Inr session, s) \<Rightarrow>
               if \<not> wu_enabled u then
                 (case stop_if_present uid s of
                    (Some err, s) \<Rightarrow> (Some err, s)
                  | (None, s) \<Rightarrow> (Some (Bot_disabled uid), s))
               else
                 (case stop_if_present uid s of
                    (Some err, s) \<Rightarrow> (Some err, s)
                  | (None, s) \<Rightarrow> rebuild_bot e uid u session s)))"

text \<open>One turn of the loop of \<open>processBotsState\<close>: any failure skips the user.\<close>

definition process_bot_state :: "bots_env \<Rightarrow> wa_user \<Rightarrow> bots \<Rightarrow> bots" where
  "process_bot_state e u s =
     (if wu_session u = [] then s
      else case check_user_subscription e (wu_user u) s of
        (Some _, s) \<Rightarrow> s
      | (None, s) \<Rightarrow>
          (case open_session e (wu_user u) (wu_session u) s of
             (Inl _, s) \<Rightarrow> s
           | (Inr session, s) \<Rightarrow>
               (case parse_user_bot_container (be_parse e) session of
                  Inl _ \<Rightarrow> s
                | Inr st \<Rightarrow>
                    (case create_or_update_bot (wu_user u) st (create_assistant_model u) s of
                       (i, s) \<Rightarrow> store_bot (wu_user u) i s))))"

definition start_bots :: "bots_env \<Rightarrow> bots \<Rightarrow> read_error option \<times> bots" where
  "start_bots e s =
     (case be_users e of
        Inl err \<Rightarrow> (Some err, s)
      | Inr us \<Rightarrow> (None, fold (process_bot_state e) us s))"

definition bot_state :: "u32 \<Rightarrow> bots \<Rightarrow> bool \<times> bool" where
  "bot_state uid s =
     (case lookup_bot uid s of
        None \<Rightarrow> (False, False)
      | Some i \<Rightarrow> (True, bo_stopped (bt_bots s ! i)))"

subsection \<open>Shutting down and resetting (bot_lifecycle.go, whatsapp.go)\<close>

definition stop_bot :: "nat \<Rightarrow> bots \<Rightarrow> bots" where
  "stop_bot i s =
     (if bo_stopped (bt_bots s ! i) then s
      else
        upd_bot i (\<lambda>b. b\<lparr>bo_stopped := True, bo_cancelled := True, bo_disconnected := True\<rparr>)
          (bfx [Bx_stop_calls (bo_user (bt_bots s ! i)) ''bot_stopped''] s))"

text \<open>\<open>StopBot\<close>: the goroutines it starts, in the order \<open>is\<close> in which they run.\<close>

definition stop_all_bots :: "nat list \<Rightarrow> bots \<Rightarrow> bots" where
  "stop_all_bots is s = fold stop_bot is s"

definition reset_session :: "nat \<Rightarrow> bots \<Rightarrow> bots" where
  "reset_session i s =
     (let b = bt_bots s ! i;
          s = bfx ([Bx_stop_calls (bo_user b) ''session_reset''] @
                (if bo_identity b then [Bx_delete_device (bo_user b)] else [])) s
      in upd_bot i (\<lambda>b. b\<lparr>bo_disconnected := True, bo_stopped := True, bo_cancelled := True\<rparr>) s)"

subsection \<open>A new authorisation (reauth.go)\<close>

datatype reauth_step = Step_notify | Step_disable | Step_reset

datatype reauth_error = Reauth_bad_user | Reauth_notify string | Reauth_disable string | Reauth_reset string

text \<open>
  \<open>runReauth\<close>: each step is \<open>None\<close> when its provider is nil, else the error it gives, if any. The steps that
  run, in order, and the first error.
\<close>

definition run_reauth ::
  "u32 \<Rightarrow> string option option \<Rightarrow> string option option \<Rightarrow> string option option \<Rightarrow> reauth_error option \<times> reauth_step list" where
  "run_reauth uid notify disable reset =
     (if uid = 0 then (Some Reauth_bad_user, [])
      else
        let record = (\<lambda>wrap err first. case (first, err) of (None, Some t) \<Rightarrow> Some (wrap t) | _ \<Rightarrow> first);
            first = None;
            first = (case notify of Some err \<Rightarrow> record Reauth_notify err first | None \<Rightarrow> first);
            first = (case disable of Some err \<Rightarrow> record Reauth_disable err first | None \<Rightarrow> first);
            first = (case reset of Some err \<Rightarrow> record Reauth_reset err first | None \<Rightarrow> first)
        in (first,
            (if notify \<noteq> None then [Step_notify] else []) @ (if disable \<noteq> None then [Step_disable] else []) @
            (if reset \<noteq> None then [Step_reset] else [])))"

text \<open>\<open>triggerReauth\<close> of a bot: the three providers are there, and \<open>resetSession\<close> gives no error.\<close>

definition reauth_effect :: "nat \<Rightarrow> reauth_step \<Rightarrow> bots \<Rightarrow> bots" where
  "reauth_effect i st s =
     (let uid = bo_user (bt_bots s ! i) in
      case st of
        Step_notify \<Rightarrow> bfx [Bx_notify uid ''reauth'' ''WhatsApp User''] s
      | Step_disable \<Rightarrow> bfx [Bx_disable_channel uid] s
      | Step_reset \<Rightarrow> reset_session i s)"

definition trigger_reauth :: "bots_env \<Rightarrow> nat \<Rightarrow> bots \<Rightarrow> reauth_error option \<times> bots" where
  "trigger_reauth e i s =
     (let uid = bo_user (bt_bots s ! i);
          (r, steps) = run_reauth uid (Some (be_notify e uid ''reauth'')) (Some (be_disable_channel e uid)) (Some None)
      in (r, fold (reauth_effect i) steps s))"

subsection \<open>The bot of an authorisation (user_auth.go)\<close>

text \<open>The settings of the stored session, when there is one that can be read.\<close>

definition restore_settings :: "bots_env \<Rightarrow> u32 \<Rightarrow> dev_store \<Rightarrow> bots \<Rightarrow> dev_store \<times> bots" where
  "restore_settings e uid st s =
     (case be_user e uid of
        Inl _ \<Rightarrow> (st, s)
      | Inr u \<Rightarrow>
          if wu_session u = [] then (st, s)
          else
            (case decrypt_session_data (be_rpc e) (be_decrypt e) (be_now e) (be_now e) uid (wu_session u) (bt_keys s) of
               (r, keys, notify) \<Rightarrow>
                 let s = (if notify then bfx [Bx_notify uid ''reauth-userkey'' []] else (\<lambda>s. s)) (s\<lparr>bt_keys := keys\<rparr>);
                     raw = (case r of Inr plain \<Rightarrow> plain | Inl _ \<Rightarrow> wu_session u)
                 in case be_settings e raw of
                      Inl _ \<Rightarrow> (st, s)
                    | Inr (txt, call, uids) \<Rightarrow> (st\<lparr>ds_text := txt, ds_call := call, ds_uids := uids\<rparr>, s)))"

definition ensure_auth_bot ::
  "bots_env \<Rightarrow> string + device option \<Rightarrow> u32 \<Rightarrow> bots \<Rightarrow> (bots_error + nat) \<times> bots" where
  "ensure_auth_bot e fresh uid s =
     (case lookup_bot uid s of
        Some i \<Rightarrow> (Inr i, s)
      | None \<Rightarrow>
          (case new_dev_store fresh of
             Inl err \<Rightarrow> (Inl (Bot_store err), s)
           | Inr st \<Rightarrow>
               (case restore_settings e uid st s of
                  (st, s) \<Rightarrow>
                    (case initialize_bot uid st (auth_assistant uid) False s of
                       (i, s) \<Rightarrow> (Inr i, store_bot uid i s)))))"

text \<open>\<open>PrepareReauth\<close> (the client is made anew) and \<open>SetAuthSettings\<close> (bot_auth.go).\<close>

definition prepare_reauth :: "nat \<Rightarrow> bots \<Rightarrow> bots" where
  "prepare_reauth i s =
     upd_bot i (\<lambda>b. b\<lparr>bo_identity := False,
         bo_store := (bo_store b)\<lparr>ds_device := map_option (\<lambda>d. d\<lparr>de_id := None\<rparr>) (ds_device (bo_store b))\<rparr>\<rparr>)
       (bfx [Bx_stop_calls (bo_user (bt_bots s ! i)) ''reauthentication''] s)"

definition set_auth_settings :: "bool \<Rightarrow> bool \<Rightarrow> nat \<Rightarrow> bots \<Rightarrow> bots" where
  "set_auth_settings txt call i =
     upd_bot i (\<lambda>b. b\<lparr>bo_store := (bo_store b)\<lparr>ds_text := txt, ds_call := call\<rparr>, bo_text := txt, bo_voice := call\<rparr>)"

end
