(* ===== verification/Bot_Registry.thy ===== *)
theory Bot_Registry
  imports Bots
begin

section \<open>Which bot a user has: lemmas and properties of the bots of the users\<close>

text \<open>
  The lemmas about the operations of \<open>Bots\<close>: what each leaves alone, the invariant that a bot whose
  context is alive is the one registered for its user, and what start, stop and restart do on every branch.
\<close>

subsection \<open>The operations in sequence\<close>

datatype bots_op =
  Op_start bots_env u32
| Op_stop u32
| Op_restart bots_env u32
| Op_start_all bots_env
| Op_connect bots_env nat
| Op_reset nat
| Op_reauth bots_env nat
| Op_shutdown "nat list"
| Op_auth_bot bots_env "string + device option" u32
| Op_prepare nat
| Op_settings bool bool nat
| Op_delete u32

fun bots_step :: "bots_op \<Rightarrow> bots \<Rightarrow> bots" where
  "bots_step (Op_start e uid) s = snd (start_user_bot e uid s)"
| "bots_step (Op_stop uid) s = snd (stop_user_bot uid s)"
| "bots_step (Op_restart e uid) s = snd (restart_user_bot e uid s)"
| "bots_step (Op_start_all e) s = snd (start_bots e s)"
| "bots_step (Op_connect e i) s = connect_bot e i s"
| "bots_step (Op_reset i) s = reset_session i s"
| "bots_step (Op_reauth e i) s = snd (trigger_reauth e i s)"
| "bots_step (Op_shutdown is) s = stop_all_bots is s"
| "bots_step (Op_auth_bot e fresh uid) s = snd (ensure_auth_bot e fresh uid s)"
| "bots_step (Op_prepare i) s = prepare_reauth i s"
| "bots_step (Op_settings txt call i) s = set_auth_settings txt call i s"
| "bots_step (Op_delete uid) s = delete_bot uid s"

definition no_bots :: bots where
  "no_bots = \<lparr>bt_bots = [], bt_map = [], bt_keys = [], bt_fx = []\<rparr>"

text \<open>The row the database gives for a user is that user's: the query selects by the user's id.\<close>

definition own_row :: "bots_env \<Rightarrow> bool" where
  "own_row e \<longleftrightarrow> (\<forall>uid u. be_user e uid = Inr u \<longrightarrow> wu_user u = uid)"

text \<open>It holds of the repository, whose query selects the row by the user's number.\<close>

lemma own_row_repository:
  assumes "\<And>uid r. query uid = Inr (Some r) \<Longrightarrow> rw_user r = uid"
  shows "own_row (e\<lparr>be_user := \<lambda>uid. get_wa_user unpack open_ai uid (query uid)\<rparr>)"
  using assms by (auto simp: own_row_def get_wa_user_def blank_user_def split: sum.splits option.splits)

fun op_env_ok :: "bots_op \<Rightarrow> bool" where
  "op_env_ok (Op_start e uid) = own_row e"
| "op_env_ok (Op_restart e uid) = own_row e"
| "op_env_ok _ = True"

text \<open>
  \<open>DeleteBot\<close>, which the authorisation calls, takes a bot out of the map without cancelling it. The invariant is
  relative to the set of the bots, with their users, that were taken out so.
\<close>

definition bots_inv_but :: "(u32 \<times> nat) set \<Rightarrow> bots \<Rightarrow> bool" where
  "bots_inv_but D s \<longleftrightarrow>
     (\<forall>u i. lookup_bot u s = Some i \<longrightarrow> i < length (bt_bots s) \<and> bo_user (bt_bots s ! i) = u) \<and>
     (\<forall>i < length (bt_bots s). \<not> bo_cancelled (bt_bots s ! i) \<longrightarrow>
        lookup_bot (bo_user (bt_bots s ! i)) s = Some i \<or> (bo_user (bt_bots s ! i), i) \<in> D)"

abbreviation bots_inv :: "bots \<Rightarrow> bool" where
  "bots_inv \<equiv> bots_inv_but {}"

lemma bots_inv_def:
  "bots_inv s \<longleftrightarrow>
     (\<forall>u i. lookup_bot u s = Some i \<longrightarrow> i < length (bt_bots s) \<and> bo_user (bt_bots s ! i) = u) \<and>
     (\<forall>i < length (bt_bots s). \<not> bo_cancelled (bt_bots s ! i) \<longrightarrow> lookup_bot (bo_user (bt_bots s ! i)) s = Some i)"
  by (simp add: bots_inv_but_def)

definition dropped_by :: "bots_op \<Rightarrow> bots \<Rightarrow> (u32 \<times> nat) set" where
  "dropped_by op s =
     (case op of Op_delete u \<Rightarrow> (case lookup_bot u s of Some i \<Rightarrow> {(u, i)} | None \<Rightarrow> {}) | _ \<Rightarrow> {})"

fun dropped_bots :: "bots_op list \<Rightarrow> bots \<Rightarrow> (u32 \<times> nat) set" where
  "dropped_bots [] s = {}"
| "dropped_bots (op # ops) s = dropped_by op s \<union> dropped_bots ops (bots_step op s)"

subsection \<open>What the operations leave alone\<close>

lemma bfx_simps [simp]:
  "bt_bots (bfx es s) = bt_bots s" "bt_map (bfx es s) = bt_map s" "bt_keys (bfx es s) = bt_keys s"
  "bt_fx (bfx es s) = bt_fx s @ es" "lookup_bot u (bfx es s) = lookup_bot u s"
  by (simp_all add: bfx_def lookup_bot_def)

lemma upd_bot_simps [simp]:
  "bt_map (upd_bot i f s) = bt_map s" "bt_fx (upd_bot i f s) = bt_fx s"
  "length (bt_bots (upd_bot i f s)) = length (bt_bots s)" "lookup_bot u (upd_bot i f s) = lookup_bot u s"
  "bt_bots (upd_bot i f s) = update_at f i (bt_bots s)"
  by (simp_all add: upd_bot_def lookup_bot_def)

interpretation bot_map: sync_map lookup_bot store_bot delete_bot
  by unfold_locales (simp_all add: lookup_bot_def store_bot_def delete_bot_def update_conv' delete_conv')

lemmas lookup_bot_simps [simp] = bot_map.load_store bot_map.load_delete

lemma store_delete_simps [simp]:
  "bt_bots (store_bot u i s) = bt_bots s" "bt_bots (delete_bot u s) = bt_bots s"
  "bt_fx (store_bot u i s) = bt_fx s" "bt_fx (delete_bot u s) = bt_fx s"
  by (simp_all add: store_bot_def delete_bot_def)

text \<open>The same bots are there and registered.\<close>

definition same_bots :: "bots \<Rightarrow> bots \<Rightarrow> bool" where
  "same_bots s s' \<longleftrightarrow> bt_bots s' = bt_bots s \<and> bt_map s' = bt_map s"

lemma same_bots_bfx [simp]: "same_bots s (bfx es s') = same_bots s s'"
  by (simp add: same_bots_def)

lemma same_bots_refl [simp]: "same_bots s s"
  by (simp add: same_bots_def)

lemma same_bots_lookup: "same_bots s s' \<Longrightarrow> lookup_bot u s' = lookup_bot u s"
  by (simp add: same_bots_def lookup_bot_def)

lemma same_bots_inv: "same_bots s s' \<Longrightarrow> bots_inv_but D s' = bots_inv_but D s"
  by (simp add: bots_inv_but_def same_bots_lookup) (simp add: same_bots_def)

lemma same_bots_trans: "same_bots s s' \<Longrightarrow> same_bots s' s'' \<Longrightarrow> same_bots s s''"
  by (simp add: same_bots_def)

lemma check_subscription_same: "same_bots s (snd (check_user_subscription e uid s))"
  by (auto simp: check_user_subscription_def Let_def split: subscription.split option.split)

lemma open_session_same: "same_bots s (snd (open_session e uid raw s))"
  by (auto simp: open_session_def same_bots_def split: prod.split)

lemma initialize_bot_simps [simp]:
  "fst (initialize_bot uid st a auto s) = length (bt_bots s)"
  "bt_map (snd (initialize_bot uid st a auto s)) = bt_map s"
  "lookup_bot u (snd (initialize_bot uid st a auto s)) = lookup_bot u s"
  by (simp_all add: initialize_bot_def Let_def lookup_bot_def)

text \<open>The bot that is made.\<close>

definition fresh_bot :: "u32 \<Rightarrow> dev_store \<Rightarrow> assistant \<Rightarrow> bot" where
  "fresh_bot uid st a =
     \<lparr>bo_user = uid, bo_store = st, bo_assist = a,
      bo_identity = (case ds_device st of Some d \<Rightarrow> de_id d \<noteq> None | None \<Rightarrow> False),
      bo_stopped = False, bo_cancelled = False, bo_disconnected = False,
      bo_text = ds_text st, bo_voice = ds_call st, bo_uids = parse_uids (ds_uids st)\<rparr>"

lemma initialize_bot_bots [simp]:
  "bt_bots (snd (initialize_bot uid st a auto s)) = bt_bots s @ [fresh_bot uid st a]"
  by (simp add: initialize_bot_def fresh_bot_def Let_def)

lemma fresh_bot_simps [simp]: "bo_user (fresh_bot uid st a) = uid" "\<not> bo_cancelled (fresh_bot uid st a)" "\<not> bo_stopped (fresh_bot uid st a)"
  by (simp_all add: fresh_bot_def)

subsection \<open>The invariant, operation by operation\<close>

lemma bots_butI:
  assumes "\<And>u i. lookup_bot u s = Some i \<Longrightarrow> i < length (bt_bots s)"
    and "\<And>u i. lookup_bot u s = Some i \<Longrightarrow> bo_user (bt_bots s ! i) = u"
    and "\<And>i. i < length (bt_bots s) \<Longrightarrow> \<not> bo_cancelled (bt_bots s ! i) \<Longrightarrow>
      lookup_bot (bo_user (bt_bots s ! i)) s = Some i \<or> (bo_user (bt_bots s ! i), i) \<in> D"
  shows "bots_inv_but D s"
  using assms by (simp add: bots_inv_but_def)

lemma bots_butD:
  assumes "bots_inv_but D s"
  shows "lookup_bot u s = Some i \<Longrightarrow> i < length (bt_bots s)"
    and "lookup_bot u s = Some i \<Longrightarrow> bo_user (bt_bots s ! i) = u"
    and "i < length (bt_bots s) \<Longrightarrow> \<not> bo_cancelled (bt_bots s ! i) \<Longrightarrow>
      lookup_bot (bo_user (bt_bots s ! i)) s = Some i \<or> (bo_user (bt_bots s ! i), i) \<in> D"
  using assms by (simp_all add: bots_inv_but_def)

lemma bots_invD:
  assumes "bots_inv s"
  shows "lookup_bot u s = Some i \<Longrightarrow> i < length (bt_bots s)"
    and "lookup_bot u s = Some i \<Longrightarrow> bo_user (bt_bots s ! i) = u"
    and "i < length (bt_bots s) \<Longrightarrow> \<not> bo_cancelled (bt_bots s ! i) \<Longrightarrow>
      lookup_bot (bo_user (bt_bots s ! i)) s = Some i"
  using bots_butD [OF assms] by auto

lemma inv_upd_bot:
  assumes inv: "bots_inv_but D s" and f: "\<And>b. bo_user (f b) = bo_user b" "\<And>b. bo_cancelled b \<Longrightarrow> bo_cancelled (f b)"
  shows "bots_inv_but D (upd_bot i f s)"
proof -
  have u: "bo_user (update_at f i (bt_bots s) ! k) = bo_user (bt_bots s ! k)" for k
    by (cases "i < length (bt_bots s)") (simp_all add: nth_update_at f)
  have c: "\<not> bo_cancelled (update_at f i (bt_bots s) ! k) \<Longrightarrow> \<not> bo_cancelled (bt_bots s ! k)" for k
    by (cases "i < length (bt_bots s)"; cases "k = i") (auto simp: nth_update_at f)
  show ?thesis
    by (rule bots_butI) (use bots_butD [OF inv] c in \<open>auto simp: u\<close>)
qed

lemma inv_bfx [simp]: "bots_inv_but D (bfx es s) = bots_inv_but D s"
  by (rule same_bots_inv) simp

lemma inv_add:
  assumes inv: "bots_inv_but D s" and old: "\<And>i. lookup_bot uid s = Some i \<Longrightarrow> bo_cancelled (bt_bots s ! i)"
    and new: "bt_bots s' = bt_bots s @ [b]" "bt_map s' = bt_map s" "bo_user b = uid"
  shows "bots_inv_but D (store_bot uid (length (bt_bots s)) s')"
proof -
  have l: "lookup_bot u s' = lookup_bot u s" for u
    using new(2) by (simp add: lookup_bot_def)
  show ?thesis
  proof (rule bots_butI)
    fix u i assume "lookup_bot u (store_bot uid (length (bt_bots s)) s') = Some i"
    then show "i < length (bt_bots (store_bot uid (length (bt_bots s)) s'))"
      "bo_user (bt_bots (store_bot uid (length (bt_bots s)) s') ! i) = u"
      using bots_butD(1,2) [OF inv] new by (auto simp: l nth_append less_SucI split: if_splits)
  next
    fix i assume i: "i < length (bt_bots (store_bot uid (length (bt_bots s)) s'))"
      "\<not> bo_cancelled (bt_bots (store_bot uid (length (bt_bots s)) s') ! i)"
    show "lookup_bot (bo_user (bt_bots (store_bot uid (length (bt_bots s)) s') ! i))
        (store_bot uid (length (bt_bots s)) s') = Some i
      \<or> (bo_user (bt_bots (store_bot uid (length (bt_bots s)) s') ! i), i) \<in> D"
    proof (cases "i = length (bt_bots s)")
      case False
      then have "i < length (bt_bots s)" "\<not> bo_cancelled (bt_bots s ! i)"
        using i new by (auto simp: nth_append)
      then have "lookup_bot (bo_user (bt_bots s ! i)) s = Some i \<and> bo_user (bt_bots s ! i) \<noteq> uid
          \<or> (bo_user (bt_bots s ! i), i) \<in> D"
        using bots_butD(3) [OF inv, of i] old by auto
      then show ?thesis using \<open>i < length (bt_bots s)\<close> new by (auto simp: l nth_append)
    qed (use new in simp)
  qed
qed

lemma inv_delete:
  assumes inv: "bots_inv_but D s" and old: "\<And>i. lookup_bot uid s = Some i \<Longrightarrow> bo_cancelled (bt_bots s ! i)"
  shows "bots_inv_but D (delete_bot uid s)"
proof (rule bots_butI)
  fix i assume i: "i < length (bt_bots (delete_bot uid s))" "\<not> bo_cancelled (bt_bots (delete_bot uid s) ! i)"
  then have "lookup_bot (bo_user (bt_bots s ! i)) s = Some i \<or> (bo_user (bt_bots s ! i), i) \<in> D"
    using bots_butD(3) [OF inv] by simp
  then show "lookup_bot (bo_user (bt_bots (delete_bot uid s) ! i)) (delete_bot uid s) = Some i
      \<or> (bo_user (bt_bots (delete_bot uid s) ! i), i) \<in> D"
    using i old by auto
qed (use bots_butD [OF inv] in \<open>auto split: if_splits\<close>)

lemma inv_stop_user_bot [inv_intros]:
  assumes inv: "bots_inv_but D s"
  shows "bots_inv_but D (snd (stop_user_bot uid s))"
proof (cases "lookup_bot uid s")
  case (Some i)
  let ?s = "upd_bot i (\<lambda>b. b\<lparr>bo_cancelled := True, bo_disconnected := True\<rparr>)
    (bfx [Bx_stop_calls uid ''user_removed''] (upd_bot i (\<lambda>b. b\<lparr>bo_stopped := True\<rparr>) s))"
  have "bots_inv_but D ?s" by (intro inv_upd_bot) (simp_all add: inv inv_upd_bot)
  moreover have "bo_cancelled (bt_bots ?s ! i)"
    using bots_butD(1) [OF inv Some] by (simp add: nth_update_at)
  ultimately have "bots_inv_but D (delete_bot uid ?s)"
    using Some by (intro inv_delete) auto
  then show ?thesis using Some inv by (simp add: stop_user_bot_def Let_def)
qed (simp add: stop_user_bot_def inv)

subsection \<open>Starting and restarting\<close>

text \<open>When a bot can be made for a user: what the row, the subscription, the key and the session must give.\<close>

definition can_start :: "bots_env \<Rightarrow> u32 \<Rightarrow> bots \<Rightarrow> wa_user \<Rightarrow> dev_store \<Rightarrow> bool" where
  "can_start e uid s u st \<longleftrightarrow>
     be_user e uid = Inr u \<and> wu_enabled u \<and> be_subscription e uid = Sub_ok \<and>
     (\<exists>session. fst (open_session e (wu_user u) (wu_session u) s) = Inr session
        \<and> parse_user_bot_container (be_parse e) session = Inr st)"

lemma check_subscription_ok: "be_subscription e uid = Sub_ok \<Longrightarrow> check_user_subscription e uid s = (None, s)"
  by (simp add: check_user_subscription_def)

lemma check_subscription_NoneD:
  "check_user_subscription e uid s = (None, s') \<Longrightarrow> be_subscription e uid = Sub_ok \<and> s' = s"
  by (auto simp: check_user_subscription_def Let_def split: subscription.splits option.splits)

lemma initialize_bot_store:
  "(case initialize_bot uid st a auto s of (i, s) \<Rightarrow> (r, store_bot uid i s)) =
   (r, store_bot uid (length (bt_bots s)) (snd (initialize_bot uid st a auto s)))"
  by (simp add: case_prod_unfold)

lemma start_user_bot_ok:
  assumes "lookup_bot uid s = None" "can_start e uid s u st"
  shows "\<exists>s1. same_bots s s1 \<and> start_user_bot e uid s =
    (None, store_bot (wu_user u) (length (bt_bots s)) (snd (initialize_bot (wu_user u) st (create_assistant_model u) True s1)))"
proof -
  obtain session s1 where o: "open_session e (wu_user u) (wu_session u) s = (Inr session, s1)"
    and p: "parse_user_bot_container (be_parse e) session = Inr st"
    using assms(2) unfolding can_start_def by (metis prod.collapse)
  have s1: "same_bots s s1" using open_session_same [of s e "wu_user u" "wu_session u"] o by simp
  then show ?thesis
    using assms o p by (intro exI [of _ s1])
      (simp add: start_user_bot_def can_start_def check_subscription_ok initialize_bot_store, simp add: same_bots_def)
qed

lemma start_user_bot_fails:
  assumes "\<not> (lookup_bot uid s = None \<and> (\<exists>u st. can_start e uid s u st))"
  shows "\<exists>err s'. start_user_bot e uid s = (Some err, s') \<and> same_bots s s'"
proof (cases "lookup_bot uid s = None")
  case True
  note free = this
  show ?thesis
  proof (cases "be_user e uid")
    case (Inr u)
    show ?thesis
    proof (cases "check_user_subscription e uid s")
      case (Pair r s')
      have same: "same_bots s s'" using check_subscription_same [of s e uid] Pair by simp
      show ?thesis
      proof (cases r)
        case None
        then have sub: "be_subscription e uid = Sub_ok" "s' = s"
          using check_subscription_NoneD Pair by blast+
        obtain opened s1 where o: "open_session e (wu_user u) (wu_session u) s = (opened, s1)" by fastforce
        have s1: "same_bots s s1" using open_session_same [of s e "wu_user u" "wu_session u"] o by simp
        show ?thesis
          using assms free Inr Pair None sub o s1
          by (cases opened; cases "wu_enabled u")
            (auto simp: start_user_bot_def can_start_def split: sum.split)
      qed (use free Inr Pair same in \<open>simp add: start_user_bot_def\<close>)
    qed
  qed (simp add: start_user_bot_def free)
qed (simp add: start_user_bot_def)

lemma inv_start_user_bot [inv_intros]:
  assumes inv: "bots_inv_but D s" and own: "own_row e"
  shows "bots_inv_but D (snd (start_user_bot e uid s))"
proof (cases "lookup_bot uid s = None \<and> (\<exists>u st. can_start e uid s u st)")
  case True
  then obtain u st where f: "lookup_bot uid s = None" and c: "can_start e uid s u st" by blast
  obtain s1 where s1: "same_bots s s1" "start_user_bot e uid s =
    (None, store_bot (wu_user u) (length (bt_bots s)) (snd (initialize_bot (wu_user u) st (create_assistant_model u) True s1)))"
    using start_user_bot_ok [OF f c] by blast
  have "wu_user u = uid" using own c by (simp add: own_row_def can_start_def)
  then have "bots_inv_but D (store_bot uid (length (bt_bots s)) (snd (initialize_bot uid st (create_assistant_model u) True s1)))"
    using inv f s1(1) by (intro inv_add) (auto simp: same_bots_def)
  then show ?thesis using s1 \<open>wu_user u = uid\<close> by simp
next
  case False
  then show ?thesis using start_user_bot_fails [OF False] inv by (auto simp: same_bots_inv)
qed

text \<open>Making a bot anew cancels the one that was registered.\<close>

lemma inv_recreate:
  assumes inv: "bots_inv_but D s"
  shows "bots_inv_but D (case create_or_update_bot uid st a s of (i, s) \<Rightarrow> store_bot uid i s)"
proof (cases "lookup_bot uid s")
  case None
  then show ?thesis
    using inv by (auto simp: create_or_update_bot_def case_prod_unfold intro!: inv_add)
next
  case (Some i)
  let ?s = "upd_bot i (\<lambda>b. b\<lparr>bo_cancelled := True\<rparr>) s"
  have "bots_inv_but D ?s" by (intro inv_upd_bot) (simp_all add: inv)
  moreover have "bo_cancelled (bt_bots ?s ! i)" using bots_butD(1) [OF inv Some] by (simp add: nth_update_at)
  ultimately have "bots_inv_but D (store_bot uid (length (bt_bots ?s)) (snd (initialize_bot uid st a True ?s)))"
    using Some by (intro inv_add) auto
  then show ?thesis using Some by (simp add: create_or_update_bot_def case_prod_unfold)
qed

lemma inv_rebuild_bot:
  assumes inv: "bots_inv_but D s"
  shows "bots_inv_but D (snd (rebuild_bot e uid u session s))"
proof (cases "check_user_subscription e uid s")
  case (Pair r s')
  have "bots_inv_but D s'" using check_subscription_same [of s e uid] Pair inv by (simp add: same_bots_inv)
  then show ?thesis
    using Pair inv_recreate [of D s' "wu_user u"]
    by (cases r; cases "parse_user_bot_container (be_parse e) session")
      (auto simp: rebuild_bot_def case_prod_unfold)
qed

lemma inv_stop_if_present: "bots_inv_but D s \<Longrightarrow> bots_inv_but D (snd (stop_if_present uid s))"
  by (simp add: stop_if_present_def inv_stop_user_bot)

lemma inv_restart_user_bot [inv_intros]:
  assumes inv: "bots_inv_but D s"
  shows "bots_inv_but D (snd (restart_user_bot e uid s))"
proof (cases "be_user e uid")
  case (Inr u)
  obtain opened s1 where o: "open_session e (wu_user u) (wu_session u) s = (opened, s1)" by fastforce
  have s1: "bots_inv_but D s1"
    using open_session_same [of s e "wu_user u" "wu_session u"] o inv by (simp add: same_bots_inv)
  obtain r s2 where stop: "stop_if_present uid s1 = (r, s2)" by fastforce
  have s2: "bots_inv_but D s2" using inv_stop_if_present [OF s1, of uid] stop by simp
  show ?thesis
    using Inr o s1 stop s2 inv_rebuild_bot [OF s2]
    by (cases opened; cases r) (simp_all add: restart_user_bot_def)
qed (simp add: restart_user_bot_def inv)

lemma inv_process_bot_state:
  assumes inv: "bots_inv_but D s"
  shows "bots_inv_but D (process_bot_state e u s)"
proof (cases "check_user_subscription e (wu_user u) s")
  case (Pair r s')
  have s': "bots_inv_but D s'" using check_subscription_same [of s e "wu_user u"] Pair inv by (simp add: same_bots_inv)
  obtain opened s1 where o: "open_session e (wu_user u) (wu_session u) s' = (opened, s1)" by fastforce
  have s1: "bots_inv_but D s1"
    using open_session_same [of s' e "wu_user u" "wu_session u"] o s' by (simp add: same_bots_inv)
  show ?thesis
    using inv Pair s' o s1 inv_recreate [OF s1, of "wu_user u"]
    by (cases r; cases opened) (auto simp: process_bot_state_def split: sum.split)
qed

lemma inv_start_bots [inv_intros]:
  assumes inv: "bots_inv_but D s"
  shows "bots_inv_but D (snd (start_bots e s))"
proof -
  have "bots_inv_but D (fold (process_bot_state e) us s)" for us
    using inv by (induction us arbitrary: s) (auto intro: inv_process_bot_state)
  then show ?thesis using inv by (simp add: start_bots_def split: sum.split)
qed

lemma inv_connect_bot [inv_intros]: "bots_inv_but D s \<Longrightarrow> bots_inv_but D (connect_bot e i s)"
  by (auto simp: connect_bot_def Let_def intro!: inv_upd_bot split: option.split)

lemma inv_reset_session [inv_intros]: "bots_inv_but D s \<Longrightarrow> bots_inv_but D (reset_session i s)"
  by (auto simp: reset_session_def Let_def intro!: inv_upd_bot)

lemma inv_reauth_effect: "bots_inv_but D s \<Longrightarrow> bots_inv_but D (reauth_effect i st s)"
  by (cases st) (simp_all add: reauth_effect_def Let_def inv_reset_session)

lemma inv_trigger_reauth [inv_intros]:
  assumes "bots_inv_but D s"
  shows "bots_inv_but D (snd (trigger_reauth e i s))"
proof -
  have "bots_inv_but D (fold (reauth_effect i) steps s)" for steps
    using assms by (induction steps arbitrary: s) (auto intro: inv_reauth_effect)
  then show ?thesis by (simp add: trigger_reauth_def Let_def case_prod_unfold)
qed

lemma inv_stop_bot: "bots_inv_but D s \<Longrightarrow> bots_inv_but D (stop_bot i s)"
  unfolding stop_bot_def by (auto intro!: inv_upd_bot)

lemma inv_stop_all_bots [inv_intros]: "bots_inv_but D s \<Longrightarrow> bots_inv_but D (stop_all_bots is s)"
  unfolding stop_all_bots_def by (induction "is" arbitrary: s) (simp_all add: inv_stop_bot)

lemma restore_settings_same: "same_bots s (snd (restore_settings e uid st s))"
proof (cases "be_user e uid")
  case (Inr u)
  obtain r keys notify where d:
    "decrypt_session_data (be_rpc e) (be_decrypt e) (be_now e) (be_now e) uid (wu_session u) (bt_keys s) = (r, keys, notify)"
    using prod_cases3 by blast
  have k: "same_bots s (s\<lparr>bt_keys := keys\<rparr>)" by (simp add: same_bots_def)
  show ?thesis
    using Inr d k by (cases notify) (auto simp: restore_settings_def Let_def split: sum.split)
qed (simp add: restore_settings_def)

lemma ensure_auth_bot_cases:
  "(\<exists>r. ensure_auth_bot e fresh uid s = (r, s) \<and> (\<forall>i. lookup_bot uid s = Some i \<longrightarrow> r = Inr i)) \<or>
   (\<exists>st s1. lookup_bot uid s = None \<and> same_bots s s1 \<and> ensure_auth_bot e fresh uid s =
      (Inr (length (bt_bots s1)), store_bot uid (length (bt_bots s1)) (snd (initialize_bot uid st (auth_assistant uid) False s1))))"
proof (cases "lookup_bot uid s")
  case None
  show ?thesis
  proof (cases "new_dev_store fresh")
    case (Inr st)
    obtain st' s1 where r: "restore_settings e uid st s = (st', s1)" by fastforce
    then have "same_bots s s1" using restore_settings_same [of s e uid st] by simp
    moreover have "ensure_auth_bot e fresh uid s =
        (Inr (length (bt_bots s1)), store_bot uid (length (bt_bots s1)) (snd (initialize_bot uid st' (auth_assistant uid) False s1)))"
      using None Inr r by (simp add: ensure_auth_bot_def case_prod_unfold)
    ultimately show ?thesis using None by blast
  qed (simp add: ensure_auth_bot_def None)
qed (simp add: ensure_auth_bot_def)

lemma inv_ensure_auth_bot [inv_intros]:
  assumes inv: "bots_inv_but D s"
  shows "bots_inv_but D (snd (ensure_auth_bot e fresh uid s))"
  using ensure_auth_bot_cases [of e fresh uid s]
proof (elim disjE exE conjE)
  fix st s1
  assume "lookup_bot uid s = None" and same: "same_bots s s1" and e: "ensure_auth_bot e fresh uid s =
    (Inr (length (bt_bots s1)), store_bot uid (length (bt_bots s1)) (snd (initialize_bot uid st (auth_assistant uid) False s1)))"
  then have "lookup_bot uid s1 = None" "bots_inv_but D s1"
    using inv by (simp_all add: same_bots_lookup same_bots_inv)
  then show ?thesis unfolding e by (auto intro!: inv_add)
qed (simp add: inv)

lemma inv_prepare_reauth [inv_intros]: "bots_inv_but D s \<Longrightarrow> bots_inv_but D (prepare_reauth i s)"
  by (auto simp: prepare_reauth_def intro!: inv_upd_bot)

lemma inv_set_auth_settings [inv_intros]: "bots_inv_but D s \<Longrightarrow> bots_inv_but D (set_auth_settings txt call i s)"
  by (auto simp: set_auth_settings_def intro!: inv_upd_bot)

lemma inv_delete_bot: "bots_inv_but D s \<Longrightarrow> bots_inv_but (D \<union> dropped_by (Op_delete u) s) (delete_bot u s)"
  by (rule bots_butI) (use bots_butD [of D s] in \<open>fastforce simp: dropped_by_def split: if_splits option.split\<close>)+

lemma inv_bots_step: "bots_inv_but D s \<Longrightarrow> op_env_ok op \<Longrightarrow> bots_inv_but (D \<union> dropped_by op s) (bots_step op s)"
  by (cases op) (use inv_delete_bot in \<open>auto simp: dropped_by_def intro: inv_intros\<close>)

lemma inv_bots_run:
  "list_all op_env_ok ops \<Longrightarrow> bots_inv_but D s \<Longrightarrow> bots_inv_but (D \<union> dropped_bots ops s) (fold bots_step ops s)"
proof (induction ops arbitrary: D s)
  case (Cons op ops)
  then show ?case using Cons.IH [OF _ inv_bots_step [of D s op]] by (simp add: Un_assoc)
qed simp

text \<open>Only the users for whom \<open>DeleteBot\<close> was called have dropped bots.\<close>

lemma dropped_users: "(u, i) \<in> dropped_bots ops s \<Longrightarrow> Op_delete u \<in> set ops"
  by (induction ops arbitrary: s) (auto simp: dropped_by_def split: bots_op.splits option.splits)

lemma inv_no_bots [simp]: "bots_inv no_bots"
  by (simp add: bots_inv_def no_bots_def lookup_bot_def)

lemma stop_if_present_result:
  assumes inv: "bots_inv s"
  shows "\<exists>s2. stop_if_present uid s = (None, s2) \<and> length (bt_bots s2) = length (bt_bots s)
    \<and> (\<forall>w. w \<noteq> uid \<longrightarrow> lookup_bot w s2 = lookup_bot w s) \<and> (lookup_bot uid s2 = None \<or> s2 = s)
    \<and> (\<forall>i. lookup_bot uid s = Some i \<longrightarrow> lookup_bot uid s2 = None \<longrightarrow> bo_cancelled (bt_bots s2 ! i))
    \<and> (\<forall>i. lookup_bot uid s = Some i \<longrightarrow> \<not> bo_stopped (bt_bots s ! i) \<longrightarrow> lookup_bot uid s2 = None)"
proof (cases "lookup_bot uid s")
  case (Some i)
  have i: "i < length (bt_bots s)" by (rule bots_invD(1) [OF inv Some])
  show ?thesis
    using Some i by (cases "bo_stopped (bt_bots s ! i)")
      (auto simp: stop_if_present_def stop_user_bot_def Let_def nth_update_at)
qed (simp add: stop_if_present_def)

lemma rebuild_bot_lookup:
  assumes "w \<noteq> wu_user u"
  shows "lookup_bot w (snd (rebuild_bot e uid u session s)) = lookup_bot w s"
proof (cases "check_user_subscription e uid s")
  case (Pair r s')
  have s': "lookup_bot w s' = lookup_bot w s"
    using same_bots_lookup check_subscription_same [of s e uid] Pair by auto
  show ?thesis
    using Pair assms s' by (cases r; cases "parse_user_bot_container (be_parse e) session"; cases "lookup_bot (wu_user u) s'")
      (auto simp: rebuild_bot_def create_or_update_bot_def case_prod_unfold)
qed

lemma rebuild_bot_ok:
  assumes inv: "bots_inv s" and sub: "be_subscription e uid = Sub_ok" and u: "wu_user u = uid"
    and parse: "parse_user_bot_container (be_parse e) session = Inr st"
  shows "\<exists>s'. rebuild_bot e uid u session s = (None, s') \<and> lookup_bot uid s' = Some (length (bt_bots s))
    \<and> bt_bots s' ! length (bt_bots s) = fresh_bot uid st (create_assistant_model u)
    \<and> (\<forall>i. lookup_bot uid s = Some i \<longrightarrow> bo_cancelled (bt_bots s' ! i))
    \<and> (\<forall>i < length (bt_bots s). bo_cancelled (bt_bots s ! i) \<longrightarrow> bo_cancelled (bt_bots s' ! i))"
proof (cases "lookup_bot uid s")
  case None
  then show ?thesis
    using assms by (simp add: rebuild_bot_def check_subscription_ok create_or_update_bot_def case_prod_unfold nth_append)
next
  case (Some i)
  have i: "i < length (bt_bots s)" by (rule bots_invD(1) [OF inv Some])
  show ?thesis
    using assms Some i
    by (simp add: rebuild_bot_def check_subscription_ok create_or_update_bot_def case_prod_unfold nth_append
        nth_append_right nth_update_at)
qed

subsection \<open>Properties\<close>

text \<open>An environment for the concrete instances: everybody has an enabled bot and a subscription.\<close>

definition example_bots_env :: bots_env where
  "example_bots_env = \<lparr>be_user = (\<lambda>uid. Inr \<lparr>wu_user = uid, wu_session = ''{}'', wu_enabled = True, wu_name = [],
       wu_assistant = [], wu_provider = 0, wu_meta = [], wu_triggers = [], wu_limit = 0, wu_espero = 0,
       wu_ignore = False, wu_events = \<lparr>nt_start = False, nt_end = False, nt_target = False\<rparr>\<rparr>),
     be_users = Inr [], be_subscription = (\<lambda>_. Sub_ok), be_notify = (\<lambda>_ _. None), be_disable_all = (\<lambda>_. None),
     be_disable_channel = (\<lambda>_. None), be_encrypted = (\<lambda>_. False), be_rpc = None, be_decrypt = (\<lambda>_ _. Inl []),
     be_now = 0, be_parse = example_parse_env, be_settings = (\<lambda>_. Inl []), be_connect = Conn_ok\<rparr>"

lemma example_own_row: "own_row example_bots_env"
  by (simp add: own_row_def example_bots_env_def)

lemma example_can_start: "\<exists>u st. wu_user u = uid \<and> can_start example_bots_env uid s u st"
  by (simp add: can_start_def example_bots_env_def open_session_def parse_user_bot_container_def example_parse_env_def
      parse_device_data_def example_data_def parse_device_jid_def ensure_adv_secret_key_def fill_base_device_fields_def)


text \<open>C15: \<open>StartUserBot\<close> succeeds exactly when the user has no bot yet, the channel is enabled, the subscription
  is valid and the stored session can be opened and parsed. It then makes one bot with the settings of the
  session and registers it under the row's user; on any error no bot is made, stopped or registered.\<close>

theorem start_user_bot_correct:
  "(case start_user_bot e uid s of
      (Some _, s') \<Rightarrow> same_bots s s' \<and> \<not> (lookup_bot uid s = None \<and> (\<exists>u st. can_start e uid s u st))
    | (None, s') \<Rightarrow> lookup_bot uid s = None \<and>
        (\<exists>u st. can_start e uid s u st \<and> bt_bots s' = bt_bots s @ [fresh_bot (wu_user u) st (create_assistant_model u)]
           \<and> (\<forall>w. lookup_bot w s' = (if w = wu_user u then Some (length (bt_bots s)) else lookup_bot w s))))"
proof (cases "lookup_bot uid s = None \<and> (\<exists>u st. can_start e uid s u st)")
  case True
  then obtain u st where f: "lookup_bot uid s = None" and c: "can_start e uid s u st" by blast
  obtain s1 where s1: "same_bots s s1" "start_user_bot e uid s =
    (None, store_bot (wu_user u) (length (bt_bots s)) (snd (initialize_bot (wu_user u) st (create_assistant_model u) True s1)))"
    using start_user_bot_ok [OF f c] by blast
  show ?thesis
    using f c s1 by (auto simp: same_bots_lookup [OF s1(1)] same_bots_def intro!: exI [of _ u] exI [of _ st])
next
  case False
  then show ?thesis using start_user_bot_fails [OF False] by (auto simp del: not_None_eq)
qed

text \<open>What becomes of the user's old bot: \<open>stop_if_present\<close> leaves a stopped one as it is and registered.\<close>

definition taken_down :: "u32 \<Rightarrow> bots \<Rightarrow> bots \<Rightarrow> bool" where
  "taken_down uid s s' \<longleftrightarrow>
     (case lookup_bot uid s of
        None \<Rightarrow> bt_bots s' = bt_bots s \<and> lookup_bot uid s' = None
      | Some i \<Rightarrow>
          if bo_stopped (bt_bots s ! i) then bt_bots s' = bt_bots s \<and> lookup_bot uid s' = Some i
          else bt_bots s' = update_at (\<lambda>b. b\<lparr>bo_stopped := True, bo_cancelled := True, bo_disconnected := True\<rparr>) i (bt_bots s)
            \<and> lookup_bot uid s' = None)"

text \<open>And when a new one takes its place: a stopped one is cancelled as well.\<close>

definition retired_bots :: "u32 \<Rightarrow> bots \<Rightarrow> bot list" where
  "retired_bots uid s =
     (case lookup_bot uid s of
        None \<Rightarrow> bt_bots s
      | Some i \<Rightarrow> update_at (\<lambda>b. if bo_stopped b then b\<lparr>bo_cancelled := True\<rparr>
            else b\<lparr>bo_stopped := True, bo_cancelled := True, bo_disconnected := True\<rparr>) i (bt_bots s))"

lemma taken_down_same: "same_bots s1 s \<Longrightarrow> same_bots s2 s3 \<Longrightarrow> taken_down uid s s2 = taken_down uid s1 s3"
  by (cases "lookup_bot uid s1") (simp_all add: taken_down_def same_bots_def lookup_bot_def cong: if_cong)

lemma stop_if_present_down:
  obtains s2 where "stop_if_present uid s = (None, s2)" "taken_down uid s s2" "\<And>w. w \<noteq> uid \<Longrightarrow> lookup_bot w s2 = lookup_bot w s"
proof (cases "lookup_bot uid s")
  case (Some i)
  then show ?thesis
    by (cases "bo_stopped (bt_bots s ! i)")
      (auto simp: stop_if_present_def stop_user_bot_def taken_down_def Let_def comp_def intro!: that)
qed (auto simp: stop_if_present_def taken_down_def intro: that)

lemma check_subscription_result: "fst (check_user_subscription e uid s) = fst (check_user_subscription e uid s')"
  by (auto simp: check_user_subscription_def Let_def split: subscription.split option.split)

lemma rebuild_bot_exact:
  assumes "bots_inv s" "taken_down uid s s2" "wu_user u = uid" "be_subscription e uid = Sub_ok"
    and "parse_user_bot_container (be_parse e) session = Inr st"
  shows "\<exists>s'. rebuild_bot e uid u session s2 = (None, s')
    \<and> bt_bots s' = retired_bots uid s @ [fresh_bot uid st (create_assistant_model u)]
    \<and> lookup_bot uid s' = Some (length (bt_bots s))"
proof -
  have old: "(case lookup_bot uid s2 of Some i \<Rightarrow> update_at (\<lambda>b. b\<lparr>bo_cancelled := True\<rparr>) i (bt_bots s2) | None \<Rightarrow> bt_bots s2)
      = retired_bots uid s"
    using assms(2) bots_invD(1) [OF assms(1), of uid]
    by (auto simp: taken_down_def retired_bots_def update_at_def split: option.splits if_splits)
  have "length (retired_bots uid s) = length (bt_bots s)" by (simp add: retired_bots_def split: option.split)
  then show ?thesis
    using assms(3-) old
    by (cases "lookup_bot uid s2")
      (auto simp: rebuild_bot_def check_subscription_ok create_or_update_bot_def case_prod_unfold)
qed

text \<open>C14: \<open>RestartUserBot\<close> on each of its branches. If the row cannot be read or its session not opened, nothing
  happens to any bot. Otherwise the user's bot is taken down, a stopped one excepted; then a user whose channel is disabled,
  whose subscription is refused or whose session cannot be parsed has no new bot, and any other has a fresh one in the
  place of the old one, which is cancelled. The other users keep their bots.\<close>

theorem restart_user_bot_correct:
  assumes "bots_inv s" "own_row e" "restart_user_bot e uid s = (r, s')"
  shows "(\<forall>w. w \<noteq> uid \<longrightarrow> lookup_bot w s' = lookup_bot w s)
    \<and> (case be_user e uid of
         Inl err \<Rightarrow> r = Some (Bot_db_failed err) \<and> s' = s
       | Inr u \<Rightarrow>
           (case fst (open_session e uid (wu_session u) s) of
              Inl err \<Rightarrow> r = Some (Bot_decrypt err) \<and> same_bots s s'
            | Inr session \<Rightarrow>
                if \<not> wu_enabled u then r = Some (Bot_disabled uid) \<and> taken_down uid s s'
                else (case fst (check_user_subscription e uid s) of
                   Some err \<Rightarrow> r = Some (Bot_subscription err) \<and> taken_down uid s s'
                 | None \<Rightarrow>
                     (case parse_user_bot_container (be_parse e) session of
                        Inl err \<Rightarrow> r = Some (Bot_token err) \<and> taken_down uid s s'
                      | Inr st \<Rightarrow> r = None
                          \<and> bt_bots s' = retired_bots uid s @ [fresh_bot uid st (create_assistant_model u)]
                          \<and> lookup_bot uid s' = Some (length (bt_bots s))))))"
proof (cases "be_user e uid")
  case (Inr u)
  then have u: "wu_user u = uid" using assms(2) by (simp add: own_row_def)
  obtain opened s1 where o: "open_session e uid (wu_session u) s = (opened, s1)" by fastforce
  have s1: "same_bots s s1" using open_session_same [of s e uid "wu_session u"] o by simp
  obtain s2 where stop: "stop_if_present uid s1 = (None, s2)" "taken_down uid s1 s2"
    "\<And>w. w \<noteq> uid \<Longrightarrow> lookup_bot w s2 = lookup_bot w s1" by (rule stop_if_present_down) blast
  have down: "taken_down uid s s3" if "same_bots s2 s3" for s3
    using stop(2) taken_down_same [OF s1 that] by simp
  have others: "lookup_bot w s2 = lookup_bot w s" if "w \<noteq> uid" for w
    using that stop(3) by (simp add: same_bots_lookup [OF s1])
  obtain c s3 where c: "check_user_subscription e uid s2 = (c, s3)" by fastforce
  have s3: "same_bots s2 s3" using check_subscription_same [of s2 e uid] c by simp
  have fc: "fst (check_user_subscription e uid s) = c" using check_subscription_result [of e uid s s2] c by simp
  note run = Inr o u stop(1) c s3 down fc
  show ?thesis
  proof (cases opened)
    case (Inl err)
    then have "r = Some (Bot_decrypt err)" "s' = s1" using run(1-3) assms(3) by (auto simp: restart_user_bot_def)
    then show ?thesis using Inl run(1-3) s1 by (simp add: same_bots_lookup [OF s1])
  next
    case session: (Inr session)
    show ?thesis
    proof (cases "wu_enabled u \<and> c = None")
      case True
      then have sub: "be_subscription e uid = Sub_ok" "s3 = s2" using check_subscription_NoneD c by blast+
      have r: "rebuild_bot e uid u session s2 = (r, s')" using True run(1-4) session assms(3) by (simp add: restart_user_bot_def)
      have "\<forall>w. w \<noteq> uid \<longrightarrow> lookup_bot w s' = lookup_bot w s" using rebuild_bot_lookup [of _ u e uid session s2] u r others by simp
      note here = this True session run(1,2,3) fc
      show ?thesis
      proof (cases "parse_user_bot_container (be_parse e) session")
        case (Inl err)
        then show ?thesis using here r c sub down [of s2] by (auto simp: rebuild_bot_def)
      next
        case parsed: (Inr st)
        have "bt_bots s' = retired_bots uid s @ [fresh_bot uid st (create_assistant_model u)]
            \<and> lookup_bot uid s' = Some (length (bt_bots s)) \<and> r = None"
          using rebuild_bot_exact [OF assms(1) down [of s2] u sub(1) parsed] r by auto
        then show ?thesis using here parsed by simp
      qed
    next
      case False
      then have "s' = (if wu_enabled u then s3 else s2)"
        using session run assms(3) by (auto simp: restart_user_bot_def rebuild_bot_def split: option.splits)
      then have "\<forall>w. w \<noteq> uid \<longrightarrow> lookup_bot w s' = lookup_bot w s"
        using others by (simp add: same_bots_lookup [OF s3])
      then show ?thesis
        using False session run assms(3) by (auto simp: restart_user_bot_def rebuild_bot_def split: option.splits)
    qed
  qed
qed (use assms(3) in \<open>simp add: restart_user_bot_def\<close>)

lemma no_bots_empty [simp]: "bt_bots no_bots = []"
  by (simp add: no_bots_def)

theorem restart_user_bot_correct_witness:
  "\<exists>s'. restart_user_bot example_bots_env 7 no_bots = (None, s') \<and> lookup_bot 7 s' = Some 0"
proof -
  obtain u st where u: "wu_user u = 7" "can_start example_bots_env 7 no_bots u st" using example_can_start by blast
  then have row: "be_user example_bots_env 7 = Inr u"
    "fst (open_session example_bots_env 7 (wu_session u) no_bots) = Inr (wu_session u)"
    by (auto simp: can_start_def example_bots_env_def open_session_def)
  show ?thesis
    using restart_user_bot_correct [OF inv_no_bots example_own_row surjective_pairing, of 7] row u
    by (intro exI [of _ "snd (restart_user_bot example_bots_env 7 no_bots)"])
      (auto simp: can_start_def check_subscription_ok prod_eq_iff)
qed


text \<open>A bot whose connection fails for any reason has its channel disabled and is marked as stopped, but
  stays registered, and then stopping and starting it any number of times changes nothing: stopping
  reports success and leaves it, starting is refused because it is already running.\<close>

theorem failed_connection_sticks:
  assumes "bots_inv s" "lookup_bot uid s = Some i" "bot_connect (be_connect e) (bt_bots s ! i) \<noteq> None"
    and "s' = connect_bot e i s" "list_all (\<lambda>op. op = Op_stop uid \<or> (\<exists>e. op = Op_start e uid)) ops"
  shows "Bx_disable_channel uid \<in> set (bt_fx s') \<and> bot_state uid s' = (True, True)
    \<and> fold bots_step ops s' = s' \<and> stop_user_bot uid s' = (None, s')
    \<and> start_user_bot e' uid s' = (Some (Bot_already_running uid), s')"
proof -
  have i: "i < length (bt_bots s)" "bo_user (bt_bots s ! i) = uid" using bots_invD(1,2) [OF assms(1,2)] by auto
  have l: "lookup_bot uid s' = Some i" "bo_stopped (bt_bots s' ! i)" "Bx_disable_channel uid \<in> set (bt_fx s')"
    using assms(2,3) i unfolding assms(4) by (auto simp: connect_bot_def Let_def nth_update_at split: option.split)
  have stop: "stop_user_bot uid s' = (None, s')"
    and start: "start_user_bot e' uid s' = (Some (Bot_already_running uid), s')" for e'
    using l by (simp_all add: stop_user_bot_def start_user_bot_def)
  have "fold bots_step ops s' = s'"
    using assms(5) by (induction ops) (auto simp: stop start)
  then show ?thesis using l stop start by (simp add: bot_state_def)
qed

theorem failed_connection_sticks_witness:
  "\<exists>s. bot_state 7 s = (True, True) \<and> fold bots_step [Op_stop 7, Op_start example_bots_env 7] s = s
     \<and> Bx_disable_channel 7 \<in> set (bt_fx s)"
proof -
  let ?e = "example_bots_env\<lparr>be_connect := Conn_failed ''network''\<rparr>"
  have inv: "bots_inv (snd (start_user_bot example_bots_env 7 no_bots))"
    by (rule inv_start_user_bot [OF inv_no_bots example_own_row])
  have "lookup_bot 7 (snd (start_user_bot example_bots_env 7 no_bots)) = Some 0"
  proof -
    obtain u st where u: "wu_user u = 7" "can_start example_bots_env 7 no_bots u st" using example_can_start by blast
    have "lookup_bot 7 no_bots = None" by (simp add: no_bots_def lookup_bot_def)
    from start_user_bot_ok [OF this u(2)] u(1) show ?thesis by (auto simp: no_bots_def)
  qed
  moreover have "bot_connect (be_connect ?e) b \<noteq> None" for b by (simp add: bot_connect_def)
  ultimately have "bot_state 7 (connect_bot ?e 0 (snd (start_user_bot example_bots_env 7 no_bots))) = (True, True)"
    "fold bots_step [Op_stop 7, Op_start example_bots_env 7] (connect_bot ?e 0 (snd (start_user_bot example_bots_env 7 no_bots)))
      = connect_bot ?e 0 (snd (start_user_bot example_bots_env 7 no_bots))"
    "Bx_disable_channel 7 \<in> set (bt_fx (connect_bot ?e 0 (snd (start_user_bot example_bots_env 7 no_bots))))"
    using failed_connection_sticks [OF inv, of 7 0 ?e _ "[Op_stop 7, Op_start example_bots_env 7]"] by auto
  then show ?thesis by blast
qed

text \<open>Asking a bot for a new authorisation runs all three steps whatever fails: the user is notified, the
  channel disabled, the calls ended, and the bot stopped, cancelled and disconnected; the first failure is
  the one reported, and no other bot is touched.\<close>

theorem trigger_reauth_correct:
  assumes "i < length (bt_bots s)" "bo_user (bt_bots s ! i) = uid" "uid \<noteq> 0" "trigger_reauth e i s = (r, s')"
  shows "r = (case be_notify e uid ''reauth'' of Some t \<Rightarrow> Some (Reauth_notify t)
                | None \<Rightarrow> map_option Reauth_disable (be_disable_channel e uid))
    \<and> prefix (bt_fx s @ [Bx_notify uid ''reauth'' ''WhatsApp User'', Bx_disable_channel uid,
        Bx_stop_calls uid ''session_reset'']) (bt_fx s')
    \<and> bo_stopped (bt_bots s' ! i) \<and> bo_cancelled (bt_bots s' ! i) \<and> bo_disconnected (bt_bots s' ! i)
    \<and> (\<forall>j. j \<noteq> i \<longrightarrow> bt_bots s' ! j = bt_bots s ! j) \<and> bt_map s' = bt_map s"
  using assms by (auto simp: trigger_reauth_def run_reauth_def reauth_effect_def reset_session_def Let_def
      nth_update_at prefix_def split: option.splits)

theorem trigger_reauth_correct_witness:
  "\<exists>b s'. trigger_reauth (example_bots_env\<lparr>be_notify := (\<lambda>_ _. Some ''down'')\<rparr>) 0 (no_bots\<lparr>bt_bots := [fresh_bot 7 b (auth_assistant 7)]\<rparr>)
       = (Some (Reauth_notify ''down''), s') \<and> bo_stopped (bt_bots s' ! 0)"
proof -
  let ?e = "example_bots_env\<lparr>be_notify := (\<lambda>_ _. Some ''down'')\<rparr>"
  let ?s = "no_bots\<lparr>bt_bots := [fresh_bot 7 undefined (auth_assistant 7)]\<rparr>"
  obtain r s' where t: "trigger_reauth ?e 0 ?s = (r, s')" by fastforce
  show ?thesis using trigger_reauth_correct [OF _ _ _ t, of 7] t by auto
qed

lemma set_numbers_of: "x \<in> set (numbers_of ws) \<longleftrightarrow> list_ex (\<lambda>w. parse_int 64 w = Inr x) ws"
  by (induction ws) (auto split: sum.split)

text \<open>The list of allowed users of a bot admits exactly the senders it names; but when it names no number
  that can be parsed, empty or not, it admits everybody.\<close>

theorem allow_list_correct:
  "allowed_uid (bo_uids (fresh_bot uid st a)) sid \<longleftrightarrow>
     (if list_ex (\<lambda>w. \<exists>n. parse_int 64 w = Inr n) (str_fields (ds_uids st))
      then list_ex (\<lambda>w. parse_int 64 w = Inr (sint sid)) (str_fields (ds_uids st)) else True)"
proof -
  have "numbers_of ws = [] \<longleftrightarrow> \<not> list_ex (\<lambda>w. \<exists>n. parse_int 64 w = Inr n) ws" for ws
    by (induction ws) (auto split: sum.split)
  then show ?thesis
    by (auto simp: allowed_uid_def fresh_bot_def parse_uids_def set_numbers_of str_fields_def)
qed

end
