(* ===== verification/Call_Service.thy ===== *)
theory Call_Service
  imports Call_Safety Bot_Registry
begin

section \<open>Calls of the users (bot_calls.go, user_calls.go, delivery/rpc/server.go)\<close>

text \<open>
  A bot is the host of its call manager: the manager's questions about permissions are answered from the
  bot. \<open>User\<close> passes an operation to the bot of the user, and the gRPC server checks the request first.
  The managers of the bots are a list beside the list of the bots, with the same indices.

  \<open>call_env\<close> stays the answers of the libraries; \<open>host_of\<close> puts the bot's own answers into it. Spaces are
  the ASCII ones. A request is \<open>None\<close> when it is nil. Of the gRPC library only the errors' codes appear.
\<close>

subsection \<open>The bot as host\<close>

definition is_call_allowed :: "int list \<Rightarrow> string \<Rightarrow> bool" where
  "is_call_allowed uids user =
     (if uids = [] then True
      else case parse_int 64 user of
        Inl _ \<Rightarrow> False
      | Inr uid \<Rightarrow> uid \<in> set uids)"

text \<open>"the Start core is not configured".\<close>

definition no_start_text :: string where
  "no_start_text = map char_of [209, 143, 208, 180, 209, 128, 208, 190, 32, 83, 116, 97, 114,
     116, 32, 208, 189, 208, 181, 32, 209, 129, 208, 186, 208, 190, 208, 189, 209, 132, 208,
     184, 208, 179, 209, 131, 209, 128, 208, 184, 209, 128, 208, 190, 208, 178, 208, 176, 208,
     189, 208, 190 :: nat]"

text \<open>\<open>StartSession\<close>: without the core the channel holds an error.\<close>

definition bot_start_session ::
  "(u64 \<Rightarrow> u64 \<Rightarrow> bool \<times> early_error) option \<Rightarrow> u64 \<Rightarrow> u64 \<Rightarrow> bool \<times> early_error" where
  "bot_start_session start =
     (case start of None \<Rightarrow> (\<lambda>_ _. (False, Error_value no_start_text)) | Some f \<Rightarrow> f)"

text \<open>\<open>getRealtimeProvider\<close>: the model itself, else the model's router.\<close>

definition get_realtime_provider :: "bool \<Rightarrow> (u32 \<Rightarrow> bool) option \<Rightarrow> u32 \<Rightarrow> bool" where
  "get_realtime_provider direct router uid = (if direct then True else case router of Some f \<Rightarrow> f uid | None \<Rightarrow> False)"

record host_env =
  he_calls :: call_env
  he_start :: "(u64 \<Rightarrow> u64 \<Rightarrow> bool \<times> early_error) option"
  he_direct :: bool
  he_router :: "(u32 \<Rightarrow> bool) option"

definition host_of :: "host_env \<Rightarrow> bot \<Rightarrow> call_env" where
  "host_of e b = (he_calls e)
     \<lparr>env_voice_calls := bo_voice b, env_stopped := bo_stopped b, env_allowed := is_call_allowed (bo_uids b),
      env_start_session := bot_start_session (he_start e),
      env_provider := get_realtime_provider (he_direct e) (he_router e) (bo_user b)\<rparr>"

subsection \<open>The users' operations\<close>

record call_service =
  sv_bots :: bots
  sv_calls :: "call_manager list"

datatype service_error = No_bot_of u32 | Call_error call_error

definition bot_for_user :: "u32 \<Rightarrow> call_service \<Rightarrow> service_error + nat" where
  "bot_for_user uid sv = (case lookup_bot uid (sv_bots sv) of None \<Rightarrow> Inl (No_bot_of uid) | Some i \<Rightarrow> Inr i)"

definition set_calls :: "nat \<Rightarrow> call_manager \<Rightarrow> call_service \<Rightarrow> call_service" where
  "set_calls i m sv = sv\<lparr>sv_calls := (sv_calls sv)[i := m]\<rparr>"

definition initiate_outgoing_call ::
  "host_env \<Rightarrow> u32 \<Rightarrow> string \<Rightarrow> bool \<Rightarrow> string list \<Rightarrow> call_service \<Rightarrow> (service_error + string) \<times> call_service" where
  "initiate_outgoing_call e uid target handler ks sv =
     (case bot_for_user uid sv of
        Inl err \<Rightarrow> (Inl err, sv)
      | Inr i \<Rightarrow>
          (case initiate_outgoing (host_of e (bt_bots (sv_bots sv) ! i)) target handler ks (sv_calls sv ! i) of
             (r, m) \<Rightarrow> (map_sum Call_error (\<lambda>k. k) r, set_calls i m sv)))"

definition hangup_call :: "host_env \<Rightarrow> u32 \<Rightarrow> string \<Rightarrow> call_service \<Rightarrow> service_error option \<times> call_service" where
  "hangup_call e uid call_id sv =
     (case bot_for_user uid sv of
        Inl err \<Rightarrow> (Some err, sv)
      | Inr i \<Rightarrow>
          (case hangup (host_of e (bt_bots (sv_bots sv) ! i)) call_id (sv_calls sv ! i) of
             (r, m) \<Rightarrow> (map_option Call_error r, set_calls i m sv)))"

definition user_active_calls :: "u32 \<Rightarrow> call_service \<Rightarrow> service_error + string list" where
  "user_active_calls uid sv =
     (case bot_for_user uid sv of Inl err \<Rightarrow> Inl err | Inr i \<Rightarrow> Inr (active_call_ids (sv_calls sv ! i)))"

definition subscribe_call_events ::
  "u32 \<Rightarrow> string \<Rightarrow> u64 \<Rightarrow> call_service \<Rightarrow> (service_error + nat \<times> nat) \<times> call_service" where
  "subscribe_call_events uid call_id after sv =
     (case bot_for_user uid sv of
        Inl err \<Rightarrow> (Inl err, sv)
      | Inr i \<Rightarrow>
          (case subscribe_call call_id after (sv_calls sv ! i) of
             (r, m) \<Rightarrow> (map_sum Call_error (\<lambda>k. k) r, set_calls i m sv)))"

subsection \<open>The gRPC server\<close>

datatype rpc_failure = Invalid_argument string | Not_found service_error | Rpc_error service_error

record start_request =
  sr_user :: u32
  sr_target :: string

record start_response =
  ss_call_id :: string
  ss_status :: string
  ss_provider :: string

text \<open>\<open>provider\<close> is the text of the value the database gave, also when it gave an error beside it.\<close>

definition start_outgoing_call ::
  "host_env \<Rightarrow> string \<Rightarrow> string list \<Rightarrow> start_request option \<Rightarrow> call_service
   \<Rightarrow> (rpc_failure + start_response) \<times> call_service" where
  "start_outgoing_call e provider ks rq sv =
     (case rq of
        None \<Rightarrow> (Inl (Invalid_argument ''user_id and target are required''), sv)
      | Some q \<Rightarrow>
          if sr_user q = 0 \<or> trim_space (sr_target q) = [] then
            (Inl (Invalid_argument ''user_id and target are required''), sv)
          else
            (case initiate_outgoing_call e (sr_user q) (trim_space (sr_target q)) False ks sv of
               (Inl err, sv) \<Rightarrow> (Inl (Rpc_error err), sv)
             | (Inr k, sv) \<Rightarrow> (Inr \<lparr>ss_call_id = k, ss_status = ''starting'', ss_provider = provider\<rparr>, sv)))"

record call_request =
  cr_user :: u32
  cr_call_id :: string
  cr_after :: u64

definition hangup_rpc ::
  "host_env \<Rightarrow> call_request option \<Rightarrow> call_service \<Rightarrow> (rpc_failure + string \<times> string) \<times> call_service" where
  "hangup_rpc e rq sv =
     (case rq of
        None \<Rightarrow> (Inl (Invalid_argument ''user_id and call_id are required''), sv)
      | Some q \<Rightarrow>
          if cr_user q = 0 \<or> trim_space (cr_call_id q) = [] then
            (Inl (Invalid_argument ''user_id and call_id are required''), sv)
          else
            (case hangup_call e (cr_user q) (trim_space (cr_call_id q)) sv of
               (Some err, sv) \<Rightarrow> (Inl (Rpc_error err), sv)
             | (None, sv) \<Rightarrow> (Inr (cr_call_id q, ''hangup_requested''), sv)))"

text \<open>
  The subscription: the error, or the channel. \<open>ErrCallNotFound\<close> is what \<open>Subscribe\<close> gives for a call
  that is not active.
\<close>

definition subscribe_rpc ::
  "call_request option \<Rightarrow> call_service \<Rightarrow> (rpc_failure + nat \<times> nat) \<times> call_service" where
  "subscribe_rpc rq sv =
     (case rq of
        None \<Rightarrow> (Inl (Invalid_argument ''user_id and call_id are required''), sv)
      | Some q \<Rightarrow>
          if cr_user q = 0 \<or> trim_space (cr_call_id q) = [] then
            (Inl (Invalid_argument ''user_id and call_id are required''), sv)
          else
            (case subscribe_call_events (cr_user q) (trim_space (cr_call_id q)) (cr_after q) sv of
               (Inl (Call_error (Call_not_found k)), sv) \<Rightarrow> (Inl (Not_found (Call_error (Call_not_found k))), sv)
             | (Inl err, sv) \<Rightarrow> (Inl (Rpc_error err), sv)
             | (Inr ch, sv) \<Rightarrow> (Inr ch, sv)))"

subsection \<open>The events on the wire (toProtoEvent and the loop of SubscribeCallEvents)\<close>

text \<open>
  \<open>nmz\<close> is the library's \<open>NormalizeRealtimeEvent\<close>; the type \<open>'v\<close> stands for its usage and payload values
  and \<open>to_struct\<close> for their conversion, which may fail. Times are nanoseconds.
\<close>

record 'v normalized =
  nm_type :: string
  nm_role :: string
  nm_phase :: string
  nm_delta :: string
  nm_text :: string
  nm_response :: string
  nm_usage :: "'v option"
  nm_payload :: "'v option"
  nm_files :: "go_file list"
  nm_error :: string

record 'j proto_event =
  pv_call_id :: string
  pv_sequence :: u64
  pv_time_ms :: int
  pv_provider :: string
  pv_type :: string
  pv_role :: string
  pv_phase :: string
  pv_delta :: string
  pv_text :: string
  pv_response :: string
  pv_usage :: "'j option"
  pv_payload :: "'j option"
  pv_files :: "go_file list"
  pv_error :: string

definition to_proto_event ::
  "(call_event \<Rightarrow> 'v normalized) \<Rightarrow> ('v \<Rightarrow> 'j option) \<Rightarrow> call_event \<Rightarrow> 'j proto_event" where
  "to_proto_event nmz to_struct ev =
     (let n = nmz ev in
      \<lparr>pv_call_id = ev_call_id ev, pv_sequence = ev_seq ev, pv_time_ms = ev_time ev div 1000000,
       pv_provider = ''CALL_PROVIDER_WHATSAPP'', pv_type = nm_type n, pv_role = nm_role n, pv_phase = nm_phase n,
       pv_delta = nm_delta n, pv_text = nm_text n, pv_response = nm_response n,
       pv_usage = Option.bind (nm_usage n) to_struct, pv_payload = Option.bind (nm_payload n) to_struct,
       pv_files = nm_files n,
       pv_error = (if nm_error n \<noteq> [] then nm_error n else case ev_err ev of Some t \<Rightarrow> t | None \<Rightarrow> [])\<rparr>)"

datatype stream_step = Next_event call_event | Channel_closed | Stream_done string

text \<open>What the loop sends, and how it ends: \<open>None\<close> when the call ended. \<open>send\<close> fails with the text it gives.\<close>

fun forward_events ::
  "(call_event \<Rightarrow> 'v normalized) \<Rightarrow> ('v \<Rightarrow> 'j option) \<Rightarrow> ('j proto_event \<Rightarrow> string option) \<Rightarrow> stream_step list
   \<Rightarrow> 'j proto_event list \<times> string option" where
  "forward_events nmz to_struct send [] = ([], None)"
| "forward_events nmz to_struct send (st # sts) =
     (case st of
        Stream_done t \<Rightarrow> ([], Some t)
      | Channel_closed \<Rightarrow> ([], None)
      | Next_event ev \<Rightarrow>
          (let p = to_proto_event nmz to_struct ev in
           case send p of
             Some t \<Rightarrow> ([], Some t)
           | None \<Rightarrow> (case forward_events nmz to_struct send sts of (ps, r) \<Rightarrow> (p # ps, r))))"

text \<open>
  \<open>toStruct\<close>: the value as JSON, read again as the fields of an object, and these as a protobuf structure; JSON and the
  structure are the libraries'. A value that one of them refuses is left out.
\<close>

definition to_struct ::
  "('v \<Rightarrow> string + string) \<Rightarrow> (string \<Rightarrow> string + 'f) \<Rightarrow> ('f \<Rightarrow> string + 'j) \<Rightarrow> 'v \<Rightarrow> 'j option" where
  "to_struct marshal unmarshal new_struct v =
     (case marshal v of
        Inl _ \<Rightarrow> None
      | Inr data \<Rightarrow>
          (case unmarshal data of
             Inl _ \<Rightarrow> None
           | Inr fs \<Rightarrow> (case new_struct fs of Inl _ \<Rightarrow> None | Inr j \<Rightarrow> Some j)))"

text \<open>A payload that cannot be converted never keeps an event from being sent.\<close>

lemma payload_left_out:
  "(case marshal v of Inl _ \<Rightarrow> True | Inr data \<Rightarrow> (case unmarshal data of Inl _ \<Rightarrow> True | Inr fs \<Rightarrow> \<exists>t. new_struct fs = Inl t)) \<Longrightarrow>
     nm_payload (nmz ev) = Some v \<Longrightarrow>
     pv_payload (to_proto_event nmz (to_struct marshal unmarshal new_struct) ev) = None
     \<and> pv_sequence (to_proto_event nmz (to_struct marshal unmarshal new_struct) ev) = ev_seq ev"
  by (auto simp: to_proto_event_def to_struct_def Let_def split: sum.splits)

subsection \<open>Properties\<close>

datatype rpc_op =
  Rpc_start host_env string "string list" "start_request option"
| Rpc_hangup host_env "call_request option"
| Rpc_subscribe "call_request option"

fun rpc_user :: "rpc_op \<Rightarrow> u32 option" where
  "rpc_user (Rpc_start e p ks rq) = map_option sr_user rq"
| "rpc_user (Rpc_hangup e rq) = map_option cr_user rq"
| "rpc_user (Rpc_subscribe rq) = map_option cr_user rq"

fun rpc_step :: "rpc_op \<Rightarrow> call_service \<Rightarrow> call_service" where
  "rpc_step (Rpc_start e p ks rq) sv = snd (start_outgoing_call e p ks rq sv)"
| "rpc_step (Rpc_hangup e rq) sv = snd (hangup_rpc e rq sv)"
| "rpc_step (Rpc_subscribe rq) sv = snd (subscribe_rpc rq sv)"

text \<open>What an operation may do: nothing, or give the bot of its user another manager that is in order.\<close>

definition own_change :: "u32 option \<Rightarrow> call_service \<Rightarrow> call_service \<Rightarrow> bool" where
  "own_change u sv sv' \<longleftrightarrow>
     sv' = sv \<or> (\<exists>uid i m. u = Some uid \<and> lookup_bot uid (sv_bots sv) = Some i \<and> sv' = set_calls i m sv
       \<and> (i < length (sv_calls sv) \<longrightarrow> manager_ok (sv_calls sv ! i) \<longrightarrow> manager_ok m))"

lemma own_change_refl [simp]: "own_change u sv sv"
  by (simp add: own_change_def)

lemma own_change_initiate: "own_change (Some uid) sv (snd (initiate_outgoing_call e uid target h ks sv))"
proof (cases "lookup_bot uid (sv_bots sv)")
  case (Some i)
  obtain r m where r: "initiate_outgoing (host_of e (bt_bots (sv_bots sv) ! i)) target h ks (sv_calls sv ! i) = (r, m)"
    by fastforce
  then have "manager_ok (sv_calls sv ! i) \<Longrightarrow> manager_ok m" using initiate_outgoing_ok by blast
  then show ?thesis using Some r by (auto simp: initiate_outgoing_call_def bot_for_user_def own_change_def)
qed (simp add: initiate_outgoing_call_def bot_for_user_def)

lemma own_change_hangup: "own_change (Some uid) sv (snd (hangup_call e uid k sv))"
proof (cases "lookup_bot uid (sv_bots sv)")
  case (Some i)
  obtain r m where r: "hangup (host_of e (bt_bots (sv_bots sv) ! i)) k (sv_calls sv ! i) = (r, m)" by fastforce
  then have "manager_ok (sv_calls sv ! i) \<Longrightarrow> manager_ok m" using hangup_ok by blast
  then show ?thesis using Some r by (auto simp: hangup_call_def bot_for_user_def own_change_def)
qed (simp add: hangup_call_def bot_for_user_def)

lemma own_change_subscribe: "own_change (Some uid) sv (snd (subscribe_call_events uid k after sv))"
proof (cases "lookup_bot uid (sv_bots sv)")
  case (Some i)
  obtain r m where r: "subscribe_call k after (sv_calls sv ! i) = (r, m)" by fastforce
  then have "manager_ok (sv_calls sv ! i) \<Longrightarrow> manager_ok m" using subscribe_call_ok by blast
  then show ?thesis using Some r by (auto simp: subscribe_call_events_def bot_for_user_def own_change_def)
qed (simp add: subscribe_call_events_def bot_for_user_def)

lemma rpc_own_change: "own_change (rpc_user op) sv (rpc_step op sv)"
proof (cases op)
  case (Rpc_start e p ks rq)
  then show ?thesis
    using own_change_initiate [of _ sv e _ False ks]
    by (cases rq) (auto simp: start_outgoing_call_def case_prod_unfold split: sum.split)
next
  case (Rpc_hangup e rq)
  then show ?thesis
    using own_change_hangup [of _ sv e]
    by (cases rq) (auto simp: hangup_rpc_def case_prod_unfold split: option.split)
next
  case (Rpc_subscribe rq)
  then show ?thesis
    using own_change_subscribe [of _ sv]
    by (cases rq) (auto simp: subscribe_rpc_def case_prod_unfold split: sum.split service_error.split call_error.split)
qed

text \<open>C16: requests of other users never touch the calls of a user: whatever they start, hang up or subscribe to,
  the call manager of the user's bot stays as it is, no bot changes, and every manager stays in order.\<close>

theorem users_calls_isolated:
  assumes "bots_inv (sv_bots sv)" "list_all manager_ok (sv_calls sv)" "lookup_bot uid (sv_bots sv) = Some i"
    and "list_all (\<lambda>op. rpc_user op \<noteq> Some uid) ops" "sv' = fold rpc_step ops sv"
  shows "sv_calls sv' ! i = sv_calls sv ! i \<and> sv_bots sv' = sv_bots sv \<and> list_all manager_ok (sv_calls sv')"
proof -
  have "sv_calls (fold rpc_step ops s) ! i = sv_calls s ! i \<and> sv_bots (fold rpc_step ops s) = sv_bots s
      \<and> list_all manager_ok (sv_calls (fold rpc_step ops s))"
    if "bots_inv (sv_bots s)" "list_all manager_ok (sv_calls s)" "lookup_bot uid (sv_bots s) = Some i" for s
    using that assms(4)
  proof (induction ops arbitrary: s)
    case (Cons op ops)
    have one: "sv_calls (rpc_step op s) ! i = sv_calls s ! i \<and> sv_bots (rpc_step op s) = sv_bots s
        \<and> list_all manager_ok (sv_calls (rpc_step op s))"
      using rpc_own_change [of op s] unfolding own_change_def
    proof (elim disjE exE conjE)
      fix u j m assume u: "rpc_user op = Some u" "lookup_bot u (sv_bots s) = Some j" "rpc_step op s = set_calls j m s"
        and ok: "j < length (sv_calls s) \<longrightarrow> manager_ok (sv_calls s ! j) \<longrightarrow> manager_ok m"
      have "u \<noteq> uid" using u(1) Cons.prems(4) by auto
      then have "j \<noteq> i" using bots_invD(2) [OF Cons.prems(1) u(2)] bots_invD(2) [OF Cons.prems(1,3)] by auto
      moreover have "list_all manager_ok ((sv_calls s)[j := m])"
        using ok Cons.prems(2)
        by (cases "j < length (sv_calls s)") (auto simp: list_all_length nth_list_update list_update_beyond)
      ultimately show ?thesis using u(3) by (simp add: set_calls_def)
    qed (use Cons.prems(2) in simp)
    have "list_all (\<lambda>op. rpc_user op \<noteq> Some uid) ops" using Cons.prems(4) by simp
    from Cons.IH [OF _ _ _ this, of "rpc_step op s"] show ?case using one Cons.prems(1,3) by simp
  qed simp
  from this [OF assms(1,2,3)] show ?thesis unfolding assms(5) .
qed

definition example_service :: call_service where
  "example_service =
     \<lparr>sv_bots = \<lparr>bt_bots = [fresh_bot 7 \<lparr>ds_device = None, ds_uids = [], ds_call = True, ds_text = True\<rparr> (auth_assistant 7),
        fresh_bot 8 \<lparr>ds_device = None, ds_uids = [], ds_call = False, ds_text = True\<rparr> (auth_assistant 8)],
        bt_map = [(7, 0), (8, 1)], bt_keys = [], bt_fx = []\<rparr>,
      sv_calls = [example_manager, new_manager]\<rparr>"

definition example_host :: host_env where
  "example_host = \<lparr>he_calls = example_env, he_start = Some (\<lambda>_ _. (True, No_value)), he_direct = True, he_router = None\<rparr>"

lemma example_service_simps [simp]:
  "lookup_bot 7 (sv_bots example_service) = Some 0" "lookup_bot 8 (sv_bots example_service) = Some 1"
  "sv_calls example_service = [example_manager, new_manager]" "list_all manager_ok (sv_calls example_service)"
  by (simp_all add: example_service_def lookup_bot_def)

lemma example_service_inv: "bots_inv (sv_bots example_service)"
  by (auto simp: example_service_def bots_inv_def lookup_bot_def less_Suc_eq)

theorem users_calls_isolated_witness:
  "sv_calls (fold rpc_step [Rpc_hangup example_host (Some \<lparr>cr_user = 8, cr_call_id = ''in'', cr_after = 0\<rparr>),
      Rpc_start example_host [] [] (Some \<lparr>sr_user = 8, sr_target = ''5''\<rparr>)] example_service) ! 0 = example_manager"
  using users_calls_isolated [OF example_service_inv example_service_simps(4) example_service_simps(1) _ refl,
      of "[Rpc_hangup example_host (Some \<lparr>cr_user = 8, cr_call_id = ''in'', cr_after = 0\<rparr>),
        Rpc_start example_host [] [] (Some \<lparr>sr_user = 8, sr_target = ''5''\<rparr>)]"]
  by simp

lemma host_of_refusal:
  assumes "bo_stopped b \<or> \<not> bo_voice b"
  shows "\<exists>err. outgoing_refusal (host_of e b) target = Some err"
  using assms by (auto simp: outgoing_refusal_def host_of_def)

lemma initiate_refused:
  "outgoing_refusal e target = Some err \<Longrightarrow> initiate_outgoing e target h ks m = (Inl err, m)"
  by (simp add: initiate_outgoing_def)

lemma initiate_outgoing_active:
  assumes "manager_ok m" "set (active_call_ids m) \<subseteq> set ks" "initiate_outgoing e target h ks m = (Inr k, m')"
  shows "\<exists>j. cm_active m' = [(k, j)]"
proof -
  let ?m = "fx (Fx_place target) (fold (replace_call (env_now e)) ks m)"
  have m: "manager_ok ?m" "cm_active ?m = []" using fold_replace_empty [OF assms(1,2)] by simp_all
  obtain k' peer where c: "connect_outgoing e k' peer h ?m = (Inr k, m')"
    using assms(3) by (auto simp: initiate_outgoing_def Let_def split: option.splits sum.splits)
  then have "k' = k" by (auto simp: connect_outgoing_def Let_def split: sum.splits prod.splits option.splits)
  then show ?thesis using connect_outgoing_active [OF m c] by simp
qed

text \<open>An outgoing call starts only through a bot that is registered for the user, is not stopped and may make
  calls; the answer then names the one call that is active for this bot.\<close>

theorem started_call_is_the_active_one:
  assumes "list_all manager_ok (sv_calls sv)" "bots_inv (sv_bots sv)" "length (sv_calls sv) = length (bt_bots (sv_bots sv))"
    and "list_all (\<lambda>m. set (active_call_ids m) \<subseteq> set ks) (sv_calls sv)"
    and "start_outgoing_call e provider ks rq sv = (Inr rsp, sv')"
  shows "\<exists>q i j. rq = Some q \<and> sr_user q \<noteq> 0 \<and> lookup_bot (sr_user q) (sv_bots sv) = Some i
    \<and> \<not> bo_stopped (bt_bots (sv_bots sv) ! i) \<and> bo_voice (bt_bots (sv_bots sv) ! i)
    \<and> cm_active (sv_calls sv' ! i) = [(ss_call_id rsp, j)]
    \<and> user_active_calls (sr_user q) sv' = Inr [ss_call_id rsp]"
proof -
  obtain q where q: "rq = Some q" "sr_user q \<noteq> 0"
      "initiate_outgoing_call e (sr_user q) (trim_space (sr_target q)) False ks sv = (Inr (ss_call_id rsp), sv')"
    using assms(5) by (auto simp: start_outgoing_call_def split: option.splits if_splits prod.splits sum.splits)
  obtain i where i: "lookup_bot (sr_user q) (sv_bots sv) = Some i"
    using q(3) by (auto simp: initiate_outgoing_call_def bot_for_user_def split: option.splits)
  let ?b = "bt_bots (sv_bots sv) ! i"
  obtain m where m: "initiate_outgoing (host_of e ?b) (trim_space (sr_target q)) False ks (sv_calls sv ! i) = (Inr (ss_call_id rsp), m)"
    and sv': "sv' = set_calls i m sv"
    using q(3) i by (auto simp: initiate_outgoing_call_def bot_for_user_def split: prod.splits sum.splits)
      (metis map_sum.simps sum.exhaust sum.inject(2) sum.simps(4))
  have len: "i < length (sv_calls sv)" using bots_invD(1) [OF assms(2) i] assms(3) by simp
  then have ok: "manager_ok (sv_calls sv ! i)" "set (active_call_ids (sv_calls sv ! i)) \<subseteq> set ks"
    using assms(1,4) by (auto simp: list_all_length)
  obtain j where j: "cm_active m = [(ss_call_id rsp, j)]" using initiate_outgoing_active [OF ok m] by blast
  have "\<not> (bo_stopped ?b \<or> \<not> bo_voice ?b)"
  proof
    assume "bo_stopped ?b \<or> \<not> bo_voice ?b"
    from host_of_refusal [OF this, of e "trim_space (sr_target q)"] show False using m by (auto simp: initiate_refused)
  qed
  then show ?thesis
    using q i j len by (intro exI [of _ q] exI [of _ i] exI [of _ j])
      (simp add: sv' set_calls_def user_active_calls_def bot_for_user_def active_call_ids_def)
qed

theorem started_call_is_the_active_one_witness:
  "\<exists>rsp sv'. start_outgoing_call example_host ''openai'' [''in''] (Some \<lparr>sr_user = 7, sr_target = '' 5 ''\<rparr>) example_service = (Inr rsp, sv')
     \<and> user_active_calls 7 sv' = Inr [ss_call_id rsp]"
proof -
  let ?rq = "Some \<lparr>sr_user = 7, sr_target = '' 5 ''\<rparr> :: start_request option"
  have t: "trim_space '' 5 '' = ''5''" by (simp add: trim_space_def is_space_def)
  have "isl (fst (initiate_outgoing (host_of example_host (bt_bots (sv_bots example_service) ! 0)) ''5'' False [''in''] example_manager)) = False"
    by (simp add: initiate_outgoing_def connect_outgoing_def Let_def outgoing_refusal_def example_env_def resolve_peer_def
        start_realtime_def open_realtime_def user_channel_def model_fault_def parse_uint_def digit_val_def
        host_of_def example_host_def example_service_def fresh_bot_def get_realtime_provider_def bot_start_session_def)
  then obtain k m where "initiate_outgoing (host_of example_host (bt_bots (sv_bots example_service) ! 0)) ''5'' False [''in''] example_manager = (Inr k, m)"
    by (metis isl_def prod.collapse sum.collapse(2))
  then obtain rsp sv' where r: "start_outgoing_call example_host ''openai'' [''in''] ?rq example_service = (Inr rsp, sv')"
    by (simp add: start_outgoing_call_def t initiate_outgoing_call_def bot_for_user_def)
  have "length (sv_calls example_service) = length (bt_bots (sv_bots example_service))"
    "list_all (\<lambda>m. set (active_call_ids m) \<subseteq> set [''in'']) (sv_calls example_service)"
    by (simp_all add: active_call_ids_def new_manager_def) (simp add: example_service_def)
  from started_call_is_the_active_one [OF example_service_simps(4) example_service_inv this r] show ?thesis using r by auto
qed

lemma digit_val_sign: "digit_val c \<noteq> None \<Longrightarrow> c \<noteq> CHR ''-''" "digit_val c \<noteq> None \<Longrightarrow> c \<noteq> CHR ''+''"
  by (auto simp: digit_val_def)

lemma parse_int_of_uint:
  assumes "parse_uint 64 user = Inr n"
  shows "parse_int 64 user = (if 2 ^ 63 \<le> n then Inl ErrRange else Inr (int n))"
proof -
  have "user \<noteq> []" using assms by (auto simp: parse_uint_def)
  moreover have "hd user \<noteq> CHR ''-''" "hd user \<noteq> CHR ''+''"
    using parse_uint_digits [OF assms] calculation by (metis list.set_sel(1) digit_val_sign(1), metis list.set_sel(1) digit_val_sign(2))
  ultimately show ?thesis using assms by (simp add: parse_int_unsigned)
qed

text \<open>C39: the two readings of the list of allowed users, of messages and of calls, agree on every sender whose number
  fits in 63 bits; a larger number is refused for calls when the list is not empty, while for messages it is
  read as a negative number.\<close>

theorem allow_lists_agree:
  assumes "parse_uint 64 user = Inr n"
  shows "is_call_allowed uids user = (if n < 2 ^ 63 then allowed_uid uids (of_nat n) else uids = [])"
proof -
  have "sint (of_nat n :: u64) = int n" if "n < 2 ^ 63"
  proof -
    have "sint (of_nat n :: u64) = signed_take_bit 63 (int n)" by (simp add: signed_of_nat)
    also have "\<dots> = int n" using that by (intro signed_take_bit_int_eq_self) auto
    finally show ?thesis .
  qed
  then show ?thesis
    using parse_int_of_uint [OF assms] by (auto simp: is_call_allowed_def allowed_uid_def)
qed

theorem allow_lists_agree_witness:
  "is_call_allowed [5] ''5'' \<longleftrightarrow> allowed_uid [5] (of_nat 5)"
proof -
  have "parse_uint 64 ''5'' = Inr 5" by (simp add: parse_uint_def digit_val_def)
  from allow_lists_agree [OF this, of "[5]"] show ?thesis by simp
qed

end
