(* ===== verification/Auth.thy ===== *)
theory Auth
  imports Bot_Registry
begin

section \<open>Authorisation by QR code (auth/registry.go, auth/session.go, auth/flow.go)\<close>

text \<open>
  A session of authorisation publishes states into a channel of 10 that a WebSocket handler reads. The
  registry names the active sessions; \<open>None\<close> is the nil registry, whose methods do nothing. The channels
  are shared between the registry, the flow and the handler, so they live in a list and are named by index.

  The flow, \<open>AuthenticateWithQR\<close>, is run against the answers \<open>auth_env\<close> of the client library: the codes
  and events of the QR channel until it is closed, and whether the client is logged in when it is asked.
  The goroutine that a success event starts waits three seconds, so it runs after the loop over the events,
  which the library ends with the success. The texts of the states are the constructors of \<open>auth_text\<close>.
\<close>

subsection \<open>States and sessions\<close>

datatype auth_error =
  Auth_init bots_error | Auth_no_client | Auth_qr_channel string | Auth_connect string | Auth_no_qr
| Auth_scan_timeout | Auth_qr_error string | Auth_not_logged_in | Auth_timeout | Auth_start bots_error

datatype auth_text =
  Txt_init_failed bots_error | Txt_qr_channel_failed string | Txt_connect_failed string | Txt_code string
| Txt_no_code | Txt_scan_timed_out | Txt_login_error string | Txt_scanned | Txt_authorised string
| Txt_not_logged_in | Txt_wait_timed_out | Txt_replaced | Txt_failed auth_error

record auth_state =
  st_type :: string
  st_payload :: auth_text

record auth_session =
  as_chan :: nat
  as_user :: u32

type_synonym registry = "(string \<times> auth_session) list option"

type_synonym state_chans = "auth_state chan list"

definition new_registry :: registry where
  "new_registry = Some []"

definition reg_load :: "string \<Rightarrow> registry \<Rightarrow> auth_session option" where
  "reg_load k r = (case r of None \<Rightarrow> None | Some ss \<Rightarrow> map_of ss k)"

definition reg_add :: "string \<Rightarrow> auth_session \<Rightarrow> registry \<Rightarrow> bool \<times> registry" where
  "reg_add k s r =
     (case r of
        None \<Rightarrow> (True, None)
      | Some ss \<Rightarrow>
          if list_ex (\<lambda>(_, t). as_user t = as_user s) ss then (False, Some ss)
          else (True, Some (AList.update k s ss)))"

definition reg_remove :: "string \<Rightarrow> registry \<Rightarrow> registry" where
  "reg_remove k r = map_option (AList.delete k) r"

definition state_cancelled :: auth_state where
  "state_cancelled = \<lparr>st_type = ''cancelled'', st_payload = Txt_replaced\<rparr>"

text \<open>\<open>CancelUser\<close>: each session of the user is told if its channel has room, and removed.\<close>

definition cancel_user :: "u32 \<Rightarrow> registry \<Rightarrow> state_chans \<Rightarrow> registry \<times> state_chans" where
  "cancel_user uid r cs =
     (case r of
        None \<Rightarrow> (None, cs)
      | Some ss \<Rightarrow>
          (Some (filter (\<lambda>(_, s). as_user s \<noteq> uid) ss),
           fold (\<lambda>(_, s) cs. if as_user s = uid then update_at (chan_offer state_cancelled) (as_chan s) cs else cs) ss cs))"

subsection \<open>The flow\<close>

datatype qr_event = Qr_code string | Qr_timeout | Qr_failed string | Qr_success | Qr_other string

datatype auth_effect =
  Ax_prepare | Ax_connect | Ax_disconnect | Ax_save "save_error option" | Ax_settings | Ax_delete | Ax_start

record auth_env =
  ae_bots :: "channels \<Rightarrow> bots_env"
  ae_fresh :: "string + device option"
  ae_client :: bool
  ae_qr :: "string + qr_event list"
  ae_connect :: connection
  ae_done_in_time :: bool
  ae_logged_in :: bool
  ae_still_logged_in :: bool
  ae_jid :: string
  ae_paired :: "dev_store \<Rightarrow> dev_store"
  ae_tojson :: "dev_store \<Rightarrow> string + string"
  ae_repo :: "tx_env option"

record auth_world =
  aw_bots :: bots
  aw_table :: channels
  aw_chan :: "auth_state chan"
  aw_fx :: "(auth_effect + auth_state) list"

definition auth_fx :: "auth_effect \<Rightarrow> auth_world \<Rightarrow> auth_world" where
  "auth_fx x w = w\<lparr>aw_fx := aw_fx w @ [Inl x]\<rparr>"

text \<open>\<open>safeStateSend\<close>: dropped when the channel is full. \<open>aw_fx\<close> records what was tried, in order.\<close>

definition publish_state :: "string \<Rightarrow> auth_text \<Rightarrow> auth_world \<Rightarrow> auth_world" where
  "publish_state ty t w =
     w\<lparr>aw_chan := chan_offer \<lparr>st_type = ty, st_payload = t\<rparr> (aw_chan w),
       aw_fx := aw_fx w @ [Inr \<lparr>st_type = ty, st_payload = t\<rparr>]\<rparr>"

text \<open>
  The loop over the events of the QR channel: \<open>shown\<close> is \<open>qrCodeDisplayed\<close>, \<open>scanned\<close> whether a success
  event has started the goroutine. The result is an early error, or whether the goroutine runs.
\<close>

fun qr_loop :: "bool \<Rightarrow> bool \<Rightarrow> qr_event list \<Rightarrow> auth_world \<Rightarrow> (auth_error + bool) \<times> auth_world" where
  "qr_loop shown scanned [] w = (Inr scanned, w)"
| "qr_loop shown scanned (ev # evs) w =
     (case ev of
        Qr_code c \<Rightarrow> qr_loop True scanned evs (publish_state ''qr_code'' (Txt_code c) w)
      | Qr_timeout \<Rightarrow>
          if \<not> shown then (Inl Auth_no_qr, auth_fx Ax_disconnect (publish_state ''error'' Txt_no_code w))
          else (Inl Auth_scan_timeout, auth_fx Ax_disconnect (publish_state ''error'' Txt_scan_timed_out w))
      | Qr_failed t \<Rightarrow> (Inl (Auth_qr_error t), auth_fx Ax_disconnect (publish_state ''error'' (Txt_login_error t) w))
      | Qr_success \<Rightarrow> qr_loop shown True evs (publish_state ''qr-success'' Txt_scanned w)
      | Qr_other _ \<Rightarrow> qr_loop shown scanned evs w)"

text \<open>
  After a login: the session is saved as a first authorisation (an error is only logged), the temporary bot
  is given both permissions, disconnected and removed, and the working bot is started from the database.
\<close>

definition finish_auth :: "auth_env \<Rightarrow> u32 \<Rightarrow> nat \<Rightarrow> auth_world \<Rightarrow> auth_error option \<times> auth_world" where
  "finish_auth e uid i w =
     (let be = ae_bots e (aw_table w);
          rpc = (case be_rpc be of None \<Rightarrow> Inl Rpc_missing | Some r \<Rightarrow> r);
          s = upd_bot i (\<lambda>b. b\<lparr>bo_store := ae_paired e (bo_store b)\<rparr>) (aw_bots w)
      in case user_master_key rpc (be_now be) (be_now be) uid (bt_keys s) of
        (mk, keys) \<Rightarrow>
          (case save_json (ae_tojson e) (ae_repo e) uid mk True (bo_store (bt_bots s ! i)) (aw_table w) of
             (err, table) \<Rightarrow>
               let s = set_auth_settings True True i (s\<lparr>bt_keys := keys\<rparr>);
                   w = auth_fx Ax_settings (auth_fx (Ax_save err) (w\<lparr>aw_table := table\<rparr>));
                   w = auth_fx Ax_delete (auth_fx Ax_disconnect w);
                   s = delete_bot uid (upd_bot i (\<lambda>b. b\<lparr>bo_disconnected := True\<rparr>) s)
               in case start_user_bot (ae_bots e table) uid s of
                    (Some err, s) \<Rightarrow> (Some (Auth_start err), auth_fx Ax_start (w\<lparr>aw_bots := s\<rparr>))
                  | (None, s) \<Rightarrow> (None, auth_fx Ax_start (w\<lparr>aw_bots := s\<rparr>))))"

text \<open>The wait for the goroutine, which ends in time or not.\<close>

definition await_login :: "auth_env \<Rightarrow> u32 \<Rightarrow> nat \<Rightarrow> bool \<Rightarrow> auth_world \<Rightarrow> auth_error option \<times> auth_world" where
  "await_login e uid i scanned w =
     (if scanned \<and> ae_done_in_time e then
        (if ae_logged_in e then
           let w = publish_state ''success'' (Txt_authorised (ae_jid e)) w in
           if \<not> ae_still_logged_in e then
             (Some Auth_not_logged_in, auth_fx Ax_disconnect (publish_state ''error'' Txt_not_logged_in w))
           else finish_auth e uid i w
         else (Some Auth_not_logged_in, auth_fx Ax_disconnect (publish_state ''error'' Txt_not_logged_in w)))
      else (Some Auth_timeout, auth_fx Ax_disconnect (publish_state ''error'' Txt_wait_timed_out w)))"

definition qr_session :: "auth_env \<Rightarrow> u32 \<Rightarrow> nat \<Rightarrow> auth_world \<Rightarrow> auth_error option \<times> auth_world" where
  "qr_session e uid i w =
     (case ae_qr e of
        Inl t \<Rightarrow> (Some (Auth_qr_channel t), publish_state ''error'' (Txt_qr_channel_failed t) w)
      | Inr evs \<Rightarrow>
          let w = auth_fx Ax_connect w in
          (case ae_connect e of
             Conn_failed t \<Rightarrow> (Some (Auth_connect t), publish_state ''error'' (Txt_connect_failed t) w)
           | _ \<Rightarrow>
               (case qr_loop False False evs w of
                  (Inl err, w) \<Rightarrow> (Some err, w)
                | (Inr scanned, w) \<Rightarrow> await_login e uid i scanned w)))"

definition authenticate_with_qr :: "auth_env \<Rightarrow> u32 \<Rightarrow> auth_world \<Rightarrow> auth_error option \<times> auth_world" where
  "authenticate_with_qr e uid w =
     (case ensure_auth_bot (ae_bots e (aw_table w)) (ae_fresh e) uid (aw_bots w) of
        (Inl err, s) \<Rightarrow> (Some (Auth_init err), publish_state ''error'' (Txt_init_failed err) (w\<lparr>aw_bots := s\<rparr>))
      | (Inr i, s) \<Rightarrow>
          if \<not> ae_client e then (Some Auth_no_client, w\<lparr>aw_bots := s\<rparr>)
          else if bo_identity (bt_bots s ! i) then
            qr_session e uid i (auth_fx Ax_prepare (w\<lparr>aw_bots := prepare_reauth i s\<rparr>))
          else qr_session e uid i (w\<lparr>aw_bots := s\<rparr>))"

subsection \<open>The WebSocket handler (AuthWebSocketHandler)\<close>

text \<open>
  What the handler writes to the client: the states it reads, up to the first terminal one or the first
  that cannot be written (\<open>wr n\<close>: the n-th write succeeds).
\<close>

datatype relay_end = Relay_waits | Relay_closed | Relay_write_failed

definition terminal_state :: "auth_state \<Rightarrow> bool" where
  "terminal_state s \<longleftrightarrow> st_type s = ''success'' \<or> st_type s = ''error''"

fun relay :: "(nat \<Rightarrow> bool) \<Rightarrow> nat \<Rightarrow> auth_state list \<Rightarrow> auth_state list \<times> relay_end" where
  "relay wr n [] = ([], Relay_waits)"
| "relay wr n (s # ss) =
     (if \<not> wr n then ([], Relay_write_failed)
      else if terminal_state s then ([s], Relay_closed)
      else case relay wr (Suc n) ss of (sent, r) \<Rightarrow> (s # sent, r))"

text \<open>The goroutine of the handler: the flow, and the state of a failure.\<close>

definition run_auth :: "auth_env \<Rightarrow> u32 \<Rightarrow> auth_world \<Rightarrow> auth_world" where
  "run_auth e uid w =
     (case authenticate_with_qr e uid w of
        (Some err, w) \<Rightarrow> publish_state ''error'' (Txt_failed err) w
      | (None, w) \<Rightarrow> w)"

text \<open>
  The beginning of a session on the registry: earlier sessions of the user are cancelled, then this one is
  registered. The answer of \<open>Add\<close> is not looked at.
\<close>

definition begin_auth_session :: "string \<Rightarrow> u32 \<Rightarrow> registry \<Rightarrow> state_chans \<Rightarrow> registry \<times> state_chans" where
  "begin_auth_session k uid r cs =
     (case cancel_user uid r cs of
        (r, cs) \<Rightarrow>
          let c = length cs; cs = cs @ [make_chan 10]
          in (snd (reg_add k \<lparr>as_chan = c, as_user = uid\<rparr> r), cs))"

end
