(* ===== verification/Auth_Safety.thy ===== *)
theory Auth_Safety
  imports Auth
begin

section \<open>Properties of the authorisation\<close>

text \<open>
  The registry keeps at most one session per user and a new connection replaces the earlier one; what the
  client of a session sees ends with a terminal state; what a successful authorisation leaves behind.
\<close>

subsection \<open>The registry\<close>

datatype reg_op = Reg_add string auth_session | Reg_remove string | Reg_cancel u32

fun reg_step :: "reg_op \<Rightarrow> registry \<times> state_chans \<Rightarrow> registry \<times> state_chans" where
  "reg_step (Reg_add k s) (r, cs) = (snd (reg_add k s r), cs)"
| "reg_step (Reg_remove k) (r, cs) = (reg_remove k r, cs)"
| "reg_step (Reg_cancel uid) (r, cs) = cancel_user uid r cs"

definition reg_sessions :: "registry \<Rightarrow> (string \<times> auth_session) list" where
  "reg_sessions r = (case r of None \<Rightarrow> [] | Some ss \<Rightarrow> ss)"

definition reg_users :: "registry \<Rightarrow> u32 list" where
  "reg_users r = map (as_user \<circ> snd) (reg_sessions r)"

definition reg_ok :: "registry \<Rightarrow> bool" where
  "reg_ok r \<longleftrightarrow> distinct (map fst (reg_sessions r)) \<and> distinct (reg_users r)"

lemma distinct_map_filter_pairs: "distinct (map f xs) \<Longrightarrow> distinct (map f (filter P xs))"
  by (induction xs) auto

lemma alist_delete_filter: "AList.delete k xs = filter (\<lambda>(k', _). k' \<noteq> k) xs"
  by (induction xs) auto

lemma reg_add_cases:
  "reg_add k s (Some ss) =
     (if as_user s \<in> set (reg_users (Some ss)) then (False, Some ss) else (True, Some (AList.update k s ss)))"
proof -
  have "list_ex (\<lambda>(_, t). as_user t = as_user s) ss \<longleftrightarrow> as_user s \<in> set (reg_users (Some ss))"
    by (induction ss) (auto simp: reg_users_def reg_sessions_def)
  then show ?thesis by (simp add: reg_add_def)
qed

lemma update_subset: "set (AList.update k v ss) \<subseteq> insert (k, v) (set ss)"
  by (induction ss) auto

lemma update_users:
  assumes "distinct (map fst ss)" "distinct (map (f \<circ> snd) ss)" "f v \<notin> set (map (f \<circ> snd) ss)"
  shows "distinct (map (f \<circ> snd) (AList.update k v ss))"
  using assms
proof (induction ss)
  case (Cons p ss)
  have "f (snd p) \<notin> set (map (f \<circ> snd) (AList.update k v ss))"
    using update_subset [of k v ss] Cons.prems by (auto simp: image_iff)
  then show ?case using Cons by (cases p) auto
qed simp

lemma reg_ok_step: "reg_ok (fst rc) \<Longrightarrow> reg_ok (fst (reg_step op rc))"
proof (cases "fst rc")
  case (Some ss)
  assume ok: "reg_ok (fst rc)"
  obtain r cs where rc: "rc = (r, cs)" by fastforce
  show ?thesis
  proof (cases op)
    case (Reg_add k s)
    then show ?thesis
      using ok Some unfolding rc
      by (auto simp: reg_add_cases reg_ok_def reg_sessions_def reg_users_def distinct_update intro!: update_users)
  qed (use ok Some in \<open>auto simp: rc reg_ok_def reg_sessions_def reg_users_def reg_remove_def alist_delete_filter
      cancel_user_def intro!: distinct_map_filter_pairs\<close>)
next
  case None
  obtain r cs where rc: "rc = (r, cs)" by fastforce
  show ?thesis
    using None unfolding rc
    by (cases op) (simp_all add: reg_ok_def reg_sessions_def reg_users_def reg_add_def reg_remove_def cancel_user_def)
qed

lemma reg_ok_run: "reg_ok (fst rc) \<Longrightarrow> reg_ok (fst (fold reg_step ops rc))"
  by (induction ops arbitrary: rc) (simp_all add: reg_ok_step)

definition cancel_channels :: "u32 \<Rightarrow> (string \<times> auth_session) list \<Rightarrow> state_chans \<Rightarrow> state_chans" where
  "cancel_channels uid ss cs =
     fold (\<lambda>(_, s) cs. if as_user s = uid then update_at (chan_offer state_cancelled) (as_chan s) cs else cs) ss cs"

lemma cancel_channels_none: "uid \<notin> set (map (as_user \<circ> snd) ss) \<Longrightarrow> cancel_channels uid ss cs = cs"
  unfolding cancel_channels_def by (induction ss arbitrary: cs) auto

lemma length_cancel_channels [simp]: "length (cancel_channels uid ss cs) = length cs"
  unfolding cancel_channels_def by (induction ss arbitrary: cs) auto

lemma cancel_channels_one:
  "distinct (map (as_user \<circ> snd) ss) \<Longrightarrow> (k, t) \<in> set ss \<Longrightarrow> as_user t = uid \<Longrightarrow>
   cancel_channels uid ss cs = update_at (chan_offer state_cancelled) (as_chan t) cs"
proof (induction ss arbitrary: cs)
  case (Cons p ss)
  show ?case
  proof (cases "p = (k, t)")
    case True
    then have "uid \<notin> set (map (as_user \<circ> snd) ss)" using Cons.prems by auto
    from cancel_channels_none [OF this] show ?thesis
      using True Cons.prems by (simp add: cancel_channels_def)
  next
    case False
    then have "(k, t) \<in> set ss" using Cons.prems by simp
    moreover have "as_user (snd p) \<noteq> uid" using Cons.prems calculation by force
    ultimately show ?thesis
      using Cons.IH [of cs] Cons.prems by (simp add: cancel_channels_def case_prod_unfold)
  qed
qed simp

lemma map_of_filter_val: "distinct (map fst ss) \<Longrightarrow>
  map_of (filter (\<lambda>(_, s). P s) ss) k = (case map_of ss k of Some t \<Rightarrow> if P t then Some t else None | None \<Rightarrow> None)"
  by (induction ss) (auto split: option.splits simp: map_of_eq_None_iff [symmetric])

text \<open>C13: whatever the order in which sessions are added, removed and cancelled, a user has at most one; adding
  one is refused exactly when the user has one, and then nothing changes.\<close>

theorem one_session_per_user:
  assumes "r = fst (fold reg_step ops (new_registry, cs))"
  shows "distinct (reg_users r) \<and> (fst (reg_add k s r) \<longleftrightarrow> as_user s \<notin> set (reg_users r))
    \<and> (if fst (reg_add k s r) then reg_load k (snd (reg_add k s r)) = Some s else snd (reg_add k s r) = r)"
proof -
  have "reg_ok r" using reg_ok_run [of "(new_registry, cs)" ops] assms
    by (simp add: new_registry_def reg_ok_def reg_sessions_def reg_users_def)
  have "fst (fold reg_step ops (Some ss, cs)) \<noteq> None" for ss
  proof (induction ops arbitrary: ss cs)
    case (Cons op ops)
    have "\<exists>ss' cs'. reg_step op (Some ss, cs) = (Some ss', cs')"
      by (cases op) (auto simp: reg_add_def reg_remove_def cancel_user_def)
    then obtain ss' cs' where st: "reg_step op (Some ss, cs) = (Some ss', cs')" by blast
    show ?case using Cons.IH [where ss = ss' and cs = cs'] by (simp add: st del: not_None_eq)
  qed simp
  then obtain ss where r: "r = Some ss" using assms by (auto simp: new_registry_def)
  show ?thesis
    using \<open>reg_ok r\<close> unfolding r by (auto simp: reg_add_cases reg_ok_def reg_load_def update_conv')
qed

theorem one_session_per_user_witness:
  "distinct (reg_users (fst (fold reg_step [Reg_add ''s1'' \<lparr>as_chan = 0, as_user = 1\<rparr>] (new_registry, []))))
   \<and> \<not> fst (reg_add ''s2'' \<lparr>as_chan = 1, as_user = 1\<rparr>
       (fst (fold reg_step [Reg_add ''s1'' \<lparr>as_chan = 0, as_user = 1\<rparr>] (new_registry, []))))"
  using one_session_per_user [OF refl, of "[Reg_add ''s1'' \<lparr>as_chan = 0, as_user = 1\<rparr>]" "[]" "''s2''" "\<lparr>as_chan = 1, as_user = 1\<rparr>"]
  by (simp add: reg_add_def new_registry_def reg_users_def reg_sessions_def)

text \<open>A new connection of a user replaces the earlier one: the earlier session is told in its channel, and
  only the new one is registered, the other users keeping theirs. A second connection that had already
  made its own cancellation is then refused by the registry, which the handler does not notice.\<close>

theorem new_connection_replaces:
  assumes "reg_ok r" "r = Some ss" "k \<notin> fst ` set ss" "begin_auth_session k uid r cs = (r', cs')"
  shows "reg_ok r' \<and> reg_load k r' = Some \<lparr>as_chan = length cs, as_user = uid\<rparr> \<and> cs' ! length cs = make_chan 10
    \<and> (\<forall>k' t. k' \<noteq> k \<longrightarrow> (reg_load k' r' = Some t \<longleftrightarrow> reg_load k' r = Some t \<and> as_user t \<noteq> uid))
    \<and> (\<forall>k' t. reg_load k' r = Some t \<longrightarrow> as_user t = uid \<longrightarrow> as_chan t < length cs \<longrightarrow>
         cs' ! as_chan t = chan_offer state_cancelled (cs ! as_chan t))
    \<and> (\<forall>k2 c2. reg_add k2 \<lparr>as_chan = c2, as_user = uid\<rparr> r' = (False, r'))"
proof -
  let ?others = "filter (\<lambda>(_, s). as_user s \<noteq> uid) ss"
  let ?new = "\<lparr>as_chan = length cs, as_user = uid\<rparr>"
  have free: "uid \<notin> set (reg_users (Some ?others))" by (auto simp: reg_users_def reg_sessions_def)
  have k: "k \<notin> fst ` set ?others" using assms(3) by auto
  have r': "r' = Some (AList.update k ?new ?others)" and cs': "cs' = cancel_channels uid ss cs @ [make_chan 10]"
    using assms(2,4) free by (simp_all add: begin_auth_session_def cancel_user_def reg_add_cases
        cancel_channels_def [symmetric] Let_def)
  have d: "distinct (map fst ss)" "distinct (map (as_user \<circ> snd) ss)"
    using assms(1,2) by (simp_all add: reg_ok_def reg_sessions_def reg_users_def)
  have cancelled: "cancel_user uid (Some ss) cs = (Some ?others, cancel_channels uid ss cs)"
    by (simp add: cancel_user_def cancel_channels_def)
  have ok: "reg_ok (Some ?others)"
    using reg_ok_step [of "(Some ss, cs)" "Reg_cancel uid"] assms(1,2) cancelled by simp
  have ok': "reg_ok r'"
    using reg_ok_step [of "(Some ?others, cs)" "Reg_add k ?new"] ok free unfolding r' by (simp add: reg_add_cases)
  have load: "reg_load k' r' = Some t \<longleftrightarrow> reg_load k' r = Some t \<and> as_user t \<noteq> uid" if "k' \<noteq> k" for k' t
    using that d by (auto simp: r' assms(2) reg_load_def update_conv' map_of_filter_val
        simp del: map_of_eq_Some_iff split: option.splits)
  have told: "cs' ! as_chan t = chan_offer state_cancelled (cs ! as_chan t)"
    if "reg_load k' r = Some t" "as_user t = uid" "as_chan t < length cs" for k' t
  proof -
    have "(k', t) \<in> set ss" using that(1) assms(2) by (simp add: reg_load_def map_of_SomeD)
    from cancel_channels_one [OF d(2) this that(2)] show ?thesis
      using that(3) by (simp add: cs' nth_append nth_update_at)
  qed
  have new: "reg_load k r' = Some ?new" by (simp add: r' reg_load_def update_conv')
  then have "uid \<in> set (reg_users r')"
    by (auto simp: r' reg_users_def reg_sessions_def reg_load_def image_iff dest!: map_of_SomeD)
      (metis auth_session.select_convs(2) snd_conv)
  then have "reg_add k2 \<lparr>as_chan = c2, as_user = uid\<rparr> r' = (False, r')" for k2 c2
    by (simp add: r' reg_add_cases)
  then show ?thesis using ok' new load told by (simp add: cs' nth_append)
qed

theorem new_connection_replaces_witness:
  "\<exists>r' cs'. begin_auth_session ''b'' 7 (Some [(''a'', \<lparr>as_chan = 0, as_user = 7\<rparr>)]) [make_chan 10] = (r', cs')
     \<and> reg_load ''b'' r' = Some \<lparr>as_chan = 1, as_user = 7\<rparr> \<and> cs' ! 0 = chan_offer state_cancelled (make_chan 10)"
proof -
  let ?r = "Some [(''a'', \<lparr>as_chan = 0, as_user = 7\<rparr>)]"
  obtain r' cs' where b: "begin_auth_session ''b'' 7 ?r [make_chan 10] = (r', cs')" by fastforce
  have "reg_ok ?r" by (simp add: reg_ok_def reg_sessions_def reg_users_def)
  from new_connection_replaces [OF this refl _ b]
  have new: "reg_load ''b'' r' = Some \<lparr>as_chan = 1, as_user = 7\<rparr>"
    and told: "reg_load ''a'' ?r = Some t \<Longrightarrow> as_user t = 7 \<Longrightarrow> as_chan t < 1 \<Longrightarrow>
      cs' ! as_chan t = chan_offer state_cancelled ([make_chan 10] ! as_chan t)" for t
    by simp_all
  show ?thesis using b new told [of "\<lparr>as_chan = 0, as_user = 7\<rparr>"] by (simp add: reg_load_def)
qed

subsection \<open>The states of a session\<close>

definition tried :: "auth_world \<Rightarrow> auth_state list" where
  "tried w = concat (map (\<lambda>x. case x of Inl _ \<Rightarrow> [] | Inr s \<Rightarrow> [s]) (aw_fx w))"

text \<open>A channel of 10 that nobody has read holds the first ten states that were sent.\<close>

definition chan_sync :: "auth_world \<Rightarrow> bool" where
  "chan_sync w \<longleftrightarrow> ch_cap (aw_chan w) = 10 \<and> ch_taken (aw_chan w) = [] \<and> ch_buf (aw_chan w) = take 10 (tried w)"

lemma tried_simps [simp]:
  "tried (auth_fx x w) = tried w" "tried (publish_state ty t w) = tried w @ [\<lparr>st_type = ty, st_payload = t\<rparr>]"
  "tried (w\<lparr>aw_bots := s\<rparr>) = tried w" "tried (w\<lparr>aw_table := tb\<rparr>) = tried w"
  by (simp_all add: tried_def auth_fx_def publish_state_def)

lemma sync_simps [simp]:
  "chan_sync (auth_fx x w) = chan_sync w" "chan_sync (w\<lparr>aw_bots := s\<rparr>) = chan_sync w"
  "chan_sync (w\<lparr>aw_table := tb\<rparr>) = chan_sync w"
  by (simp_all add: chan_sync_def auth_fx_def tried_def)

lemma sync_publish [simp]: "chan_sync w \<Longrightarrow> chan_sync (publish_state ty t w)"
  by (auto simp: chan_sync_def chan_offer_def chan_full_def publish_state_def tried_def)

definition passing :: "auth_state list \<Rightarrow> bool" where
  "passing ss = list_all (\<lambda>s. \<not> terminal_state s) ss"

lemma passing_simps [simp]: "passing []" "passing (xs @ ys) \<longleftrightarrow> passing xs \<and> passing ys"
  "passing (x # xs) \<longleftrightarrow> \<not> terminal_state x \<and> passing xs"
  by (simp_all add: passing_def)

lemma relay_passing:
  "passing pre \<Longrightarrow> terminal_state t \<Longrightarrow> relay (\<lambda>_. True) n (pre @ t # rest) = (pre @ [t], Relay_closed)"
  by (induction pre arbitrary: n) auto

definition states_of :: "qr_event list \<Rightarrow> nat" where
  "states_of evs = length (filter (\<lambda>ev. case ev of Qr_code _ \<Rightarrow> True | Qr_success \<Rightarrow> True | _ \<Rightarrow> False) evs)"

lemma states_of_simps [simp]:
  "states_of [] = 0" "states_of (Qr_code c # evs) = Suc (states_of evs)"
  "states_of (Qr_success # evs) = Suc (states_of evs)" "states_of (Qr_other t # evs) = states_of evs"
  by (simp_all add: states_of_def)

text \<open>How the states tried by a piece of the flow extend those before it.\<close>

definition extends_by :: "nat \<Rightarrow> bool \<Rightarrow> auth_world \<Rightarrow> auth_world \<Rightarrow> bool" where
  "extends_by n ended w w' \<longleftrightarrow>
     (chan_sync w \<longrightarrow> chan_sync w') \<and>
     (\<exists>pre rest. passing pre \<and> length pre \<le> n \<and> tried w' = tried w @ pre @ rest \<and>
        (if ended then rest \<noteq> [] \<and> terminal_state (hd rest) else rest = []))"

lemma extends_by_intro:
  "chan_sync w \<longrightarrow> chan_sync w' \<Longrightarrow> passing pre \<Longrightarrow> length pre \<le> n \<Longrightarrow> tried w' = tried w @ pre @ rest \<Longrightarrow>
   (if b then rest \<noteq> [] \<and> terminal_state (hd rest) else rest = []) \<Longrightarrow> extends_by n b w w'"
  unfolding extends_by_def by blast

lemma extends_by_elim:
  assumes "extends_by n b w w'"
  obtains pre rest where "chan_sync w \<longrightarrow> chan_sync w'" "passing pre" "length pre \<le> n"
    "tried w' = tried w @ pre @ rest" "if b then rest \<noteq> [] \<and> terminal_state (hd rest) else rest = []"
  using assms unfolding extends_by_def by blast

lemma qr_loop_extends:
  "qr_loop shown scanned evs w = (r, w') \<Longrightarrow> extends_by (states_of evs) (isl r) w w'"
proof (induction shown scanned evs w arbitrary: r w' rule: qr_loop.induct)
  case (1 shown scanned w)
  then show ?case by (auto simp: extends_by_def)
next
  case (2 shown scanned ev evs w)
  have step: "extends_by (Suc n) b w w'"
    if h: "extends_by n b (publish_state ty t w) w'" "ty \<noteq> ''success''" "ty \<noteq> ''error''" for n b ty t
  proof -
    obtain pre rest where p: "chan_sync (publish_state ty t w) \<longrightarrow> chan_sync w'" "passing pre" "length pre \<le> n"
        "tried w' = tried (publish_state ty t w) @ pre @ rest"
        "if b then rest \<noteq> [] \<and> terminal_state (hd rest) else rest = []"
      by (rule extends_by_elim [OF h(1)])
    show ?thesis
      by (rule extends_by_intro [where pre = "\<lparr>st_type = ty, st_payload = t\<rparr> # pre" and rest = rest])
        (use p h in \<open>simp_all add: terminal_state_def\<close>)
  qed
  have ended: "extends_by n True w (auth_fx Ax_disconnect (publish_state ''error'' t w))" for n t
    by (rule extends_by_intro [where pre = "[]" and rest = "[\<lparr>st_type = ''error'', st_payload = t\<rparr>]"])
      (simp_all add: terminal_state_def)
  show ?case
  proof (cases ev)
    case (Qr_code c)
    then have "extends_by (states_of evs) (isl r) (publish_state ''qr_code'' (Txt_code c) w) w'"
      using 2 by simp
    from step [OF this] show ?thesis using Qr_code by simp
  next
    case Qr_success
    then have "extends_by (states_of evs) (isl r) (publish_state ''qr-success'' Txt_scanned w) w'"
      using 2 by simp
    from step [OF this] show ?thesis using Qr_success by simp
  next
    case Qr_timeout
    then have w': "isl r" "\<exists>t. w' = auth_fx Ax_disconnect (publish_state ''error'' t w)"
      using "2.prems" by (auto split: if_splits)
    then show ?thesis by (auto intro: ended)
  next
    case (Qr_failed t)
    then show ?thesis using "2.prems" by (auto intro: ended)
  next
    case (Qr_other t)
    then show ?thesis using 2 by simp
  qed
qed

lemma finish_auth_states:
  "tried (snd (finish_auth e uid i w)) = tried w" "chan_sync w \<Longrightarrow> chan_sync (snd (finish_auth e uid i w))"
  by (simp_all add: finish_auth_def Let_def case_prod_unfold split: option.split)

lemma extends_byI:
  "(chan_sync w \<Longrightarrow> chan_sync w') \<Longrightarrow> tried w' = tried w @ rest \<Longrightarrow> rest \<noteq> [] \<Longrightarrow> terminal_state (hd rest)
   \<Longrightarrow> extends_by n True w w'"
  unfolding extends_by_def by (intro conjI impI exI [of _ "[]"] exI [of _ rest]) simp_all

lemma await_login_extends: "extends_by 0 True w (snd (await_login e uid i scanned w))"
proof -
  let ?ok = "publish_state ''success'' (Txt_authorised (ae_jid e)) w"
  have "extends_by 0 True w (snd (finish_auth e uid i ?ok))"
    by (rule extends_byI [where rest = "[\<lparr>st_type = ''success'', st_payload = Txt_authorised (ae_jid e)\<rparr>]"])
      (simp_all add: finish_auth_states terminal_state_def)
  moreover have "extends_by 0 True w (auth_fx Ax_disconnect (publish_state ''error'' t w))" for t
    by (rule extends_byI [where rest = "[\<lparr>st_type = ''error'', st_payload = t\<rparr>]"]) (simp_all add: terminal_state_def)
  moreover have "extends_by 0 True w (auth_fx Ax_disconnect (publish_state ''error'' t ?ok))" for t
    by (rule extends_byI [where rest = "[\<lparr>st_type = ''success'', st_payload = Txt_authorised (ae_jid e)\<rparr>,
        \<lparr>st_type = ''error'', st_payload = t\<rparr>]"]) (simp_all add: terminal_state_def)
  ultimately show ?thesis by (simp add: await_login_def Let_def)
qed

lemma extends_by_trans:
  assumes "extends_by n False w w'" "extends_by 0 b w' w''"
  shows "extends_by n b w w''"
proof -
  obtain pre rest where p: "chan_sync w \<longrightarrow> chan_sync w'" "passing pre" "length pre \<le> n"
    "tried w' = tried w @ pre @ rest" "rest = []"
    using extends_by_elim [OF assms(1)] by (metis (full_types))
  obtain pre' rest' where q: "chan_sync w' \<longrightarrow> chan_sync w''" "length pre' \<le> 0"
    "tried w'' = tried w' @ pre' @ rest'" "if b then rest' \<noteq> [] \<and> terminal_state (hd rest') else rest' = []"
    using extends_by_elim [OF assms(2)] by metis
  show ?thesis
    by (rule extends_by_intro [where pre = pre and rest = rest']) (use p q in simp_all)
qed

lemma extends_by_start: "tried w1 = tried w \<Longrightarrow> chan_sync w1 = chan_sync w \<Longrightarrow> extends_by n b w1 w' = extends_by n b w w'"
  by (simp add: extends_by_def)

definition scan_states :: "auth_env \<Rightarrow> nat" where
  "scan_states e = (case ae_qr e of Inl _ \<Rightarrow> 0 | Inr evs \<Rightarrow> states_of evs)"

lemma qr_session_extends: "extends_by (scan_states e) True w (snd (qr_session e uid i w))"
proof (cases "ae_qr e")
  case (Inl t)
  then show ?thesis
    by (auto simp: qr_session_def terminal_state_def
        intro!: extends_byI [where rest = "[\<lparr>st_type = ''error'', st_payload = Txt_qr_channel_failed t\<rparr>]"])
next
  case (Inr evs)
  obtain r w' where l: "qr_loop False False evs (auth_fx Ax_connect w) = (r, w')" by fastforce
  then have x: "extends_by (states_of evs) (isl r) w w'"
    using qr_loop_extends [OF l] extends_by_start [of "auth_fx Ax_connect w" w] by simp
  have "extends_by (states_of evs) True w (snd (case qr_loop False False evs (auth_fx Ax_connect w) of
      (Inl err, w) \<Rightarrow> (Some err, w) | (Inr scanned, w) \<Rightarrow> await_login e uid i scanned w))"
  proof (cases r)
    case (Inr scanned)
    then have "extends_by (states_of evs) False w w'" using x by simp
    from extends_by_trans [OF this await_login_extends] show ?thesis by (simp add: l Inr)
  qed (use x in \<open>simp add: l\<close>)
  moreover have "extends_by (states_of evs) True w (publish_state ''error'' (Txt_connect_failed t) (auth_fx Ax_connect w))" for t
    by (rule extends_byI [where rest = "[\<lparr>st_type = ''error'', st_payload = Txt_connect_failed t\<rparr>]"])
      (simp_all add: terminal_state_def)
  ultimately show ?thesis using Inr by (cases "ae_connect e") (simp_all add: qr_session_def scan_states_def Let_def)
qed

lemma run_auth_extends: "extends_by (scan_states e) True w (run_auth e uid w)"
proof -
  have more: "extends_by n True w (publish_state ty t w')" if h: "extends_by n True w w'" for n ty t w'
  proof -
    obtain pre rest where p: "chan_sync w \<longrightarrow> chan_sync w'" "passing pre" "length pre \<le> n"
        "tried w' = tried w @ pre @ rest" "rest \<noteq> []" "terminal_state (hd rest)"
      using extends_by_elim [OF h] by (metis (full_types))
    show ?thesis
      by (rule extends_by_intro [where pre = pre and rest = "rest @ [\<lparr>st_type = ty, st_payload = t\<rparr>]"])
        (use p in simp_all)
  qed
  obtain r s where b: "ensure_auth_bot (ae_bots e (aw_table w)) (ae_fresh e) uid (aw_bots w) = (r, s)" by fastforce
  let ?w = "w\<lparr>aw_bots := s\<rparr>"
  have err: "extends_by (scan_states e) True w (publish_state ''error'' t ?w)" for t
    by (rule extends_byI [where rest = "[\<lparr>st_type = ''error'', st_payload = t\<rparr>]"]) (simp_all add: terminal_state_def)
  have sess: "extends_by (scan_states e) True w (snd (qr_session e uid i w1))"
    if "tried w1 = tried w" "chan_sync w1 = chan_sync w" for i w1
    using qr_session_extends [of e w1] extends_by_start [OF that] by simp
  have "(\<exists>err. authenticate_with_qr e uid w = (Some err, ?w)) \<or>
      extends_by (scan_states e) True w (snd (authenticate_with_qr e uid w))"
    using err sess [of "auth_fx Ax_prepare (w\<lparr>aw_bots := prepare_reauth (projr r) s\<rparr>)"] sess [of ?w]
    by (cases r) (auto simp: authenticate_with_qr_def b)
  then show ?thesis
    using err more by (auto simp: run_auth_def split: prod.split option.split)
qed

text \<open>C35: the client of an authorisation always sees it end: if at most nine codes and scans are announced, what
  the WebSocket handler sends it is a run of passing states followed by one terminal state, after which the
  connection is closed.\<close>

theorem auth_session_ends:
  assumes "aw_chan w = make_chan 10" "aw_fx w = []" "scan_states e \<le> 9"
  shows "\<exists>pre t. relay (\<lambda>_. True) 0 (chan_stream (aw_chan (run_auth e uid w))) = (pre @ [t], Relay_closed)
    \<and> passing pre \<and> terminal_state t \<and> length pre \<le> scan_states e"
proof -
  have "chan_sync w" using assms(1,2) by (simp add: chan_sync_def make_chan_def tried_def)
  then obtain pre rest where p: "chan_sync (run_auth e uid w)" "passing pre" "length pre \<le> scan_states e"
      "tried (run_auth e uid w) = pre @ rest" "rest \<noteq> []" "terminal_state (hd rest)"
    using run_auth_extends [of e w uid] assms(2) by (auto simp: extends_by_def tried_def)
  obtain t rest' where rest: "rest = t # rest'" using p(5) by (cases rest) auto
  have "take 10 (pre @ t # rest') = pre @ t # take (9 - length pre) rest'"
    using p(3) assms(3) by (simp add: take_Cons' numeral_eq_Suc)
  then have "chan_stream (aw_chan (run_auth e uid w)) = pre @ t # take (9 - length pre) rest'"
    using p(1,4) rest by (simp add: chan_sync_def chan_stream_def)
  then show ?thesis using relay_passing [of pre t 0] p(2,3,6) rest by auto
qed

definition example_auth_env :: auth_env where
  "example_auth_env = \<lparr>ae_bots = (\<lambda>_. example_bots_env), ae_fresh = Inr (Some blank_device), ae_client = True,
     ae_qr = Inr [Qr_code ''c'', Qr_success], ae_connect = Conn_ok, ae_done_in_time = True, ae_logged_in = True,
     ae_still_logged_in = True, ae_jid = ''5'',
     ae_paired = (\<lambda>st. st\<lparr>ds_device := map_option (\<lambda>d. d\<lparr>de_id := Some (new_jid ''5'' ''s'')\<rparr>) (ds_device st)\<rparr>),
     ae_tojson = (\<lambda>_. Inr ''{}''), ae_repo = Some \<lparr>tx_begin = None, tx_lookup = None, tx_encrypt = (\<lambda>_ t. Inr t),
       tx_exec = None, tx_commit = None\<rparr>\<rparr>"

definition example_world :: auth_world where
  "example_world = \<lparr>aw_bots = no_bots, aw_table = [(7, (None, False))], aw_chan = make_chan 10, aw_fx = []\<rparr>"

theorem auth_session_ends_witness:
  "\<exists>pre t. relay (\<lambda>_. True) 0 (chan_stream (aw_chan (run_auth example_auth_env 7 example_world))) = (pre @ [t], Relay_closed)"
proof -
  have "aw_chan example_world = make_chan 10" "aw_fx example_world = []" "scan_states example_auth_env \<le> 9"
    by (simp_all add: example_world_def scan_states_def example_auth_env_def)
  from auth_session_ends [OF this, of 7] show ?thesis by blast
qed

subsection \<open>What a success leaves behind\<close>

definition before_saving :: "auth_effect + auth_state \<Rightarrow> bool" where
  "before_saving x = (case x of
     Inl (Ax_save _) \<Rightarrow> False | Inl Ax_settings \<Rightarrow> False | Inl Ax_delete \<Rightarrow> False | Inl Ax_start \<Rightarrow> False | _ \<Rightarrow> True)"

definition early :: "auth_world \<Rightarrow> auth_world \<Rightarrow> bool" where
  "early w w' \<longleftrightarrow> aw_table w' = aw_table w \<and> (\<exists>pre. aw_fx w' = aw_fx w @ pre \<and> list_all before_saving pre)"

lemma early_publish: "early w w' \<Longrightarrow> early w (publish_state ty t w')"
  by (auto simp: early_def publish_state_def before_saving_def)

lemma early_fx: "early w w' \<Longrightarrow> x \<in> {Ax_prepare, Ax_connect, Ax_disconnect} \<Longrightarrow> early w (auth_fx x w')"
  by (auto simp: early_def auth_fx_def before_saving_def)

lemma early_bots [simp]: "early w (w'\<lparr>aw_bots := s\<rparr>) = early w w'"
  by (simp add: early_def)

lemma early_refl [simp]: "early w w"
  by (simp add: early_def)

lemma bots_simps [simp]: "aw_bots (publish_state ty t w) = aw_bots w" "aw_bots (auth_fx x w) = aw_bots w"
  by (simp_all add: publish_state_def auth_fx_def)

lemma qr_loop_early:
  "qr_loop shown scanned evs w = (r, w') \<Longrightarrow> early w0 w \<Longrightarrow> early w0 w' \<and> aw_bots w' = aw_bots w"
proof (induction shown scanned evs w arbitrary: r w' rule: qr_loop.induct)
  case (2 shown scanned ev evs w)
  have disc: "early w0 (auth_fx Ax_disconnect (publish_state ty t w))" for ty t
    by (intro early_fx early_publish) (simp_all add: "2.prems")
  have pub: "early w0 (publish_state ty t w)" for ty t
    by (intro early_publish "2.prems")
  show ?case
  proof (cases ev)
    case (Qr_code c)
    then show ?thesis using "2.IH"(1) [OF Qr_code _ pub] "2.prems"(1) by simp
  next
    case Qr_success
    then show ?thesis using "2.IH"(2) [OF Qr_success _ pub] "2.prems"(1) by simp
  next
    case (Qr_other t)
    then show ?thesis using "2.IH"(3) [OF Qr_other _ "2.prems"(2)] "2.prems"(1) by simp
  next
    case Qr_timeout
    then show ?thesis using disc "2.prems"(1) by (cases shown) auto
  next
    case (Qr_failed t)
    then show ?thesis using disc "2.prems"(1) by auto
  qed
qed simp

text \<open>The registry in which the codes are shown: the bot of the authorisation is made ready if it has an identity.
  The session that is paired in it, with the permissions of a first authorisation, and the key that it is stored under.\<close>

definition login_registry :: "nat \<Rightarrow> bots \<Rightarrow> bots" where
  "login_registry i s = (if bo_identity (bt_bots s ! i) then prepare_reauth i s else s)"

definition paired_store :: "auth_env \<Rightarrow> nat \<Rightarrow> bots \<Rightarrow> dev_store" where
  "paired_store e i s = ae_paired e (bo_store (bt_bots (login_registry i s) ! i))"

definition permitted :: "dev_store \<Rightarrow> dev_store" where
  "permitted st = st\<lparr>ds_text := True, ds_call := True\<rparr>"

definition session_key :: "bots_env \<Rightarrow> u32 \<Rightarrow> bots \<Rightarrow> master_key" where
  "session_key be uid s =
     fst (user_master_key (case be_rpc be of None \<Rightarrow> Inl Rpc_missing | Some r \<Rightarrow> r) (be_now be) (be_now be) uid (bt_keys s))"

lemma login_registry_simps [simp]:
  "bt_keys (login_registry i s) = bt_keys s" "bt_map (login_registry i s) = bt_map s"
  "length (bt_bots (login_registry i s)) = length (bt_bots s)"
  by (simp_all add: login_registry_def prepare_reauth_def upd_bot_def bfx_def)

lemma ensure_auth_bot_registered: "ensure_auth_bot e fresh uid b = (Inr i, s) \<Longrightarrow> lookup_bot uid s = Some i"
  by (auto simp: ensure_auth_bot_def case_prod_unfold split: option.splits sum.splits)

text \<open>A success goes through \<open>finish_auth\<close>, the bot being the one registered or a new one.\<close>

lemma authenticate_success:
  assumes "authenticate_with_qr e uid w = (None, w')"
  obtains i s w1 where "ensure_auth_bot (ae_bots e (aw_table w)) (ae_fresh e) uid (aw_bots w) = (Inr i, s)"
    "aw_bots w1 = login_registry i s" "early w w1"
    "finish_auth e uid i (publish_state ''success'' (Txt_authorised (ae_jid e)) w1) = (None, w')"
proof -
  obtain r s where b: "ensure_auth_bot (ae_bots e (aw_table w)) (ae_fresh e) uid (aw_bots w) = (r, s)" by fastforce
  obtain i where r: "r = Inr i" using assms b by (cases r) (auto simp: authenticate_with_qr_def)
  have "ae_client e" using assms b r by (auto simp: authenticate_with_qr_def split: if_splits)
  then obtain w0 where q: "qr_session e uid i w0 = (None, w')" and w0: "early w w0"
      and s: "aw_bots w0 = login_registry i s"
    using assms b r by (fastforce simp: authenticate_with_qr_def login_registry_def intro: early_fx split: if_splits)
  obtain evs where evs: "ae_qr e = Inr evs" using q by (cases "ae_qr e") (auto simp: qr_session_def)
  obtain l w1 where l: "qr_loop False False evs (auth_fx Ax_connect w0) = (l, w1)" by fastforce
  obtain scanned where l2: "l = Inr scanned" "await_login e uid i scanned w1 = (None, w')"
    using q evs l by (cases "ae_connect e"; cases l) (auto simp: qr_session_def Let_def)
  have "early w w1 \<and> aw_bots w1 = aw_bots w0" using qr_loop_early [OF l early_fx [OF w0]] by simp
  moreover have "finish_auth e uid i (publish_state ''success'' (Txt_authorised (ae_jid e)) w1) = (None, w')"
    using l2 by (simp add: await_login_def Let_def split: if_splits)
  ultimately show ?thesis using that b r s by metis
qed

lemma finish_auth_success:
  assumes "finish_auth e uid i w = (None, w')" "aw_bots w = login_registry i s" "i < length (bt_bots s)"
  obtains err s2 where
    "save_json (ae_tojson e) (ae_repo e) uid (session_key (ae_bots e (aw_table w)) uid s) True (paired_store e i s) (aw_table w)
       = (err, aw_table w')"
    "aw_fx w' = aw_fx w @ [Inl (Ax_save err), Inl Ax_settings, Inl Ax_disconnect, Inl Ax_delete, Inl Ax_start]"
    "bt_bots s2 = (bt_bots (login_registry i s))[i := (bt_bots (login_registry i s) ! i)
       \<lparr>bo_store := permitted (paired_store e i s), bo_text := True, bo_voice := True, bo_disconnected := True\<rparr>]"
    "\<forall>u. lookup_bot u s2 = (if u = uid then None else lookup_bot u s)"
    "start_user_bot (ae_bots e (aw_table w')) uid s2 = (None, aw_bots w')"
proof -
  let ?be = "ae_bots e (aw_table w)"
  let ?rpc = "case be_rpc ?be of None \<Rightarrow> Inl Rpc_missing | Some r \<Rightarrow> r"
  let ?paired = "upd_bot i (\<lambda>b. b\<lparr>bo_store := ae_paired e (bo_store b)\<rparr>) (aw_bots w)"
  obtain mk keys where mk: "user_master_key ?rpc (be_now ?be) (be_now ?be) uid (bt_keys ?paired) = (mk, keys)" by fastforce
  obtain err table where save:
    "save_json (ae_tojson e) (ae_repo e) uid mk True (bo_store (bt_bots ?paired ! i)) (aw_table w) = (err, table)" by fastforce
  let ?s = "delete_bot uid (upd_bot i (\<lambda>b. b\<lparr>bo_disconnected := True\<rparr>)
    (set_auth_settings True True i (?paired\<lparr>bt_keys := keys\<rparr>)))"
  obtain r s' where st: "start_user_bot (ae_bots e table) uid ?s = (r, s')" by fastforce
  have f: "r = None" "w' = auth_fx Ax_start ((auth_fx Ax_delete (auth_fx Ax_disconnect (auth_fx Ax_settings
      (auth_fx (Ax_save err) (w\<lparr>aw_table := table\<rparr>)))))\<lparr>aw_bots := s'\<rparr>)"
    using assms(1) unfolding finish_auth_def Let_def mk prod.case save st by (auto split: option.splits)
  have look: "\<forall>u. lookup_bot u ?s = (if u = uid then None else lookup_bot u s)"
    by (simp add: set_auth_settings_def assms(2)) (simp add: lookup_bot_def)
  have bots: "bt_bots ?s = (bt_bots (login_registry i s))[i := (bt_bots (login_registry i s) ! i)
       \<lparr>bo_store := permitted (paired_store e i s), bo_text := True, bo_voice := True, bo_disconnected := True\<rparr>]"
    using assms(3) by (simp add: set_auth_settings_def upd_bot_def update_at_def assms(2) permitted_def paired_store_def)
  have "mk = session_key ?be uid s" using mk by (simp add: session_key_def upd_bot_def assms(2))
  moreover have "bo_store (bt_bots ?paired ! i) = paired_store e i s"
    using assms(3) by (simp add: nth_update_at assms(2) paired_store_def)
  ultimately have save': "save_json (ae_tojson e) (ae_repo e) uid (session_key ?be uid s) True (paired_store e i s) (aw_table w)
      = (err, table)" using save by simp
  have table: "aw_table w' = table" "aw_bots w' = s'" and fx: "aw_fx w' = aw_fx w @
      [Inl (Ax_save err), Inl Ax_settings, Inl Ax_disconnect, Inl Ax_delete, Inl Ax_start]"
    by (simp_all add: f auth_fx_def)
  show ?thesis
    by (rule that [OF save' [folded table] fx bots look]) (use st f(1) table in simp)
qed

text \<open>C12: the client is told of the success before anything is saved or started. Then the session that was paired in the
  bot of this user is saved with both permissions, whatever they were, as text or encrypted with the user's key, a failure
  of this being ignored; that same bot is given both permissions, disconnected and taken out of the registry, where
  the other users keep their bots; and the bot of the user is started there from the table.\<close>

theorem auth_success_order:
  assumes "authenticate_with_qr e uid w = (None, w')" "bots_inv (aw_bots w)"
  shows "\<exists>pre err i s s2. list_all before_saving pre
    \<and> ensure_auth_bot (ae_bots e (aw_table w)) (ae_fresh e) uid (aw_bots w) = (Inr i, s) \<and> lookup_bot uid s = Some i
    \<and> aw_fx w' = aw_fx w @ pre @ [Inr \<lparr>st_type = ''success'', st_payload = Txt_authorised (ae_jid e)\<rparr>,
        Inl (Ax_save err), Inl Ax_settings, Inl Ax_disconnect, Inl Ax_delete, Inl Ax_start]
    \<and> save_json (ae_tojson e) (ae_repo e) uid (session_key (ae_bots e (aw_table w)) uid s) True (paired_store e i s)
        (aw_table w) = (err, aw_table w')
    \<and> (err \<noteq> None \<longrightarrow> aw_table w' = aw_table w)
    \<and> (err = None \<longrightarrow> (\<exists>json stored tx. ae_tojson e (permitted (paired_store e i s)) = Inr json \<and> ae_repo e = Some tx
        \<and> (let key = session_key (ae_bots e (aw_table w)) uid s
           in (if key = zero_key then Inr json else tx_encrypt tx key json) = Inr stored)
        \<and> aw_table w' = AList.update uid (Some stored, True) (aw_table w)))
    \<and> bt_bots s2 = (bt_bots (login_registry i s))[i := (bt_bots (login_registry i s) ! i)
        \<lparr>bo_store := permitted (paired_store e i s), bo_text := True, bo_voice := True, bo_disconnected := True\<rparr>]
    \<and> (\<forall>u. lookup_bot u s2 = (if u = uid then None else lookup_bot u s))
    \<and> start_user_bot (ae_bots e (aw_table w')) uid s2 = (None, aw_bots w')"
proof -
  obtain i s w1 where en: "ensure_auth_bot (ae_bots e (aw_table w)) (ae_fresh e) uid (aw_bots w) = (Inr i, s)"
    and w1: "aw_bots w1 = login_registry i s" and early: "early w w1"
    and f: "finish_auth e uid i (publish_state ''success'' (Txt_authorised (ae_jid e)) w1) = (None, w')"
    by (rule authenticate_success [OF assms(1)])
  have reg: "lookup_bot uid s = Some i" by (rule ensure_auth_bot_registered [OF en])
  have "bots_inv s" using inv_ensure_auth_bot [OF assms(2), of "ae_bots e (aw_table w)" "ae_fresh e" uid] en by simp
  then have "i < length (bt_bots s)" using bots_invD(1) reg by blast
  moreover obtain pre where pre: "aw_fx w1 = aw_fx w @ pre" "list_all before_saving pre" "aw_table w1 = aw_table w"
    using early by (auto simp: early_def)
  ultimately obtain err s2 where save: "save_json (ae_tojson e) (ae_repo e) uid (session_key (ae_bots e (aw_table w)) uid s) True
        (paired_store e i s) (aw_table w) = (err, aw_table w')"
    and fx: "aw_fx w' = aw_fx w @ pre @ [Inr \<lparr>st_type = ''success'', st_payload = Txt_authorised (ae_jid e)\<rparr>,
        Inl (Ax_save err), Inl Ax_settings, Inl Ax_disconnect, Inl Ax_delete, Inl Ax_start]"
    and s2: "bt_bots s2 = (bt_bots (login_registry i s))[i := (bt_bots (login_registry i s) ! i)
        \<lparr>bo_store := permitted (paired_store e i s), bo_text := True, bo_voice := True, bo_disconnected := True\<rparr>]"
      "\<forall>u. lookup_bot u s2 = (if u = uid then None else lookup_bot u s)"
      "start_user_bot (ae_bots e (aw_table w')) uid s2 = (None, aw_bots w')"
    using finish_auth_success [OF f, of s] w1 by (auto simp: publish_state_def)
  have saved: "(err \<noteq> None \<longrightarrow> aw_table w' = aw_table w)
    \<and> (err = None \<longrightarrow> (\<exists>json stored tx. ae_tojson e (permitted (paired_store e i s)) = Inr json \<and> ae_repo e = Some tx
        \<and> (let key = session_key (ae_bots e (aw_table w)) uid s
           in (if key = zero_key then Inr json else tx_encrypt tx key json) = Inr stored)
        \<and> aw_table w' = AList.update uid (Some stored, True) (aw_table w)))"
    using save_json_result [OF save] unfolding permitted_def Let_def by simp
  show ?thesis
    using en reg pre(2) fx save s2 saved
    by (intro exI [of _ pre] exI [of _ err] exI [of _ i] exI [of _ s] exI [of _ s2]) blast
qed

lemma start_user_bot_None:
  assumes "start_user_bot e uid s = (None, s')"
  obtains u st where "can_start e uid s u st" "bt_bots s' = bt_bots s @ [fresh_bot (wu_user u) st (create_assistant_model u)]"
    "lookup_bot (wu_user u) s' = Some (length (bt_bots s))"
proof -
  have "lookup_bot uid s = None \<and> (\<exists>u st. can_start e uid s u st)"
    using start_user_bot_fails [of uid s e] assms by fastforce
  then obtain u st where f: "lookup_bot uid s = None" and c: "can_start e uid s u st" by blast
  obtain s1 where s1: "same_bots s s1" "start_user_bot e uid s =
    (None, store_bot (wu_user u) (length (bt_bots s)) (snd (initialize_bot (wu_user u) st (create_assistant_model u) True s1)))"
    using start_user_bot_ok [OF f c] by blast
  then show ?thesis using that [OF c] assms by (auto simp: same_bots_def)
qed

text \<open>Authorising again a user whose bot is running does not end that bot: its context stays alive while the
  new bot is started and registered, so that the user has two live bots and the old one can be reached no
  more.\<close>

theorem reauthorised_bot_leaks:
  assumes "bots_inv (aw_bots w)" "lookup_bot uid (aw_bots w) = Some i" "\<not> bo_cancelled (bt_bots (aw_bots w) ! i)"
    and "\<And>t. own_row (ae_bots e t)" "authenticate_with_qr e uid w = (None, w')"
  shows "\<not> bo_cancelled (bt_bots (aw_bots w') ! i) \<and> bo_user (bt_bots (aw_bots w') ! i) = uid
    \<and> (\<exists>j. j \<noteq> i \<and> lookup_bot uid (aw_bots w') = Some j \<and> \<not> bo_cancelled (bt_bots (aw_bots w') ! j))"
proof -
  let ?b = "aw_bots w"
  have i: "i < length (bt_bots ?b)" "bo_user (bt_bots ?b ! i) = uid" using bots_invD(1,2) [OF assms(1,2)] by auto
  obtain i' s w1 where en: "ensure_auth_bot (ae_bots e (aw_table w)) (ae_fresh e) uid ?b = (Inr i', s)"
    and w1: "aw_bots w1 = login_registry i' s"
    and f: "finish_auth e uid i' (publish_state ''success'' (Txt_authorised (ae_jid e)) w1) = (None, w')"
    by (rule authenticate_success [OF assms(5)])
  have "i' = i" "s = ?b" using en assms(2) by (simp_all add: ensure_auth_bot_def)
  then have b1: "length (bt_bots (aw_bots w1)) = length (bt_bots ?b)" "\<not> bo_cancelled (bt_bots (aw_bots w1) ! i)"
    "bo_user (bt_bots (aw_bots w1) ! i) = uid"
    using w1 i assms(3) by (auto simp: login_registry_def prepare_reauth_def nth_update_at)
  obtain s2 where st: "start_user_bot (ae_bots e (aw_table w')) uid s2 = (None, aw_bots w')"
    and s2: "bt_bots s2 = (bt_bots (login_registry i s))[i := (bt_bots (login_registry i s) ! i)
       \<lparr>bo_store := permitted (paired_store e i s), bo_text := True, bo_voice := True, bo_disconnected := True\<rparr>]"
    using finish_auth_success [OF f [unfolded \<open>i' = i\<close>], of s] w1 \<open>i' = i\<close> \<open>s = ?b\<close> i(1) by auto
  obtain u d where u: "can_start (ae_bots e (aw_table w')) uid s2 u d" "bt_bots (aw_bots w') = bt_bots s2 @ [fresh_bot (wu_user u) d (create_assistant_model u)]"
    "lookup_bot (wu_user u) (aw_bots w') = Some (length (bt_bots s2))"
    by (rule start_user_bot_None [OF st])
  have "wu_user u = uid" using assms(4) u(1) by (auto simp: own_row_def can_start_def)
  then show ?thesis
    using u(2,3) s2 b1 i w1 \<open>i' = i\<close> \<open>s = ?b\<close> by (auto simp: nth_append nth_list_update)
qed

lemma example_auth_simps [simp]:
  "ae_bots example_auth_env t = example_bots_env" "ae_fresh example_auth_env = Inr (Some blank_device)"
  "ae_client example_auth_env" "ae_qr example_auth_env = Inr [Qr_code ''c'', Qr_success]"
  "ae_connect example_auth_env = Conn_ok" "ae_done_in_time example_auth_env" "ae_logged_in example_auth_env"
  "ae_still_logged_in example_auth_env"
  by (simp_all add: example_auth_env_def)

lemma example_finish_ok: "fst (finish_auth example_auth_env uid i w) = None"
proof -
  have ok: "fst (start_user_bot example_bots_env uid (delete_bot uid s)) = None" for s
    using start_user_bot_ok [of uid "delete_bot uid s" example_bots_env] example_can_start by (metis bot_map.load_delete fst_conv)
  show ?thesis
    using ok by (auto simp: finish_auth_def Let_def case_prod_unfold split: option.split)
qed

lemma example_authenticated:
  assumes "lookup_bot 7 (aw_bots w) = Some i \<or> lookup_bot 7 (aw_bots w) = None"
  shows "\<exists>w'. authenticate_with_qr example_auth_env 7 w = (None, w')"
proof -
  have "isl (fst (ensure_auth_bot example_bots_env (Inr (Some blank_device)) 7 (aw_bots w))) = False"
    by (cases "lookup_bot 7 (aw_bots w)")
      (simp_all add: ensure_auth_bot_def new_dev_store_def blank_device_def Let_def case_prod_unfold)
  then obtain i s where en: "ensure_auth_bot example_bots_env (Inr (Some blank_device)) 7 (aw_bots w) = (Inr i, s)"
    by (metis isl_def prod.collapse sum.collapse(2))
  have q: "fst (qr_session example_auth_env 7 i w0) = None" for w0
    using example_finish_ok [of 7 i] by (simp add: qr_session_def await_login_def Let_def)
  then have "fst (authenticate_with_qr example_auth_env 7 w) = None"
    by (simp add: authenticate_with_qr_def en)
  then show ?thesis by (metis prod.collapse)
qed

theorem auth_success_order_witness:
  "\<exists>w' pre. authenticate_with_qr example_auth_env 7 example_world = (None, w')
     \<and> aw_fx w' = pre @ [Inl Ax_settings, Inl Ax_disconnect, Inl Ax_delete, Inl Ax_start]"
proof -
  obtain w' where a: "authenticate_with_qr example_auth_env 7 example_world = (None, w')"
    using example_authenticated [of example_world 0] by (auto simp: example_world_def no_bots_def lookup_bot_def)
  have "bots_inv (aw_bots example_world)" using inv_no_bots by (simp add: example_world_def)
  from auth_success_order [OF a this] a show ?thesis by auto
qed

theorem reauthorised_bot_leaks_witness:
  "\<exists>w w' j. lookup_bot 7 (aw_bots w) = Some 0 \<and> authenticate_with_qr example_auth_env 7 w = (None, w')
     \<and> lookup_bot 7 (aw_bots w') = Some j \<and> j \<noteq> 0 \<and> \<not> bo_cancelled (bt_bots (aw_bots w') ! 0)"
proof -
  define w where "w = example_world\<lparr>aw_bots := snd (start_user_bot example_bots_env 7 no_bots)\<rparr>"
  obtain u st where u: "wu_user u = 7" "can_start example_bots_env 7 no_bots u st" using example_can_start by blast
  have "lookup_bot 7 no_bots = None" by (simp add: no_bots_def lookup_bot_def)
  from start_user_bot_ok [OF this u(2)] obtain s1 where s1: "same_bots no_bots s1"
    "start_user_bot example_bots_env 7 no_bots =
      (None, store_bot (wu_user u) (length (bt_bots no_bots)) (snd (initialize_bot (wu_user u) st (create_assistant_model u) True s1)))" by blast
  then have "lookup_bot 7 (aw_bots w) = Some 0" "bt_bots (aw_bots w) = [fresh_bot 7 st (create_assistant_model u)]"
    using u(1) by (auto simp: w_def same_bots_def no_bots_def)
  then have l: "lookup_bot 7 (aw_bots w) = Some 0" "\<not> bo_cancelled (bt_bots (aw_bots w) ! 0)" by simp_all
  have inv: "bots_inv (aw_bots w)"
    using inv_start_user_bot [OF inv_no_bots example_own_row] by (simp add: w_def)
  have own: "\<And>t. own_row (ae_bots example_auth_env t)" by (simp add: example_own_row)
  obtain w' where a: "authenticate_with_qr example_auth_env 7 w = (None, w')"
    using example_authenticated [of w 0] l(1) by blast
  from reauthorised_bot_leaks [OF inv l own a] show ?thesis using l(1) a by blast
qed

end
