(* ===== verification/Http_Handlers.thy ===== *)
theory Http_Handlers
  imports Auth_Safety
begin

section \<open>The HTTP interface (delivery/http/server.go, handlers/handler.go, handlers/uid.go)\<close>

text \<open>
  A request is its method, path, query and Origin header; a reply its status, headers and body. A JSON body
  is always an object of one text field. The handlers act on the state of \<open>Bots\<close>: \<open>h_*\<close> is the handler
  before the CORS wrapper, \<open>serve\<close> the multiplexer with the wrappers. The two WebSocket handlers come
  after: what they send is a list of frames. The counters are in Metrics.
\<close>

subsection \<open>Requests and replies\<close>

record request =
  rq_method :: string
  rq_path :: string
  rq_query :: "(string \<times> string) list"
  rq_origin :: string

datatype body = No_body | Plain string | Json_field string string

record reply =
  rp_status :: nat
  rp_headers :: "(string \<times> string) list"
  rp_body :: body

definition json_reply :: "nat \<Rightarrow> string \<Rightarrow> string \<Rightarrow> reply" where
  "json_reply code k v = \<lparr>rp_status = code, rp_headers = [(''Content-Type'', ''application/json'')], rp_body = Json_field k v\<rparr>"

definition plain_error :: "nat \<Rightarrow> string \<Rightarrow> reply" where
  "plain_error code msg = \<lparr>rp_status = code, rp_headers = [(''Content-Type'', ''text/plain; charset=utf-8''),
     (''X-Content-Type-Options'', ''nosniff'')], rp_body = Plain msg\<rparr>"

definition empty_reply :: "nat \<Rightarrow> reply" where
  "empty_reply code = \<lparr>rp_status = code, rp_headers = [], rp_body = No_body\<rparr>"

text \<open>\<open>ReadUID\<close>: the first value of the parameter, a number of 32 bits that is not zero.\<close>

definition read_uid :: "request \<Rightarrow> reply + u32" where
  "read_uid rq =
     (let s = (case map_of (rq_query rq) ''uid'' of None \<Rightarrow> [] | Some v \<Rightarrow> v) in
      if s = [] then Inl (json_reply 400 ''error'' ''uid is required'')
      else case parse_uint 32 s of
        Inl _ \<Rightarrow> Inl (json_reply 400 ''error'' ''invalid uid'')
      | Inr n \<Rightarrow> if n = 0 then Inl (json_reply 400 ''error'' ''invalid uid'') else Inr (of_nat n))"

subsection \<open>The operations on a bot\<close>

text \<open>The prologue shared by the four handlers: \<open>OPTIONS\<close> is answered, other methods than \<open>GET\<close> refused.\<close>

definition method_text :: string where
  "method_text = map char_of [208, 156, 208, 181, 209, 130, 208, 190, 208, 180, 32, 208, 189, 208, 181, 32,
     209, 128, 208, 176, 208, 183, 209, 128, 208, 181, 209, 136, 208, 181, 208, 189 :: nat]"

definition prologue :: "request \<Rightarrow> reply + u32" where
  "prologue rq =
     (if rq_method rq = ''OPTIONS'' then Inl (empty_reply 200)
      else if rq_method rq \<noteq> ''GET'' then Inl (plain_error 405 method_text)
      else read_uid rq)"

definition available_handler :: "request \<Rightarrow> reply" where
  "available_handler rq = empty_reply 200"

text \<open>\<open>GetBotUsername\<close>: \<open>text_of\<close> is the library's text of an address.\<close>

definition get_bot_username :: "(jid \<Rightarrow> string) \<Rightarrow> u32 \<Rightarrow> bots \<Rightarrow> string" where
  "get_bot_username text_of uid s =
     (case lookup_bot uid s of
        None \<Rightarrow> []
      | Some i \<Rightarrow>
          (case ds_device (bo_store (bt_bots s ! i)) of
             None \<Rightarrow> []
           | Some d \<Rightarrow> (case de_id d of None \<Rightarrow> [] | Some j \<Rightarrow> text_of j)))"

definition get_bot_name :: "(jid \<Rightarrow> string) \<Rightarrow> request \<Rightarrow> bots \<Rightarrow> reply" where
  "get_bot_name text_of rq s =
     (case prologue rq of
        Inl rp \<Rightarrow> rp
      | Inr uid \<Rightarrow> json_reply 200 ''bot_name'' (get_bot_username text_of uid s))"

definition start_bot_http :: "bots_env \<Rightarrow> request \<Rightarrow> bots \<Rightarrow> reply \<times> bots" where
  "start_bot_http e rq s =
     (case prologue rq of
        Inl rp \<Rightarrow> (rp, s)
      | Inr uid \<Rightarrow>
          (case start_user_bot e uid s of
             (Some _, s) \<Rightarrow> (json_reply 500 ''error'' ''failed to start bot'', s)
           | (None, s) \<Rightarrow> (json_reply 200 ''status'' ''bot started successfully'', s)))"

definition stop_bot_http :: "request \<Rightarrow> bots \<Rightarrow> reply \<times> bots" where
  "stop_bot_http rq s =
     (case prologue rq of
        Inl rp \<Rightarrow> (rp, s)
      | Inr uid \<Rightarrow>
          (case stop_user_bot uid s of
             (Some _, s) \<Rightarrow> (json_reply 500 ''error'' ''failed to stop bot'', s)
           | (None, s) \<Rightarrow> (json_reply 200 ''status'' ''bot stopped successfully'', s)))"

text \<open>The restart runs in a goroutine and is waited for during five seconds: \<open>slow\<close> if it takes longer.\<close>

definition restart_bot :: "bots_env \<Rightarrow> bool \<Rightarrow> request \<Rightarrow> bots \<Rightarrow> reply \<times> bots" where
  "restart_bot e slow rq s =
     (case prologue rq of
        Inl rp \<Rightarrow> (rp, s)
      | Inr uid \<Rightarrow>
          (case restart_user_bot e uid s of
             (r, s) \<Rightarrow>
               (if slow then json_reply 200 ''status'' ''bot reload in progress''
                else if r \<noteq> None then plain_error 500 ''Failed to reload bot''
                else json_reply 200 ''status'' ''bot reloaded successfully'', s)))"

subsection \<open>The server\<close>

text \<open>\<open>enableCORS\<close>; \<open>next\<close> is not called for \<open>OPTIONS\<close>. The headers set first come first.\<close>

definition cors_headers :: "request \<Rightarrow> (string \<times> string) list" where
  "cors_headers rq =
     (if rq_origin rq \<noteq> [] then [(''Access-Control-Allow-Origin'', rq_origin rq)] else []) @
     [(''Access-Control-Allow-Credentials'', ''true''),
      (''Access-Control-Allow-Methods'', ''POST, GET, OPTIONS''),
      (''Access-Control-Allow-Headers'', ''Content-Type, Authorization'')]"

definition enable_cors :: "(request \<Rightarrow> bots \<Rightarrow> reply \<times> bots) \<Rightarrow> request \<Rightarrow> bots \<Rightarrow> reply \<times> bots" where
  "enable_cors next rq s =
     (if rq_method rq = ''OPTIONS'' then (\<lparr>rp_status = 204, rp_headers = cors_headers rq, rp_body = No_body\<rparr>, s)
      else case next rq s of (rp, s) \<Rightarrow> (rp\<lparr>rp_headers := cors_headers rq @ rp_headers rp\<rparr>, s))"

text \<open>The routes whose reply is an ordinary one; \<open>None\<close> for the other paths.\<close>

definition serve :: "bots_env \<Rightarrow> (jid \<Rightarrow> string) \<Rightarrow> bool \<Rightarrow> request \<Rightarrow> bots \<Rightarrow> (reply \<times> bots) option" where
  "serve e text_of slow rq s =
     (if rq_path rq = ''/whats/available'' then Some (enable_cors (\<lambda>rq s. (available_handler rq, s)) rq s)
      else if rq_path rq = ''/whats/getname'' then Some (enable_cors (\<lambda>rq s. (get_bot_name text_of rq s, s)) rq s)
      else if rq_path rq = ''/whats/enable'' then Some (enable_cors (start_bot_http e) rq s)
      else if rq_path rq = ''/whats/disable'' then Some (enable_cors stop_bot_http rq s)
      else if rq_path rq = ''/whats/restart'' then Some (enable_cors (restart_bot e slow) rq s)
      else None)"

subsection \<open>The WebSocket of an authorisation\<close>

text \<open>
  \<open>AuthWebSocketHandler\<close>: the reply of a refused request, or the states sent. \<open>k\<close> is the identifier of the
  session, \<open>upgraded\<close> whether the protocol could be switched, \<open>wr\<close> which writes succeed. The flow runs on
  the new session's channel, and the session is removed when the handler returns.
\<close>

datatype ws_end = Ws_refused reply | Ws_no_upgrade | Ws_sent "auth_state list" relay_end

definition auth_web_socket ::
  "auth_env \<Rightarrow> string \<Rightarrow> bool \<Rightarrow> (nat \<Rightarrow> bool) \<Rightarrow> request \<Rightarrow> registry \<Rightarrow> state_chans \<Rightarrow> bots \<Rightarrow> channels
   \<Rightarrow> ws_end \<times> registry \<times> state_chans \<times> bots \<times> channels" where
  "auth_web_socket e k upgraded wr rq reg cs s table =
     (case read_uid rq of
        Inl rp \<Rightarrow> (Ws_refused rp, reg, cs, s, table)
      | Inr uid \<Rightarrow>
          if \<not> upgraded then (Ws_no_upgrade, reg_remove k reg, cs, s, table)
          else
            (case begin_auth_session k uid reg cs of
               (reg, cs) \<Rightarrow>
                 let c = length cs - 1;
                     w = run_auth e uid \<lparr>aw_bots = s, aw_table = table, aw_chan = cs ! c, aw_fx = []\<rparr>;
                     (sent, r) = relay wr 0 (chan_stream (aw_chan w))
                 in (Ws_sent sent r, if r = Relay_waits then reg else reg_remove k reg,
                     cs[c := aw_chan w], aw_bots w, aw_table w)))"

subsection \<open>Properties\<close>

lemma read_uid_range: "read_uid rq = Inr uid \<Longrightarrow> uid \<noteq> 0"
proof -
  assume r: "read_uid rq = Inr uid"
  then obtain s n where n: "parse_uint 32 s = Inr n" "n \<noteq> 0" "uid = of_nat n"
    by (auto simp: read_uid_def Let_def split: if_splits sum.splits option.splits)
  then have "n < 2 ^ 32" using parse_uint_bound by blast
  then have "\<not> 2 ^ 32 dvd n" using n(2) by (auto dest: dvd_imp_le)
  then show "uid \<noteq> 0" using n(3) by (simp add: word_of_nat_eq_0_iff)
qed

lemma read_uid_error: "read_uid rq = Inl rp \<Longrightarrow> rp_status rp = 400"
  by (auto simp: read_uid_def json_reply_def Let_def split: if_splits sum.splits)

text \<open>What the user's part of the request does to the bots, and whether it succeeds.\<close>

definition path_effect :: "bots_env \<Rightarrow> bool \<Rightarrow> string \<Rightarrow> u32 \<Rightarrow> bots \<Rightarrow> bool \<times> bots" where
  "path_effect e slow path uid s =
     (if path = ''/whats/enable'' then (case start_user_bot e uid s of (r, s) \<Rightarrow> (r = None, s))
      else if path = ''/whats/disable'' then (case stop_user_bot uid s of (r, s) \<Rightarrow> (r = None, s))
      else if path = ''/whats/restart'' then (case restart_user_bot e uid s of (r, s) \<Rightarrow> (slow \<or> r = None, s))
      else (True, s))"

lemma prologue_cases:
  "prologue rq = (if rq_method rq = ''OPTIONS'' then Inl (empty_reply 200)
     else if rq_method rq = ''GET'' then read_uid rq else Inl (plain_error 405 method_text))"
  by (simp add: prologue_def)

lemmas reply_defs = json_reply_def plain_error_def empty_reply_def enable_cors_def available_handler_def

lemma guarded_get:
  assumes "rq_method rq = ''GET''" "serve e text_of slow rq s = Some (rp, s')" "rq_path rq \<noteq> ''/whats/available''"
    "read_uid rq = Inr uid"
  shows "s' = snd (path_effect e slow (rq_path rq) uid s)
    \<and> rp_status rp = (if fst (path_effect e slow (rq_path rq) uid s) then 200 else 500)"
proof -
  have p: "prologue rq = Inr uid" using assms(1,4) by (simp add: prologue_cases)
  consider "rq_path rq = ''/whats/getname''" | "rq_path rq = ''/whats/enable''" | "rq_path rq = ''/whats/disable''"
    | "rq_path rq = ''/whats/restart''"
    using assms(2,3) by (auto simp: serve_def split: if_splits)
  then show ?thesis
  proof cases
    case 1
    then show ?thesis using assms p by (auto simp: serve_def reply_defs get_bot_name_def path_effect_def)
  next
    case 2
    obtain r s1 where "start_user_bot e uid s = (r, s1)" by fastforce
    then show ?thesis using 2 assms p by (cases r) (auto simp: serve_def reply_defs start_bot_http_def path_effect_def)
  next
    case 3
    obtain r s1 where "stop_user_bot uid s = (r, s1)" by fastforce
    then show ?thesis using 3 assms p by (cases r) (auto simp: serve_def reply_defs stop_bot_http_def path_effect_def)
  next
    case 4
    obtain r s1 where "restart_user_bot e uid s = (r, s1)" by fastforce
    then show ?thesis using 4 assms p
      by (cases r; cases slow) (auto simp: serve_def reply_defs restart_bot_def path_effect_def)
  qed
qed

lemma guarded_refusal:
  assumes "prologue rq = Inl rp0" "serve e text_of slow rq s = Some (rp, s')" "rq_path rq \<noteq> ''/whats/available''"
    "rq_method rq \<noteq> ''OPTIONS''"
  shows "s' = s \<and> rp_status rp = rp_status rp0"
  using assms by (auto simp: serve_def enable_cors_def get_bot_name_def start_bot_http_def stop_bot_http_def
      restart_bot_def split: if_splits)

text \<open>C25: a request to a bot's route changes a bot only if its method is GET and it names a user by a number of
  32 bits that is not zero, and then exactly as the operation of the route says, with the status 200 or
  500 as it succeeds or fails; otherwise nothing changes and the status is 204 for OPTIONS, 405 for another
  method and 400 for a bad user. The CORS headers are always there.\<close>

theorem http_requests_guarded:
  assumes "serve e text_of slow rq s = Some (rp, s')" "rq_path rq \<noteq> ''/whats/available''"
  shows "set (cors_headers rq) \<subseteq> set (rp_headers rp)
    \<and> (if rq_method rq = ''OPTIONS'' then s' = s \<and> rp_status rp = 204
       else if rq_method rq \<noteq> ''GET'' then s' = s \<and> rp_status rp = 405
       else case read_uid rq of
         Inl _ \<Rightarrow> s' = s \<and> rp_status rp = 400
       | Inr uid \<Rightarrow> uid \<noteq> 0 \<and> s' = snd (path_effect e slow (rq_path rq) uid s)
           \<and> rp_status rp = (if fst (path_effect e slow (rq_path rq) uid s) then 200 else 500))"
proof -
  have cors: "set (cors_headers rq) \<subseteq> set (rp_headers (fst (enable_cors next rq s)))" for "next"
    by (auto simp: enable_cors_def split: prod.split)
  have "\<exists>next. enable_cors next rq s = (rp, s')"
    using assms by (auto simp: serve_def split: if_splits)
  then have h: "set (cors_headers rq) \<subseteq> set (rp_headers rp)" using cors by (metis fst_conv)
  show ?thesis
  proof (cases "rq_method rq = ''OPTIONS''")
    case True
    then show ?thesis using assms h by (auto simp: serve_def enable_cors_def split: if_splits)
  next
    case False
    show ?thesis
    proof (cases "rq_method rq = ''GET''")
      case True
      show ?thesis
      proof (cases "read_uid rq")
        case (Inl rp0)
        then show ?thesis
          using guarded_refusal [OF _ assms False, of rp0] True h read_uid_error by (simp add: prologue_cases)
      next
        case (Inr uid)
        then show ?thesis using guarded_get [OF True assms Inr] True h read_uid_range by simp
      qed
    next
      case other: False
      then show ?thesis
        using guarded_refusal [OF _ assms False, of "plain_error 405 method_text"] False h
        by (simp add: prologue_cases plain_error_def)
    qed
  qed
qed

theorem http_requests_guarded_witness:
  "\<exists>rp s'. serve example_bots_env (\<lambda>_. []) False
      \<lparr>rq_method = ''GET'', rq_path = ''/whats/enable'', rq_query = [(''uid'', ''7'')], rq_origin = []\<rparr> no_bots = Some (rp, s')
     \<and> rp_status rp = 200 \<and> s' = snd (start_user_bot example_bots_env 7 no_bots)"
proof -
  let ?rq = "\<lparr>rq_method = ''GET'', rq_path = ''/whats/enable'', rq_query = [(''uid'', ''7'')], rq_origin = []\<rparr>"
  obtain rp s' where sv: "serve example_bots_env (\<lambda>_. []) False ?rq no_bots = Some (rp, s')"
    by (simp add: serve_def) (metis prod.collapse)
  have uid: "read_uid ?rq = Inr 7" by (simp add: read_uid_def parse_uint_def digit_val_def)
  obtain u st where u: "can_start example_bots_env 7 no_bots u st" using example_can_start by blast
  have "lookup_bot 7 no_bots = None" by (simp add: no_bots_def lookup_bot_def)
  from start_user_bot_ok [OF this u] have "fst (start_user_bot example_bots_env 7 no_bots) = None" by auto
  then show ?thesis
    using http_requests_guarded [OF sv] sv uid by (auto simp: path_effect_def split: prod.splits)
qed

end
