(* ===== verification/Contacts.thy ===== *)
theory Contacts
  imports Http_Handlers
begin

section \<open>Streaming the contacts (contacts/contacts.go, HandlerGetContactsWS, GetUserContactsStreaming)\<close>

text \<open>
  \<open>Stream\<close> starts two goroutines, one for the contacts and one for the groups, that send to the same channel;
  \<open>mix\<close> merges what they send and is any interleaving. The client library's answers are the fields of
  \<open>contacts_env\<close>: the contacts are a Go map, so the list is one order of it, and the groups' goroutine asks a
  second time when the groups cannot be had. The addresses are ASCII, so a rune is a byte.
\<close>

subsection \<open>Texts\<close>

text \<open>
  "Contact ", "Group ", "contact store not available", "error getting contacts: ", "error getting groups: ",
  and the three phrases of a critical error, the first of which is ASCII: "client not initialised",
  "bot not found".
\<close>

definition contact_label :: string where
  "contact_label = map char_of [208, 154, 208, 190, 208, 189, 209, 130, 208, 176, 208, 186,
     209, 130, 32 :: nat]"

definition group_label :: string where
  "group_label = map char_of [208, 147, 209, 128, 209, 131, 208, 191, 208, 191, 208, 176,
     32 :: nat]"

definition no_store_text :: string where
  "no_store_text = map char_of [209, 133, 209, 128, 208, 176, 208, 189, 208, 184, 208, 187,
     208, 184, 209, 137, 208, 181, 32, 208, 186, 208, 190, 208, 189, 209, 130, 208, 176, 208,
     186, 209, 130, 208, 190, 208, 178, 32, 208, 189, 208, 181, 208, 180, 208, 190, 209, 129,
     209, 130, 209, 131, 208, 191, 208, 189, 208, 190 :: nat]"

definition contacts_error_label :: string where
  "contacts_error_label = map char_of [208, 190, 209, 136, 208, 184, 208, 177, 208, 186, 208,
     176, 32, 208, 191, 208, 190, 208, 187, 209, 131, 209, 135, 208, 181, 208, 189, 208, 184,
     209, 143, 32, 208, 186, 208, 190, 208, 189, 209, 130, 208, 176, 208, 186, 209, 130, 208,
     190, 208, 178, 58, 32 :: nat]"

definition groups_error_label :: string where
  "groups_error_label = map char_of [208, 190, 209, 136, 208, 184, 208, 177, 208, 186, 208,
     176, 32, 208, 191, 208, 190, 208, 187, 209, 131, 209, 135, 208, 181, 208, 189, 208, 184,
     209, 143, 32, 208, 179, 209, 128, 209, 131, 208, 191, 208, 191, 58, 32 :: nat]"

definition client_phrase :: string where
  "client_phrase = map char_of [208, 186, 208, 187, 208, 184, 208, 181, 208, 189, 209, 130, 32,
     208, 189, 208, 181, 32, 208, 184, 208, 189, 208, 184, 209, 134, 208, 184, 208, 176, 208,
     187, 208, 184, 208, 183, 208, 184, 209, 128, 208, 190, 208, 178, 208, 176, 208,
     189 :: nat]"

definition bot_phrase :: string where
  "bot_phrase = map char_of [208, 177, 208, 190, 209, 130, 32, 208, 189, 208, 181, 32, 208,
     189, 208, 176, 208, 185, 208, 180, 208, 181, 208, 189 :: nat]"

subsection \<open>Contacts and groups\<close>

record wa_contact =
  ct_full :: string
  ct_push :: string

record wa_group =
  gr_jid :: jid
  gr_name :: string
  gr_topic :: string

record contact_info =
  ci_id :: u64
  ci_first :: string
  ci_last :: string
  ci_phone :: string

record group_info =
  gi_id :: u64
  gi_title :: string

datatype stream_error =
  Stream_no_bot u32 | Stream_no_client | Stream_not_authorised u32 | Stream_contacts string
| Stream_groups string | Stream_critical

datatype contact_msg =
  Cm_started string
| Cm_processing string nat
| Cm_progress string nat nat
| Cm_final "contact_info list" "group_info list"
| Cm_completed nat nat
| Cm_unavailable
| Cm_failed stream_error

record contacts_env =
  ct_client :: bool
  ct_logged_in :: bool
  ct_store :: bool
  ct_contacts :: "string + (jid \<times> wa_contact) list"
  ct_groups :: "string + wa_group list"
  ct_again :: "(jid \<times> wa_contact) list"
  ct_dus :: string
  ct_jid_text :: "jid \<Rightarrow> string"

text \<open>The number of an address, in the arithmetic of \<open>int64\<close>: the sign of the most negative one stays.\<close>

definition contact_hash :: "string \<Rightarrow> u64" where
  "contact_hash s = fold (\<lambda>c h. 31 * h + of_nat (of_char c)) s 0"

definition contact_id :: "string \<Rightarrow> u64" where
  "contact_id s = (let h = contact_hash s in if sint h < 0 then - h else h)"

definition contact_names :: "contacts_env \<Rightarrow> jid \<Rightarrow> wa_contact \<Rightarrow> string \<times> string" where
  "contact_names e j c =
     (let (first, last) =
        (if ct_full c \<noteq> [] then
           (case split_space2 (ct_full c) of (a, rest) \<Rightarrow> (a, case rest of None \<Rightarrow> [] | Some b \<Rightarrow> b))
         else if ct_push c \<noteq> [] then (ct_push c, [])
         else ([], []))
      in (if first \<noteq> [] then first
          else if jid_user j \<noteq> [] then jid_user j
          else contact_label @ ct_jid_text e j, last))"

definition contact_info_of :: "contacts_env \<Rightarrow> jid \<times> wa_contact \<Rightarrow> contact_info" where
  "contact_info_of e jc =
     (case jc of (j, c) \<Rightarrow>
        \<lparr>ci_id = contact_id (ct_jid_text e j), ci_first = fst (contact_names e j c),
         ci_last = snd (contact_names e j c), ci_phone = jid_user j\<rparr>)"

text \<open>The loop over the contacts; \<open>processed\<close> and \<open>valid\<close> are its two counters.\<close>

fun contact_loop ::
  "contacts_env \<Rightarrow> nat \<Rightarrow> nat \<Rightarrow> (jid \<times> wa_contact) list \<Rightarrow> contact_info list \<times> contact_msg list" where
  "contact_loop e processed valid [] = ([], [])"
| "contact_loop e processed valid ((j, c) # cs) =
     (if jid_server j \<noteq> ct_dus e then contact_loop e processed valid cs
      else
        let valid = Suc valid; processed = Suc processed;
            msgs = (if processed mod 10 = 0 \<or> processed = valid then [Cm_progress ''contacts'' processed valid] else [])
        in case contact_loop e processed valid cs of
             (infos, rest) \<Rightarrow> (contact_info_of e (j, c) # infos, msgs @ rest))"

text \<open>The goroutine of the contacts: its error, the contacts, what it sends.\<close>

definition contacts_part :: "contacts_env \<Rightarrow> string option \<times> contact_info list \<times> contact_msg list" where
  "contacts_part e =
     (if \<not> ct_store e then (Some no_store_text, [], [])
      else case ct_contacts e of
        Inl t \<Rightarrow> (Some (contacts_error_label @ t), [], [])
      | Inr cs \<Rightarrow>
          (case contact_loop e 0 0 cs of
             (infos, msgs) \<Rightarrow> (None, infos, Cm_processing ''processing_contacts'' (length cs) # msgs)))"

text \<open>The progress of the groups: every fifth and the last.\<close>

definition group_progress :: "nat \<Rightarrow> contact_msg list" where
  "group_progress n =
     concat (map (\<lambda>i. if Suc i mod 5 = 0 \<or> Suc i = n then [Cm_progress ''groups'' (Suc i) n] else []) [0..<n])"

definition group_info_of :: "contacts_env \<Rightarrow> wa_group \<Rightarrow> group_info" where
  "group_info_of e g =
     \<lparr>gi_id = contact_id (ct_jid_text e (gr_jid g)),
      gi_title = (if gr_name g \<noteq> [] then gr_name g else if gr_topic g \<noteq> [] then gr_topic g else jid_user (gr_jid g))\<rparr>"

definition group_of_jid :: "contacts_env \<Rightarrow> jid \<Rightarrow> group_info" where
  "group_of_jid e j =
     \<lparr>gi_id = contact_id (ct_jid_text e j), gi_title = group_label @ takeWhile (\<lambda>c. c \<noteq> CHR ''@'') (jid_user j)\<rparr>"

definition groups_part :: "contacts_env \<Rightarrow> string option \<times> group_info list \<times> contact_msg list" where
  "groups_part e =
     (let start = [Cm_started ''groups''] in
      case ct_groups e of
        Inr gs \<Rightarrow>
          (None, map (group_info_of e) gs,
           start @ [Cm_processing ''processing_groups'' (length gs)] @ group_progress (length gs))
      | Inl t \<Rightarrow>
          let err = Some (groups_error_label @ t) in
          if \<not> ct_store e then (err, [], start)
          else
            let js = filter (\<lambda>j. suffix ''g.us'' (jid_server j)) (map fst (ct_again e)) in
            (if js \<noteq> [] then None else err, map (group_of_jid e) js,
             start @ [Cm_processing ''processing_groups'' (length js)] @ group_progress (length js)))"

subsection \<open>The stream\<close>

definition critical_text :: "string \<Rightarrow> bool" where
  "critical_text t \<longleftrightarrow>
     str_contains t ''websocket not connected'' \<or> str_contains t client_phrase \<or> str_contains t bot_phrase"

text \<open>What is done when both goroutines have ended: the result and the last messages.\<close>

definition stream_end ::
  "string option \<Rightarrow> contact_info list \<Rightarrow> string option \<Rightarrow> group_info list \<Rightarrow> stream_error option \<times> contact_msg list" where
  "stream_end cerr humans gerr groups =
     (let c_fails = (cerr \<noteq> None \<and> humans = [] \<and> groups = []);
          critical = (c_fails \<and> critical_text (the cerr))
      in if c_fails \<and> \<not> critical then (Some (Stream_contacts (the cerr)), [])
      else
        let g_fails = (gerr \<noteq> None \<and> groups = []);
            critical = (critical \<or> g_fails \<and> critical_text (the gerr))
        in if g_fails \<and> humans = [] \<and> \<not> critical then (Some (Stream_groups (the gerr)), [])
        else if critical then (Some Stream_critical, [Cm_unavailable])
        else (None, [Cm_final humans groups, Cm_completed (length humans) (length groups)]))"

definition stream ::
  "contacts_env \<Rightarrow> (contact_msg list \<Rightarrow> contact_msg list \<Rightarrow> contact_msg list) \<Rightarrow> u32
   \<Rightarrow> stream_error option \<times> contact_msg list" where
  "stream e mix uid =
     (if \<not> ct_client e then (Some Stream_no_client, [])
      else if \<not> ct_logged_in e then (Some (Stream_not_authorised uid), [])
      else
        case contacts_part e of (cerr, humans, cmsgs) \<Rightarrow>
        (case groups_part e of (gerr, groups, gmsgs) \<Rightarrow>
        (case stream_end cerr humans gerr groups of (r, final) \<Rightarrow>
           (r, [Cm_started ''contacts''] @ mix cmsgs gmsgs @ final))))"

definition get_user_contacts_streaming ::
  "contacts_env \<Rightarrow> (contact_msg list \<Rightarrow> contact_msg list \<Rightarrow> contact_msg list) \<Rightarrow> u32 \<Rightarrow> bots
   \<Rightarrow> stream_error option \<times> contact_msg list" where
  "get_user_contacts_streaming e mix uid s =
     (if lookup_bot uid s = None then (Some (Stream_no_bot uid), []) else stream e mix uid)"

subsection \<open>The WebSocket of the contacts\<close>

text \<open>
  The goroutine of the handler sends the messages, and the error if there is one, into a channel of 100; the
  handler writes them until one cannot be written. \<open>Cw_sent\<close> has the messages written and whether the
  goroutine is left waiting: one message was taken and lost, a hundred are in the buffer.
\<close>

datatype contacts_end =
  Cw_refused reply | Cw_no_upgrade | Cw_no_bot nat | Cw_stopped nat | Cw_sent "contact_msg list" bool

fun write_all :: "(nat \<Rightarrow> bool) \<Rightarrow> nat \<Rightarrow> contact_msg list \<Rightarrow> contact_msg list \<times> bool" where
  "write_all wr n [] = ([], True)"
| "write_all wr n (m # ms) =
     (if wr n then (case write_all wr (Suc n) ms of (sent, ok) \<Rightarrow> (m # sent, ok)) else ([], False))"

definition contacts_messages :: "stream_error option \<times> contact_msg list \<Rightarrow> contact_msg list" where
  "contacts_messages rm =
     (case rm of (r, ms) \<Rightarrow> ms @ (case r of Some err \<Rightarrow> [Cm_failed err] | None \<Rightarrow> []))"

definition contacts_web_socket ::
  "contacts_env \<Rightarrow> (contact_msg list \<Rightarrow> contact_msg list \<Rightarrow> contact_msg list) \<Rightarrow> bool \<Rightarrow> (nat \<Rightarrow> bool)
   \<Rightarrow> request \<Rightarrow> bots \<Rightarrow> contacts_end" where
  "contacts_web_socket e mix upgraded wr rq s =
     (case read_uid rq of
        Inl rp \<Rightarrow> Cw_refused rp
      | Inr uid \<Rightarrow>
          if \<not> upgraded then Cw_no_upgrade
          else if \<not> fst (bot_state uid s) then Cw_no_bot 1011
          else if snd (bot_state uid s) then Cw_stopped 1006
          else
            let ms = contacts_messages (get_user_contacts_streaming e mix uid s);
                (sent, ok) = write_all wr 0 ms
            in Cw_sent sent (\<not> ok \<and> length ms > length sent + 1 + 100))"

subsection \<open>Properties\<close>

definition is_user :: "contacts_env \<Rightarrow> jid \<times> wa_contact \<Rightarrow> bool" where
  "is_user e jc \<longleftrightarrow> jid_server (fst jc) = ct_dus e"

definition user_contacts :: "contacts_env \<Rightarrow> (jid \<times> wa_contact) list" where
  "user_contacts e = (if ct_store e then (case ct_contacts e of Inl _ \<Rightarrow> [] | Inr cs \<Rightarrow> filter (is_user e) cs) else [])"

definition interleaving :: "(contact_msg list \<Rightarrow> contact_msg list \<Rightarrow> contact_msg list) \<Rightarrow> bool" where
  "interleaving mix \<longleftrightarrow> (\<forall>xs ys. mix xs ys \<in> shuffles xs ys)"

lemma contact_loop_result:
  "contact_loop e n n cs =
     (map (contact_info_of e) (filter (is_user e) cs),
      map (\<lambda>k. Cm_progress ''contacts'' (Suc k) (Suc k)) [n..<n + length (filter (is_user e) cs)])"
proof (induction cs arbitrary: n)
  case (Cons jc cs)
  obtain j c where jc: "jc = (j, c)" by fastforce
  have u: "[n..<Suc (n + m)] = n # [Suc n..<Suc (n + m)]" for m
    by (simp add: upt_conv_Cons del: upt_Suc)
  show ?case
  proof (cases "is_user e jc")
    case True
    then have "filter (is_user e) (jc # cs) = jc # filter (is_user e) cs" by simp
    then show ?thesis
      using True Cons.IH [of "Suc n"] unfolding jc
      by (simp add: is_user_def Let_def u del: upt_Suc)
  next
    case False
    then show ?thesis using Cons.IH [of n] unfolding jc by (simp add: is_user_def)
  qed
qed simp

lemma contacts_part_result:
  "snd (contacts_part e) = (map (contact_info_of e) (user_contacts e), snd (snd (contacts_part e)))
   \<and> filter (\<lambda>m. \<exists>a b. m = Cm_progress ''contacts'' a b) (snd (snd (contacts_part e))) =
     map (\<lambda>k. Cm_progress ''contacts'' (Suc k) (Suc k)) [0..<length (user_contacts e)]"
proof -
  have "filter (\<lambda>m. \<exists>a b. m = Cm_progress ''contacts'' a b) (map (\<lambda>k. Cm_progress ''contacts'' (Suc k) (Suc k)) ks) =
      map (\<lambda>k. Cm_progress ''contacts'' (Suc k) (Suc k)) ks" for ks
    by (induction ks) simp_all
  then show ?thesis
    by (simp add: contacts_part_def user_contacts_def contact_loop_result split: sum.split)
qed

lemma set_contacts_part: "m \<in> set (snd (snd (contacts_part e))) \<Longrightarrow>
  (\<exists>a b. m = Cm_progress ''contacts'' a b) \<or> (\<exists>n. m = Cm_processing ''processing_contacts'' n)"
  by (auto simp: contacts_part_def contact_loop_result split: sum.splits if_splits)

lemma set_group_progress: "m \<in> set (group_progress n) \<Longrightarrow> \<exists>a b. m = Cm_progress ''groups'' a b"
  by (auto simp: group_progress_def split: if_splits)

lemma set_groups_part: "m \<in> set (snd (snd (groups_part e))) \<Longrightarrow>
  (\<exists>a b. m = Cm_progress ''groups'' a b) \<or> m = Cm_started ''groups'' \<or> (\<exists>n. m = Cm_processing ''processing_groups'' n)"
  by (auto simp: groups_part_def Let_def dest: set_group_progress split: sum.splits if_splits)

lemma no_contact_progress: "filter (\<lambda>m. \<exists>a b. m = Cm_progress ''contacts'' a b) (snd (snd (groups_part e))) = []"
  using set_groups_part [of _ e] by (fastforce simp: filter_empty_conv)

lemma groups_part_groups: "ct_groups e = Inr gs \<Longrightarrow> groups_part e = (None, map (group_info_of e) gs, snd (snd (groups_part e)))"
  by (simp add: groups_part_def Let_def)

text \<open>The groups that are found, at once or, when they cannot be had, among the contacts; the two errors; and the result
  of the stream, from these.\<close>

definition found_groups :: "contacts_env \<Rightarrow> group_info list" where
  "found_groups e =
     (case ct_groups e of
        Inr gs \<Rightarrow> map (group_info_of e) gs
      | Inl _ \<Rightarrow>
          if ct_store e then map (group_of_jid e) (filter (\<lambda>j. suffix ''g.us'' (jid_server j)) (map fst (ct_again e))) else [])"

definition contacts_error :: "contacts_env \<Rightarrow> string option" where
  "contacts_error e =
     (if \<not> ct_store e then Some no_store_text
      else case ct_contacts e of Inl t \<Rightarrow> Some (contacts_error_label @ t) | Inr _ \<Rightarrow> None)"

definition stream_result :: "contacts_env \<Rightarrow> stream_error option" where
  "stream_result e =
     (if found_groups e \<noteq> [] then None
      else case contacts_error e of
        Some t \<Rightarrow> Some (if critical_text t then Stream_critical else Stream_contacts t)
      | None \<Rightarrow>
          (case ct_groups e of
             Inr _ \<Rightarrow> None
           | Inl t \<Rightarrow>
               if critical_text (groups_error_label @ t) then Some Stream_critical
               else if user_contacts e = [] then Some (Stream_groups (groups_error_label @ t)) else None))"

definition last_messages :: "contacts_env \<Rightarrow> contact_msg list" where
  "last_messages e =
     (case stream_result e of
        None \<Rightarrow> [Cm_final (map (contact_info_of e) (user_contacts e)) (found_groups e),
          Cm_completed (length (user_contacts e)) (length (found_groups e))]
      | Some err \<Rightarrow> if err = Stream_critical then [Cm_unavailable] else [])"

lemma contacts_part_error: "fst (contacts_part e) = contacts_error e"
  by (simp add: contacts_part_def contacts_error_def case_prod_unfold split: sum.split)

lemma groups_part_found:
  "fst (snd (groups_part e)) = found_groups e
   \<and> fst (groups_part e) = (case ct_groups e of Inr _ \<Rightarrow> None
       | Inl t \<Rightarrow> if found_groups e = [] then Some (groups_error_label @ t) else None)"
  by (auto simp: groups_part_def found_groups_def Let_def split: sum.split)

lemma no_contacts: "contacts_error e = Some t \<Longrightarrow> user_contacts e = []"
  by (auto simp: contacts_error_def user_contacts_def split: if_splits sum.splits)

lemma stream_end_result:
  "stream_end (fst (contacts_part e)) (map (contact_info_of e) (user_contacts e)) (fst (groups_part e)) (fst (snd (groups_part e)))
     = (stream_result e, last_messages e)"
proof (cases "found_groups e = []")
  case True
  then show ?thesis
    using no_contacts [of e]
    by (cases "contacts_error e"; cases "ct_groups e")
      (simp_all add: contacts_part_error groups_part_found stream_end_def stream_result_def last_messages_def Let_def)
qed (simp add: contacts_part_error groups_part_found stream_end_def stream_result_def last_messages_def Let_def split: sum.split)

text \<open>The middle of the stream: every contact is reported, and no final result is among it.\<close>

lemma middle_filter:
  assumes "interleaving mix"
  shows "filter (\<lambda>m. \<exists>a b. m = Cm_progress ''contacts'' a b)
      (mix (snd (snd (contacts_part e))) (snd (snd (groups_part e)))) =
    map (\<lambda>k. Cm_progress ''contacts'' (Suc k) (Suc k)) [0..<length (user_contacts e)]"
proof -
  let ?P = "\<lambda>m. \<exists>a b. m = Cm_progress ''contacts'' a b"
  let ?c = "snd (snd (contacts_part e))" and ?g = "snd (snd (groups_part e))"
  have "filter ?P (mix ?c ?g) \<in> filter ?P ` shuffles ?c ?g" using assms by (simp add: interleaving_def)
  also have "\<dots> = shuffles (filter ?P ?c) (filter ?P ?g)" by (rule filter_shuffles)
  also have "\<dots> = {filter ?P ?c}" by (simp add: no_contact_progress)
  finally show ?thesis using contacts_part_result [of e] by simp
qed

lemma middle_no_final:
  assumes "interleaving mix"
  shows "Cm_final hs gs \<notin> set (mix (snd (snd (contacts_part e))) (snd (snd (groups_part e))))
    \<and> Cm_unavailable \<notin> set (mix (snd (snd (contacts_part e))) (snd (snd (groups_part e))))"
proof -
  have "set (mix (snd (snd (contacts_part e))) (snd (snd (groups_part e)))) =
      set (snd (snd (contacts_part e))) \<union> set (snd (snd (groups_part e)))"
    using assms by (auto simp: interleaving_def dest: set_shuffles)
  then show ?thesis using set_contacts_part [of _ e] set_groups_part [of _ e] by fastforce
qed

text \<open>C26: however its two goroutines interleave, the stream ends as its sources say. If a group was found it succeeds. If
  none was found, it fails when there is no store or the contacts cannot be had, and when the groups cannot be had and
  there is no contact of a user or the error is a critical one. A stream that succeeds ends with one result that has
  exactly the contacts of users, in order, and the groups, of the client or, when they cannot be had, those among the
  addresses of the contacts, followed by their numbers. A stream that fails has no result; with a critical error it ends with the message that the
  contacts are not available. Every single contact is reported as progress, with a total equal to the count so far.\<close>

theorem contacts_stream_correct:
  assumes "ct_client e" "ct_logged_in e" "interleaving mix"
  shows "\<exists>mid. stream e mix uid = (stream_result e, Cm_started ''contacts'' # mid @ last_messages e)
    \<and> filter (\<lambda>m. \<exists>a b. m = Cm_progress ''contacts'' a b) mid =
        map (\<lambda>k. Cm_progress ''contacts'' (Suc k) (Suc k)) [0..<length (user_contacts e)]
    \<and> (\<forall>hs gs. Cm_final hs gs \<notin> set mid) \<and> Cm_unavailable \<notin> set mid"
proof -
  let ?mid = "mix (snd (snd (contacts_part e))) (snd (snd (groups_part e)))"
  have humans: "fst (snd (contacts_part e)) = map (contact_info_of e) (user_contacts e)"
    using contacts_part_result [of e] by (metis fst_conv)
  have "stream e mix uid = (stream_result e, Cm_started ''contacts'' # ?mid @ last_messages e)"
    using assms(1,2) stream_end_result [of e] by (simp add: stream_def case_prod_unfold humans)
  then show ?thesis
    using middle_filter [OF assms(3), of e] middle_no_final [OF assms(3), of _ _ e] by (intro exI [of _ ?mid]) simp
qed

definition example_contacts :: "nat \<Rightarrow> contacts_env" where
  "example_contacts n = \<lparr>ct_client = True, ct_logged_in = True, ct_store = True,
     ct_contacts = Inr (replicate n (new_jid ''5'' ''s'', \<lparr>ct_full = ''A B'', ct_push = []\<rparr>)), ct_groups = Inr [],
     ct_again = [], ct_dus = ''s'', ct_jid_text = jid_user\<rparr>"

lemma interleaving_append: "interleaving (@)"
proof -
  have "xs @ ys \<in> shuffles xs ys" for xs ys :: "contact_msg list"
    by (induction xs) (auto intro: Cons_in_shuffles_leftI)
  then show ?thesis by (simp add: interleaving_def)
qed

theorem contacts_stream_correct_witness:
  "\<exists>r ms. stream (example_contacts 1) (@) 7 = (r, ms)
     \<and> Cm_final [\<lparr>ci_id = contact_id ''5'', ci_first = ''A'', ci_last = ''B'', ci_phone = ''5''\<rparr>] [] \<in> set ms"
proof -
  let ?e = "example_contacts 1"
  have u: "map (contact_info_of ?e) (user_contacts ?e) =
      [\<lparr>ci_id = contact_id ''5'', ci_first = ''A'', ci_last = ''B'', ci_phone = ''5''\<rparr>]" and "found_groups ?e = []"
    and "stream_result ?e = None" and e: "ct_client ?e" "ct_logged_in ?e"
    by (simp_all add: example_contacts_def user_contacts_def is_user_def contact_info_of_def contact_names_def found_groups_def
        stream_result_def contacts_error_def)
  then have "Cm_final [\<lparr>ci_id = contact_id ''5'', ci_first = ''A'', ci_last = ''B'', ci_phone = ''5''\<rparr>] [] \<in> set (last_messages ?e)"
    by (simp add: last_messages_def)
  then show ?thesis using contacts_stream_correct [OF e interleaving_append, of 7] by auto
qed

text \<open>When the client of the stream goes away at the first message and the user has more than a hundred
  contacts, the goroutine that reads them waits for ever on its channel.\<close>

theorem contacts_reader_leaks:
  assumes "read_uid rq = Inr uid" "bot_state uid s = (True, False)" "\<not> wr 0" "interleaving mix"
    and "ct_client e" "ct_logged_in e" "100 < length (user_contacts e)"
  shows "contacts_web_socket e mix True wr rq s = Cw_sent [] True"
proof -
  let ?mid = "mix (snd (snd (contacts_part e))) (snd (snd (groups_part e)))"
  let ?P = "\<lambda>m. \<exists>a b. m = Cm_progress ''contacts'' a b"
  obtain r final where st: "stream e mix uid = (r, [Cm_started ''contacts''] @ ?mid @ final)"
    using assms(5,6) by (simp add: stream_def case_prod_unfold)
  have "length (filter ?P ?mid) \<le> length ?mid" by (rule length_filter_le)
  then have "length (user_contacts e) \<le> length ?mid"
    unfolding middle_filter [OF assms(4), of e] by simp
  then have "101 < length (contacts_messages (stream e mix uid))"
    using assms(7) st by (simp add: contacts_messages_def)
  moreover have "lookup_bot uid s \<noteq> None" using assms(2) by (auto simp: bot_state_def split: option.splits)
  ultimately show ?thesis
    using assms(1,2,3) by (cases "contacts_messages (stream e mix uid)")
      (auto simp: contacts_web_socket_def get_user_contacts_streaming_def Let_def)
qed

theorem contacts_reader_leaks_witness:
  "contacts_web_socket (example_contacts 101) (@) True (\<lambda>_. False)
     \<lparr>rq_method = ''GET'', rq_path = ''/whats/contacts/ws'', rq_query = [(''uid'', ''7'')], rq_origin = []\<rparr>
     (store_bot 7 0 (no_bots\<lparr>bt_bots := [fresh_bot 7 st a]\<rparr>)) = Cw_sent [] True"
proof -
  have u: "user_contacts (example_contacts 101) = replicate 101 (new_jid ''5'' ''s'', \<lparr>ct_full = ''A B'', ct_push = []\<rparr>)"
    by (simp add: example_contacts_def user_contacts_def is_user_def)
  show ?thesis
    by (rule contacts_reader_leaks [OF _ _ _ interleaving_append, where uid = 7])
      (simp_all only: u length_replicate, simp_all add: read_uid_def parse_uint_def digit_val_def bot_state_def
        example_contacts_def)
qed

text \<open>C40: the number given to a contact or group is never negative, but for the one address in \<open>2^64\<close> whose hash is
  the most negative number, which has no absolute value.\<close>

theorem contact_id_bounds:
  "if contact_hash s = 2 ^ 63 then sint (contact_id s) = - (2 ^ 63) else 0 \<le> sint (contact_id s)"
proof (cases "contact_hash s = 2 ^ 63")
  case True
  then show ?thesis by (simp add: contact_id_def)
next
  case False
  let ?h = "contact_hash s"
  have r: "- (2 ^ 63) \<le> sint ?h" "sint ?h < 2 ^ 63"
    using sint_ge [of ?h] sint_lt [of ?h] by simp_all
  have n: "sint ?h \<noteq> - (2 ^ 63)"
  proof
    assume "sint ?h = - (2 ^ 63)"
    moreover have "?h = word_of_int (sint ?h)" by simp
    ultimately have "?h = word_of_int (- (2 ^ 63))" by metis
    then show False using False by simp
  qed
  have "sint (- ?h) = - sint ?h" if "sint ?h < 0"
    using r n that by (simp add: sint_word_ariths signed_take_bit_int_eq_self)
  then show ?thesis using False by (auto simp: contact_id_def Let_def)
qed

end
