(* ===== verification/Media.thy ===== *)
theory Media
  imports Call_Events Messages "HOL-Library.AList"
begin

section \<open>Sending answers (bot_media.go, bot_typing.go)\<close>

text \<open>
  Downloading a file for an answer with retries, the types of files, the order in which the parts of an
  answer are sent, and the "typing" status that an answer ends. The client's answers are parameters.
\<close>

subsection \<open>Downloading with retries (uploadFileWithRetry)\<close>

text \<open>What one attempt meets: no request, no response, a status with its text, or a body.\<close>

datatype attempt =
  No_request string | No_response string | Status nat string | Read_failed string | Body "byte list"

datatype upload_error =
  Request_failed string | Transport_failed string | Unsupported_media nat | Http_error nat string
| Reading_failed string | Attempts_exhausted

definition max_retries :: nat where "max_retries = 3"

text \<open>The error an attempt ends with when it is the last one; \<open>None\<close> for a success.\<close>

definition attempt_error :: "attempt \<Rightarrow> upload_error option" where
  "attempt_error a =
     (case a of
        No_request t \<Rightarrow> Some (Request_failed t)
      | No_response t \<Rightarrow> Some (Transport_failed t)
      | Status code t \<Rightarrow>
          if code = 415 then Some (Unsupported_media max_retries) else Some (Http_error code t)
      | Read_failed t \<Rightarrow> Some (Reading_failed t)
      | Body _ \<Rightarrow> None)"

text \<open>
  The loop: the result, the number of attempts made, and the time slept in nanoseconds. A response with
  status 200 is \<open>Read_failed\<close> or \<open>Body\<close>.
\<close>

function upload_loop :: "(nat \<Rightarrow> attempt) \<Rightarrow> nat \<Rightarrow> int \<Rightarrow> (upload_error + byte list) \<times> nat \<times> int" where
  "upload_loop get k slept =
     (if k < max_retries then
        (case attempt_error (get k) of
           None \<Rightarrow> ((case get k of Body bs \<Rightarrow> Inr bs | _ \<Rightarrow> Inr []), k + 1, slept)
         | Some err \<Rightarrow>
             if k = max_retries - 1 then (Inl err, k + 1, slept)
             else upload_loop get (k + 1) (slept + second * int (k + 1)))
      else (Inl Attempts_exhausted, k, slept))"
  by pat_completeness auto
termination
  by (relation "measure (\<lambda>(get, k, slept). max_retries - k)") auto

declare upload_loop.simps [simp del]

definition upload_file_with_retry :: "(nat \<Rightarrow> attempt) \<Rightarrow> (upload_error + byte list) \<times> nat \<times> int" where
  "upload_file_with_retry get = upload_loop get 0 0"

subsection \<open>Types of files\<close>

text \<open>\<open>filepath.Ext\<close>: from the last dot of the last path element, or nothing.\<close>

fun ext_scan :: "string \<Rightarrow> string \<Rightarrow> string" where
  "ext_scan acc [] = []"
| "ext_scan acc (c # cs) =
     (if c = CHR ''/'' then [] else if c = CHR ''.'' then c # acc else ext_scan (c # acc) cs)"

definition file_ext :: "string \<Rightarrow> string" where
  "file_ext name = ext_scan [] (rev name)"

definition mime_type_from_filename :: "string \<Rightarrow> string" where
  "mime_type_from_filename name =
     (let ext = to_lower (file_ext name) in
      if ext = ''.jpg'' \<or> ext = ''.jpeg'' then ''image/jpeg''
      else if ext = ''.png'' then ''image/png''
      else if ext = ''.gif'' then ''image/gif''
      else if ext = ''.webp'' then ''image/webp''
      else if ext = ''.mp4'' then ''video/mp4''
      else if ext = ''.mp3'' then ''audio/mpeg''
      else if ext = ''.ogg'' then ''audio/ogg''
      else if ext = ''.pdf'' then ''application/pdf''
      else if ext = ''.txt'' then ''text/plain''
      else ''application/octet-stream'')"

text \<open>\<open>model.FileType\<close>; any other value is \<open>Other_file\<close>. The media type of the upload has four values.\<close>

datatype file_kind = Photo | Video | Audio | Doc | Other_file string

datatype wa_media = Wa_image | Wa_video | Wa_audio | Wa_document

definition whatsapp_media_type :: "file_kind \<Rightarrow> wa_media" where
  "whatsapp_media_type k =
     (case k of Photo \<Rightarrow> Wa_image | Video \<Rightarrow> Wa_video | Audio \<Rightarrow> Wa_audio | Doc \<Rightarrow> Wa_document
      | Other_file _ \<Rightarrow> Wa_document)"

subsection \<open>Sending an answer\<close>

record answer_file =
  af_kind :: file_kind
  af_url :: string
  af_name :: string
  af_caption :: string

datatype send_effect =
  Sx_text jid string
| Sx_upload wa_media "byte list"
| Sx_file jid file_kind string string string
| Sx_cancel_typing nat
| Sx_paused jid

record send_env =
  se_get :: "string \<Rightarrow> nat \<Rightarrow> attempt"
  se_upload :: "wa_media \<Rightarrow> byte list \<Rightarrow> string option"
  se_send_text :: "string option"
  se_send_file :: "answer_file \<Rightarrow> string option"

datatype send_error =
  Text_failed string | File_missing string upload_error | File_upload_failed string
| Unsupported_file string | File_failed string string

text \<open>\<open>sendFile\<close>: the upload happens before the type is checked. An audio message has no caption, a document has its name in place of one.\<close>

definition send_file :: "send_env \<Rightarrow> jid \<Rightarrow> answer_file \<Rightarrow> send_error option \<times> send_effect list" where
  "send_file e addr f =
     (case fst (upload_file_with_retry (se_get e (af_url f))) of
        Inl err \<Rightarrow> (Some (File_missing (af_name f) err), [])
      | Inr bs \<Rightarrow>
          let mt = whatsapp_media_type (af_kind f); up = [Sx_upload mt bs] in
          (case se_upload e mt bs of
             Some t \<Rightarrow> (Some (File_upload_failed t), up)
           | None \<Rightarrow>
               let mime = mime_type_from_filename (af_name f);
                   label = (case af_kind f of Photo \<Rightarrow> af_caption f | Video \<Rightarrow> af_caption f
                            | Doc \<Rightarrow> af_name f | _ \<Rightarrow> []);
                   out = up @ [Sx_file addr (af_kind f) (af_name f) mime label]
               in (case af_kind f of
                     Other_file k \<Rightarrow> (Some (Unsupported_file k), up)
                   | _ \<Rightarrow> (case se_send_file e f of
                             Some t \<Rightarrow> (Some (File_failed (af_name f) t), out)
                           | None \<Rightarrow> (None, out)))))"

text \<open>
  \<open>typingCancels\<close> maps a sender to the token of the latest typing status; \<open>getAndRemoveTypingCancel\<close>
  takes it out. \<open>ParseUint\<close> gives 0 for a user name that is not a number, and the greatest number for
  one that is too large.
\<close>

definition typing_key :: "jid \<Rightarrow> u64" where
  "typing_key addr =
     (case parse_uint 64 (jid_user addr) of Inr n \<Rightarrow> of_nat n | Inl ErrSyntax \<Rightarrow> 0 | Inl ErrRange \<Rightarrow> - 1)"

definition take_typing :: "u64 \<Rightarrow> (u64 \<times> nat) list \<Rightarrow> nat option \<times> (u64 \<times> nat) list" where
  "take_typing sid typing =
     (case map_of typing sid of
        None \<Rightarrow> (None, typing)
      | Some tok \<Rightarrow> (Some tok, AList.delete sid typing))"

definition start_typing :: "u64 \<Rightarrow> nat \<Rightarrow> (u64 \<times> nat) list \<Rightarrow> (u64 \<times> nat) list" where
  "start_typing sid tok typing = AList.update sid tok typing"

text \<open>
  The rest of \<open>setTyping\<close>: \<open>stored\<close> is the respondent's address, \<open>dus\<close> the server of ordinary users. The status
  "composing" is taken back when the answer cancels it or after 30 s, but not when it was refused.
\<close>

datatype typing_effect = Tx_composing jid | Tx_paused jid

definition set_typing :: "string \<Rightarrow> jid option \<Rightarrow> u64 \<Rightarrow> bool \<Rightarrow> typing_effect list" where
  "set_typing dus stored sid refused =
     (let addr = (case stored of Some j \<Rightarrow> j | None \<Rightarrow> new_jid (format_uint (unat sid)) dus)
      in Tx_composing addr # (if refused then [] else [Tx_paused addr]))"

text \<open>\<open>sendMessage\<close>: its deferred part ends the typing status on every way out; a file that fails is skipped.\<close>

definition send_message ::
  "send_env \<Rightarrow> jid \<Rightarrow> string \<Rightarrow> answer_file list \<Rightarrow> (u64 \<times> nat) list \<Rightarrow>
   send_error option \<times> send_effect list \<times> (u64 \<times> nat) list" where
  "send_message e addr body files typing =
     (let (tok, typing') = take_typing (typing_key addr) typing;
          tail = (case tok of Some t \<Rightarrow> [Sx_cancel_typing t] | None \<Rightarrow> []) @ [Sx_paused addr];
          txt_fx = (if body \<noteq> [] then [Sx_text addr body] else [])
      in case (if body \<noteq> [] then se_send_text e else None) of
           Some t \<Rightarrow> (Some (Text_failed t), txt_fx @ tail, typing')
         | None \<Rightarrow> (None, txt_fx @ concat (map (\<lambda>f. snd (send_file e addr f)) files) @ tail, typing'))"

subsection \<open>Properties\<close>

definition body_of :: "attempt \<Rightarrow> byte list option" where
  "body_of a = (case a of Body bs \<Rightarrow> Some bs | _ \<Rightarrow> None)"

lemma upload_loop_unfold:
  "k < 3 \<Longrightarrow> upload_loop get k s =
     (case body_of (get k) of
        Some bs \<Rightarrow> (Inr bs, k + 1, s)
      | None \<Rightarrow> if k = 2 then (Inl (the (attempt_error (get k))), k + 1, s)
                else upload_loop get (k + 1) (s + second * int (k + 1)))"
  by (simp add: upload_loop.simps [of get k] max_retries_def numeral_eq_Suc body_of_def attempt_error_def split: attempt.split)

text \<open>The download makes at most three attempts, stops at the first that succeeds and gives its body,
  sleeps one and then two seconds between them, and otherwise fails with the error of the third attempt;
  "all attempts exhausted" is never reported.\<close>

theorem upload_retry_correct:
  "upload_file_with_retry get =
     (case body_of (get 0) of
        Some bs \<Rightarrow> (Inr bs, 1, 0)
      | None \<Rightarrow>
         (case body_of (get 1) of
            Some bs \<Rightarrow> (Inr bs, 2, second)
          | None \<Rightarrow>
             (case body_of (get 2) of
                Some bs \<Rightarrow> (Inr bs, 3, 3 * second)
              | None \<Rightarrow> (Inl (the (attempt_error (get 2))), 3, 3 * second))))
   \<and> fst (upload_file_with_retry get) \<noteq> Inl Attempts_exhausted"
proof -
  have n: "body_of a = None \<Longrightarrow> the (attempt_error a) \<noteq> Attempts_exhausted" for a
    by (cases a) (simp_all add: attempt_error_def body_of_def)
  show ?thesis
    using n [of "get 2"]
    by (auto simp: upload_file_with_retry_def upload_loop_unfold numeral_2_eq_2 split: option.split)
qed

text \<open>Whatever fails while an answer is sent, the typing status of its respondent is taken out and
  cancelled if there was one, the status "paused" is the last thing sent, and no other respondent's
  typing status changes.\<close>

theorem send_message_ends_typing:
  "case send_message e addr body files typing of
     (r, fx, typing') \<Rightarrow>
       fx \<noteq> [] \<and> last fx = Sx_paused addr \<and> map_of typing' (typing_key addr) = None
       \<and> (\<forall>tok. map_of typing (typing_key addr) = Some tok \<longrightarrow> Sx_cancel_typing tok \<in> set fx)
       \<and> (\<forall>k. k \<noteq> typing_key addr \<longrightarrow> map_of typing' k = map_of typing k)
       \<and> (body \<noteq> [] \<longrightarrow> hd fx = Sx_text addr body)"
  by (simp add: send_message_def Let_def take_typing_def delete_conv' split: option.split)

theorem send_message_ends_typing_witness:
  "Sx_cancel_typing 4 \<in> set (fst (snd (send_message
     \<lparr>se_get = (\<lambda>_ _. Body []), se_upload = (\<lambda>_ _. None), se_send_text = Some ''x'', se_send_file = (\<lambda>_. None)\<rparr>
     (new_jid ''5'' ''s'') ''hi'' [] [(5, 4)])))"
  using send_message_ends_typing [where typing = "[(5, 4)]" and body = "''hi''" and addr = "new_jid ''5'' ''s''"
      and files = "[]" and e = "\<lparr>se_get = (\<lambda>_ _. Body []), se_upload = (\<lambda>_ _. None), se_send_text = Some ''x'',
        se_send_file = (\<lambda>_. None)\<rparr>"]
  by (auto simp: typing_key_def parse_uint_def digit_val_def split: prod.splits)

end
