(* ===== verification/Bot_Phases.thy ===== *)
theory Bot_Phases
  imports Bot_Registry
begin

section \<open>The life of a user's bot: the registry refines a state machine\<close>

text \<open>
  Seen from outside (\<open>BotState\<close>, the answers to start and stop) a user's bot is absent, running or stopped. What an
  operation may do to it is a move of a small machine; \<open>move_of\<close> says which move each operation makes for a user, from
  what the database, the subscription, the key, the session and the connection say. The theorem is that the registry does
  exactly these moves, whatever the other users' bots go through.
\<close>

subsection \<open>The machine\<close>

datatype bot_phase = Absent | Running | Stopped

datatype bot_move = M_keep | M_begin | M_end | M_replace | M_halt | M_drop

text \<open>A bot that has stopped is not ended, and nothing begins before it is gone.\<close>

fun phase_move :: "bot_move \<Rightarrow> bot_phase \<Rightarrow> bot_phase" where
  "phase_move M_keep p = p"
| "phase_move M_begin p = (if p = Absent then Running else p)"
| "phase_move M_end p = (if p = Running then Absent else p)"
| "phase_move M_replace p = Running"
| "phase_move M_halt p = (if p = Running then Stopped else p)"
| "phase_move M_drop p = Absent"

definition bot_phase :: "u32 \<Rightarrow> bots \<Rightarrow> bot_phase" where
  "bot_phase u s = (case bot_state u s of (found, stopped) \<Rightarrow> if \<not> found then Absent else if stopped then Stopped else Running)"

subsection \<open>Which move an operation makes\<close>

text \<open>Whether the row and its session can be read, and whether they allow a bot.\<close>

datatype verdict = Unreadable | Refused | Allowed

definition session_parses :: "bots_env \<Rightarrow> string \<Rightarrow> bool" where
  "session_parses e session = (case parse_user_bot_container (be_parse e) session of Inr _ \<Rightarrow> True | Inl _ \<Rightarrow> False)"

definition verdict_of :: "bots_env \<Rightarrow> u32 \<Rightarrow> bots \<Rightarrow> verdict" where
  "verdict_of e uid s =
     (case be_user e uid of
        Inl _ \<Rightarrow> Unreadable
      | Inr r \<Rightarrow>
          (case fst (open_session e (wu_user r) (wu_session r) s) of
             Inl _ \<Rightarrow> Unreadable
           | Inr session \<Rightarrow>
               if wu_enabled r \<and> be_subscription e uid = Sub_ok \<and> session_parses e session then Allowed else Refused))"

text \<open>A row of the list that the program starts with.\<close>

definition row_allowed :: "bots_env \<Rightarrow> wa_user \<Rightarrow> bots \<Rightarrow> bool" where
  "row_allowed e r s \<longleftrightarrow>
     wu_session r \<noteq> [] \<and> be_subscription e (wu_user r) = Sub_ok \<and>
     (case fst (open_session e (wu_user r) (wu_session r) s) of Inl _ \<Rightarrow> False | Inr session \<Rightarrow> session_parses e session)"

fun rows_allow :: "u32 \<Rightarrow> bots_env \<Rightarrow> wa_user list \<Rightarrow> bots \<Rightarrow> bool" where
  "rows_allow u e [] s = False"
| "rows_allow u e (r # rs) s = ((wu_user r = u \<and> row_allowed e r s) \<or> rows_allow u e rs (process_bot_state e r s))"

text \<open>The operations of one bot concern the user who has it registered.\<close>

fun move_of :: "u32 \<Rightarrow> bots_op \<Rightarrow> bots \<Rightarrow> bot_move" where
  "move_of u (Op_start e w) s = (if w = u \<and> verdict_of e u s = Allowed then M_begin else M_keep)"
| "move_of u (Op_stop w) s = (if w = u then M_end else M_keep)"
| "move_of u (Op_restart e w) s =
     (if w = u then (case verdict_of e u s of Unreadable \<Rightarrow> M_keep | Refused \<Rightarrow> M_end | Allowed \<Rightarrow> M_replace) else M_keep)"
| "move_of u (Op_start_all e) s =
     (case be_users e of Inl _ \<Rightarrow> M_keep | Inr rs \<Rightarrow> if rows_allow u e rs s then M_replace else M_keep)"
| "move_of u (Op_connect e i) s =
     (if lookup_bot u s = Some i \<and> bot_connect (be_connect e) (bt_bots s ! i) \<noteq> None then M_halt else M_keep)"
| "move_of u (Op_reset i) s = (if lookup_bot u s = Some i then M_halt else M_keep)"
| "move_of u (Op_reauth e i) s = (if lookup_bot u s = Some i \<and> u \<noteq> 0 then M_halt else M_keep)"
| "move_of u (Op_shutdown is) s = (if list_ex (\<lambda>i. lookup_bot u s = Some i) is then M_halt else M_keep)"
| "move_of u (Op_auth_bot e fresh w) s =
     (if w = u then (case new_dev_store fresh of Inr _ \<Rightarrow> M_begin | Inl _ \<Rightarrow> M_keep) else M_keep)"
| "move_of u (Op_prepare i) s = M_keep"
| "move_of u (Op_settings allow_text allow_call i) s = M_keep"
| "move_of u (Op_delete w) s = (if w = u then M_drop else M_keep)"

fun moves :: "u32 \<Rightarrow> bots_op list \<Rightarrow> bots \<Rightarrow> bot_move list" where
  "moves u [] s = []"
| "moves u (op # ops) s = move_of u op s # moves u ops (bots_step op s)"

subsection \<open>Phases under the parts of the operations\<close>

lemma bot_phase_lookup:
  "bot_phase u s = (case lookup_bot u s of None \<Rightarrow> Absent | Some i \<Rightarrow> if bo_stopped (bt_bots s ! i) then Stopped else Running)"
  by (simp add: bot_phase_def bot_state_def split: option.split)

lemma phase_bfx [simp]: "bot_phase u (bfx es s) = bot_phase u s"
  by (simp add: bot_phase_lookup split: option.split)

lemma phase_same_bots: "same_bots s s' \<Longrightarrow> bot_phase u s' = bot_phase u s"
  by (simp add: bot_phase_lookup same_bots_lookup) (simp add: same_bots_def cong: option.case_cong)

lemma phase_delete [simp]: "bot_phase u (delete_bot w s) = (if u = w then Absent else bot_phase u s)"
  by (simp add: bot_phase_lookup cong: option.case_cong)

lemma phase_add:
  assumes "bots_inv_but D s" "same_bots s s1"
  shows "bot_phase u (store_bot w (length (bt_bots s)) (snd (initialize_bot w st a auto s1)))
    = (if u = w then Running else bot_phase u s)"
  using assms(2) bots_butD(1) [OF assms(1), of u]
  by (auto simp: bot_phase_lookup same_bots_lookup [OF assms(2)] same_bots_def nth_append split: option.split)

lemma phase_upd:
  assumes "\<And>b. bo_stopped (f b) = bo_stopped b"
  shows "bot_phase u (upd_bot i f s) = bot_phase u s"
  using assms by (cases "i < length (bt_bots s)") (auto simp: bot_phase_lookup nth_update_at split: option.split)

subsection \<open>Phases under the operations\<close>

lemma phase_upd_other: "lookup_bot u s \<noteq> Some i \<Longrightarrow> bot_phase u (upd_bot i f s) = bot_phase u s"
  by (cases "i < length (bt_bots s)") (auto simp: bot_phase_lookup nth_update_at split: option.split)

text \<open>A bot that is marked as stopped.\<close>

lemma phase_halt:
  assumes "bots_inv_but D s" "\<And>b. bo_stopped (f b)"
  shows "bot_phase u (upd_bot i f s) = phase_move (if lookup_bot u s = Some i then M_halt else M_keep) (bot_phase u s)"
  using bots_butD(1) [OF assms(1), of u i] assms(2)
  by (auto simp: phase_upd_other) (auto simp: bot_phase_lookup nth_update_at split: if_splits)

lemma verdict_allowed: "verdict_of e w s = Allowed \<longleftrightarrow> (\<exists>r st. can_start e w s r st)"
  by (auto simp: verdict_of_def can_start_def session_parses_def split: sum.split)

lemma phase_start_user_bot:
  assumes "bots_inv_but D s" "own_row e"
  shows "bot_phase u (snd (start_user_bot e w s)) = phase_move (move_of u (Op_start e w) s) (bot_phase u s)"
proof (cases "lookup_bot w s = None \<and> (\<exists>r st. can_start e w s r st)")
  case True
  then obtain r st where f: "lookup_bot w s = None" and c: "can_start e w s r st" by blast
  obtain s1 where s1: "same_bots s s1" "start_user_bot e w s =
    (None, store_bot (wu_user r) (length (bt_bots s)) (snd (initialize_bot (wu_user r) st (create_assistant_model r) True s1)))"
    using start_user_bot_ok [OF f c] by blast
  have "wu_user r = w" using assms(2) c by (simp add: own_row_def can_start_def)
  moreover have "verdict_of e w s = Allowed" using c verdict_allowed by blast
  moreover have "bot_phase w s = Absent" using f by (simp add: bot_phase_lookup)
  ultimately show ?thesis using s1 by (simp add: phase_add [OF assms(1) s1(1)])
next
  case False
  then obtain err s' where s': "start_user_bot e w s = (Some err, s')" "same_bots s s'" using start_user_bot_fails [OF False] by blast
  have "bot_phase w s \<noteq> Absent" if "verdict_of e w s = Allowed"
    using False that verdict_allowed by (auto simp: bot_phase_lookup split: option.split)
  then show ?thesis using s' phase_same_bots [OF s'(2), of u] by (cases "w = u") auto
qed

lemma phase_stop_user_bot:
  assumes "bots_inv_but D s"
  shows "bot_phase u (snd (stop_user_bot w s)) = (if u = w \<and> bot_phase u s = Running then Absent else bot_phase u s)"
proof (cases "lookup_bot w s")
  case (Some i)
  show ?thesis
  proof (cases "bo_stopped (bt_bots s ! i)")
    case False
    have "lookup_bot u s \<noteq> Some i" if "u \<noteq> w"
      using that bots_butD(2) [OF assms Some] bots_butD(2) [OF assms, of u i] by auto
    then show ?thesis
      using Some False
      by (cases "u = w") (simp_all add: stop_user_bot_def Let_def phase_upd_other, simp add: bot_phase_lookup)
  qed (use Some in \<open>auto simp: stop_user_bot_def bot_phase_lookup\<close>)
qed (auto simp: stop_user_bot_def bot_phase_lookup)

lemma phase_stop_if_present:
  assumes "bots_inv_but D s"
  shows "bot_phase u (snd (stop_if_present w s)) = (if u = w then phase_move M_end (bot_phase u s) else bot_phase u s)"
  using phase_stop_user_bot [OF assms, of u w] by (cases "lookup_bot w s") (auto simp: stop_if_present_def bot_phase_lookup)

lemma phase_recreate:
  assumes "bots_inv_but D s"
  shows "bot_phase u (case create_or_update_bot w st a s of (i, s) \<Rightarrow> store_bot w i s)
    = (if u = w then Running else bot_phase u s)"
proof -
  define s0 where "s0 = (case lookup_bot w s of Some i \<Rightarrow> upd_bot i (\<lambda>b. b\<lparr>bo_cancelled := True\<rparr>) s | None \<Rightarrow> s)"
  have "bots_inv_but D s0" using assms by (auto simp: s0_def intro!: inv_upd_bot split: option.split)
  moreover have "bot_phase u s0 = bot_phase u s" by (auto simp: s0_def phase_upd split: option.split)
  ultimately show ?thesis
    using phase_add [of D s0 s0 u w] by (simp add: create_or_update_bot_def case_prod_unfold flip: s0_def)
qed

lemma phase_rebuild_bot:
  assumes "bots_inv_but D s"
  shows "bot_phase u (snd (rebuild_bot e w r session s)) =
    (if u = wu_user r \<and> be_subscription e w = Sub_ok \<and> session_parses e session then Running else bot_phase u s)"
proof (cases "be_subscription e w = Sub_ok")
  case True
  then show ?thesis
    using phase_recreate [OF assms, of u "wu_user r"]
    by (auto simp: rebuild_bot_def check_subscription_ok session_parses_def case_prod_unfold split: sum.split)
next
  case False
  obtain err s' where c: "check_user_subscription e w s = (Some err, s')"
    using False check_subscription_NoneD [of e w s] by (cases "check_user_subscription e w s"; cases "fst (check_user_subscription e w s)") auto
  then have "bot_phase u s' = bot_phase u s" using check_subscription_same [of s e w] phase_same_bots by fastforce
  then show ?thesis using False c by (simp add: rebuild_bot_def)
qed

lemma phase_restart_user_bot:
  assumes "bots_inv_but D s" "own_row e"
  shows "bot_phase u (snd (restart_user_bot e w s)) = phase_move (move_of u (Op_restart e w) s) (bot_phase u s)"
proof (cases "be_user e w")
  case (Inr r)
  then have r: "wu_user r = w" using assms(2) by (simp add: own_row_def)
  obtain opened s1 where o: "open_session e (wu_user r) (wu_session r) s = (opened, s1)" by fastforce
  have s1: "bots_inv_but D s1" "bot_phase u s1 = bot_phase u s"
    using open_session_same [of s e "wu_user r" "wu_session r"] o assms(1) by (simp_all add: same_bots_inv phase_same_bots)
  obtain s2 where stop: "stop_if_present w s1 = (None, s2)" by (rule stop_if_present_down)
  have s2: "bots_inv_but D s2" "bot_phase u s2 = (if u = w then phase_move M_end (bot_phase u s) else bot_phase u s)"
    using inv_stop_if_present [OF s1(1), of w] phase_stop_if_present [OF s1(1), of u w] stop s1(2) by auto
  show ?thesis
    using Inr o r s1(2) stop s2(2) phase_rebuild_bot [OF s2(1), of u e w r]
    by (cases opened; cases "wu_enabled r") (auto simp: restart_user_bot_def verdict_of_def)
next
  case (Inl err)
  then show ?thesis by (cases "w = u") (simp_all add: restart_user_bot_def verdict_of_def)
qed

lemma phase_process_bot_state:
  assumes "bots_inv_but D s"
  shows "bot_phase u (process_bot_state e r s) = (if wu_user r = u \<and> row_allowed e r s then Running else bot_phase u s)"
proof (cases "wu_session r = [] \<or> be_subscription e (wu_user r) \<noteq> Sub_ok")
  case True
  have "bot_phase u (snd (check_user_subscription e (wu_user r) s)) = bot_phase u s"
    by (rule phase_same_bots) (rule check_subscription_same)
  then show ?thesis
    using True check_subscription_NoneD [of e "wu_user r" s]
    by (auto simp: process_bot_state_def row_allowed_def split: prod.splits option.splits)
next
  case False
  obtain opened s1 where o: "open_session e (wu_user r) (wu_session r) s = (opened, s1)" by fastforce
  have s1: "bots_inv_but D s1" "bot_phase u s1 = bot_phase u s"
    using open_session_same [of s e "wu_user r" "wu_session r"] o assms by (simp_all add: same_bots_inv phase_same_bots)
  show ?thesis
    using False o s1 phase_recreate [OF s1(1), of u "wu_user r"]
    by (cases opened) (auto simp: process_bot_state_def row_allowed_def check_subscription_ok session_parses_def split: sum.split)
qed

lemma phase_start_bots:
  assumes "bots_inv_but D s"
  shows "bot_phase u (snd (start_bots e s)) = phase_move (move_of u (Op_start_all e) s) (bot_phase u s)"
proof -
  have "bot_phase u (fold (process_bot_state e) rs s) = (if rows_allow u e rs s then Running else bot_phase u s)" for rs
    using assms
  proof (induction rs arbitrary: s)
    case (Cons r rs)
    then show ?case
      using phase_process_bot_state [OF Cons.prems, of u e r] Cons.IH [OF inv_process_bot_state [OF Cons.prems], of e r]
      by auto
  qed simp
  then show ?thesis by (simp add: start_bots_def split: sum.split)
qed

lemma phase_ensure_auth_bot:
  assumes "bots_inv_but D s"
  shows "bot_phase u (snd (ensure_auth_bot e fresh w s)) = phase_move (move_of u (Op_auth_bot e fresh w) s) (bot_phase u s)"
proof (cases "lookup_bot w s")
  case None
  show ?thesis
  proof (cases "new_dev_store fresh")
    case (Inr st)
    obtain st' s1 where r: "restore_settings e w st s = (st', s1)" by fastforce
    then have same: "same_bots s s1" using restore_settings_same [of s e w st] by simp
    then have "length (bt_bots s1) = length (bt_bots s)" by (simp add: same_bots_def)
    then show ?thesis
      using None Inr r phase_add [OF assms same, of u w st' "auth_assistant w" False]
      by (auto simp: ensure_auth_bot_def case_prod_unfold bot_phase_lookup)
  qed (simp add: ensure_auth_bot_def None)
next
  case (Some i)
  then have "bot_phase w s \<noteq> Absent" by (simp add: bot_phase_lookup)
  then show ?thesis using Some by (auto simp: ensure_auth_bot_def split: sum.split)
qed

lemma phase_stop_all_bots:
  assumes "bots_inv_but D s"
  shows "bot_phase u (stop_all_bots is s) = phase_move (move_of u (Op_shutdown is) s) (bot_phase u s)"
  using assms
proof (induction "is" arbitrary: s)
  case (Cons i "is")
  have "bot_phase u (stop_bot i s) = phase_move (if lookup_bot u s = Some i then M_halt else M_keep) (bot_phase u s)"
  proof (cases "bo_stopped (bt_bots s ! i)")
    case True
    then have "stop_bot i s = s" "lookup_bot u s = Some i \<longrightarrow> bot_phase u s = Stopped"
      by (simp_all add: stop_bot_def bot_phase_lookup)
    then show ?thesis by auto
  next
    case False
    have "bots_inv_but D (bfx [Bx_stop_calls (bo_user (bt_bots s ! i)) ''bot_stopped''] s)" using Cons.prems by simp
    from phase_halt [OF this, of "\<lambda>b. b\<lparr>bo_stopped := True, bo_cancelled := True, bo_disconnected := True\<rparr>" u i]
    show ?thesis using False by (simp add: stop_bot_def)
  qed
  moreover have "lookup_bot u (stop_bot i s) = lookup_bot u s" by (simp add: stop_bot_def)
  ultimately show ?case
    using Cons.IH [OF inv_stop_bot [OF Cons.prems], of i] by (simp add: stop_all_bots_def)
qed (simp add: stop_all_bots_def)

lemma phase_reset_session:
  "bots_inv_but D s \<Longrightarrow> bot_phase u (reset_session i s) = phase_move (move_of u (Op_reset i) s) (bot_phase u s)"
  by (simp add: reset_session_def Let_def phase_halt)

lemma phase_trigger_reauth:
  assumes "bots_inv_but D s"
  shows "bot_phase u (snd (trigger_reauth e i s)) = phase_move (move_of u (Op_reauth e i) s) (bot_phase u s)"
proof -
  have "bo_user (bt_bots s ! i) = u" if "lookup_bot u s = Some i" using bots_butD(2) [OF assms that] .
  then show ?thesis
    using assms phase_reset_session
    by (auto simp: trigger_reauth_def run_reauth_def reauth_effect_def Let_def phase_reset_session)
qed

lemma phase_connect_bot:
  "bots_inv_but D s \<Longrightarrow> bot_phase u (connect_bot e i s) = phase_move (move_of u (Op_connect e i) s) (bot_phase u s)"
  by (auto simp: connect_bot_def Let_def phase_halt split: option.split)

lemma phase_bots_step:
  assumes "bots_inv_but D s" "op_env_ok op"
  shows "bot_phase u (bots_step op s) = phase_move (move_of u op s) (bot_phase u s)"
proof (cases op)
  case (Op_prepare i)
  then show ?thesis by (simp add: prepare_reauth_def phase_upd)
next
  case (Op_settings allow_text allow_call i)
  then show ?thesis by (simp add: set_auth_settings_def phase_upd)
next
  case (Op_stop w)
  then show ?thesis by (simp add: phase_stop_user_bot [OF assms(1)])
next
  case (Op_start e w)
  then show ?thesis using assms(2) phase_start_user_bot [OF assms(1), of e u w] by simp
next
  case (Op_restart e w)
  then show ?thesis using assms(2) phase_restart_user_bot [OF assms(1), of e u w] by simp
next
  case (Op_start_all e)
  then show ?thesis using phase_start_bots [OF assms(1), of u e] by simp
next
  case (Op_connect e i)
  then show ?thesis using phase_connect_bot [OF assms(1), of u e i] by simp
next
  case (Op_reset i)
  then show ?thesis using phase_reset_session [OF assms(1), of u i] by simp
next
  case (Op_reauth e i)
  then show ?thesis using phase_trigger_reauth [OF assms(1), of u e i] by simp
next
  case (Op_shutdown ids)
  then show ?thesis using phase_stop_all_bots [OF assms(1), of u ids] by simp
next
  case (Op_auth_bot e fresh w)
  then show ?thesis using phase_ensure_auth_bot [OF assms(1), of u e fresh w] by simp
next
  case (Op_delete w)
  then show ?thesis by simp
qed

subsection \<open>Properties\<close>

lemma stopped_moves: "M_replace \<notin> set ms \<Longrightarrow> M_drop \<notin> set ms \<Longrightarrow> fold phase_move ms Stopped = Stopped"
proof (induction ms)
  case (Cons m ms)
  then show ?case by (cases m) auto
qed simp

text \<open>C5: the registry implements the machine of phases for every user: in any sequence of operations, on whatever
  users, the user's bot goes through exactly the moves that \<open>move_of\<close> gives for the operations: it begins exactly when a
  start or an authorisation is allowed and no bot is there, is replaced exactly when a restart of the user or of the
  program is allowed, ends when it is stopped or restarted without being allowed, and halts when it fails or is reset. So a
  bot that has stopped by itself stays so until an allowed restart or \<open>DeleteBot\<close>: stopping and starting it does nothing.\<close>

theorem registry_refines_phases:
  assumes "bots_inv s" "list_all op_env_ok ops"
  shows "bot_phase u (fold bots_step ops s) = fold phase_move (moves u ops s) (bot_phase u s)
    \<and> (bot_phase u s = Stopped \<and> M_replace \<notin> set (moves u ops s) \<and> M_drop \<notin> set (moves u ops s) \<longrightarrow>
         bot_phase u (fold bots_step ops s) = Stopped)"
proof -
  have "bot_phase u (fold bots_step ops s) = fold phase_move (moves u ops s) (bot_phase u s)" if "bots_inv_but D s" for D
    using that assms(2)
  proof (induction ops arbitrary: D s)
    case (Cons op ops)
    then show ?case
      using phase_bots_step [of D s op u] Cons.IH [OF inv_bots_step [of D s op]] by simp
  qed simp
  from this [OF assms(1)] show ?thesis using stopped_moves by metis
qed

theorem registry_refines_phases_witness:
  "\<exists>s. bot_phase 7 s = Stopped \<and> bot_phase 7 (fold bots_step [Op_stop 7, Op_start example_bots_env 7, Op_reset 0] s) = Stopped"
proof -
  let ?s = "no_bots\<lparr>bt_bots := [(fresh_bot 7 undefined (auth_assistant 7))\<lparr>bo_stopped := True\<rparr>], bt_map := [(7, 0)]\<rparr>"
  let ?ops = "[Op_stop 7, Op_start example_bots_env 7, Op_reset 0]"
  have inv: "bots_inv ?s" by (auto simp: bots_inv_def lookup_bot_def no_bots_def split: if_splits)
  have st: "bot_phase 7 ?s = Stopped" by (simp add: bot_phase_lookup lookup_bot_def)
  have ok: "list_all op_env_ok ?ops" by (simp add: example_own_row)
  have "M_replace \<notin> set (moves 7 ?ops ?s) \<and> M_drop \<notin> set (moves 7 ?ops ?s)" by simp
  with registry_refines_phases [OF inv ok, of 7] st show ?thesis by (intro exI [of _ ?s]) blast
qed

end
