(* ===== verification/Event_Reauth.thy ===== *)
theory Event_Reauth
  imports Bot_Registry
begin

section \<open>Events that end a bot (bot_event.go with reauth.go and bot_lifecycle.go)\<close>

text \<open>
  A bot's message state and its place in the registry together: \<open>handleEvent\<close> runs on the first, and each
  \<open>triggerReauth\<close> it calls starts a goroutine that acts on the second.
\<close>

definition reauths :: "msg_effect list \<Rightarrow> string list" where
  "reauths es = concat (map (\<lambda>x. case x of Mx_reauth why \<Rightarrow> [why] | _ \<Rightarrow> []) es)"

definition bot_event :: "bots_env \<Rightarrow> nat \<Rightarrow> msg_env \<Rightarrow> client_event \<Rightarrow> msg_state \<times> bots \<Rightarrow> msg_state \<times> bots" where
  "bot_event e i me evt ss =
     (case ss of (st, s) \<Rightarrow>
        let st' = snd (handle_event me evt st)
        in (st', fold (\<lambda>_ s. snd (trigger_reauth e i s)) (reauths (drop (length (ms_fx st)) (ms_fx st'))) s))"

subsection \<open>Properties\<close>

lemma reauths_simps [simp]:
  "reauths [] = []" "reauths (Mx_metric a b # es) = reauths es" "reauths (Mx_reauth why # es) = why # reauths es"
  by (simp_all add: reauths_def)

lemma reauths_append [simp]: "reauths (xs @ ys) = reauths xs @ reauths ys"
  by (simp add: reauths_def)

lemma no_reauths: "list_all (crm_first b) es \<Longrightarrow> reauths es = []"
  by (auto simp: reauths_def crm_first_def list_all_iff split: msg_effect.splits)

text \<open>Why an event asks for a new authorisation, if it does.\<close>

definition ends_bot :: "msg_env \<Rightarrow> msg_state \<Rightarrow> client_event \<Rightarrow> string option" where
  "ends_bot me st evt =
     (case evt of
        Ev_message ev \<Rightarrow>
          if (ms_text_on st \<or> \<not> has_text ev) \<and> \<not> is_decryption_error ev \<and> message_text (Some ev) = mac_error_text
          then Some ''mismatching_mac'' else None
      | Ev_disconnected \<Rightarrow> if me_logged_in me then None else Some ''disconnected_not_logged_in''
      | Ev_logged_out \<Rightarrow> Some ''logged_out''
      | _ \<Rightarrow> None)"

lemma handled_message_reauths:
  assumes "handle_message me ev st0 = (r, st1)"
  shows "\<exists>es. ms_fx st1 = ms_fx st0 @ es \<and> reauths es = []"
  using handle_message_grows [where e = me and ev = ev and st = st0] assms no_reauths by (fastforce simp: grows_def)

lemma event_reauths:
  "reauths (drop (length (ms_fx st)) (ms_fx (snd (handle_event me evt st)))) = (case ends_bot me st evt of None \<Rightarrow> [] | Some why \<Rightarrow> [why])"
proof (cases evt)
  case (Ev_message ev)
  show ?thesis
  proof (cases "(ms_text_on st \<or> \<not> has_text ev) \<and> \<not> is_decryption_error ev \<and> message_text (Some ev) \<noteq> mac_error_text")
    case False
    then show ?thesis by (auto simp: Ev_message handle_event_def ends_bot_def Let_def)
  next
    case True
    let ?st = "mfx [Mx_metric ''messages_received'' (message_type (Some ev))] st"
    obtain r st1 where h: "handle_message me ev ?st = (r, st1)" by fastforce
    obtain es where es: "ms_fx st1 = ms_fx ?st @ es" "reauths es = []" using handled_message_reauths [OF h] by blast
    have "\<not> (\<not> ms_text_on st \<and> has_text ev)" "\<not> is_decryption_error ev" "message_text (Some ev) \<noteq> mac_error_text"
      using True by auto
    then show ?thesis
      using h es
      by (cases r) (auto simp: Ev_message handle_event_def ends_bot_def Let_def split: option.split)
  qed
qed (simp_all add: handle_event_def ends_bot_def Let_def)

text \<open>C11: a bot is logged out by its events in three cases only: WhatsApp says so, the connection is lost while
  the client is not logged in, or a message carries the text of a MAC error. In the last case anybody who
  writes that text ends the bot, whoever he is: the allow list, the filters and the offline queue come later.
  The bot is then stopped, cancelled and disconnected, its channel disabled, and its user told to log in;
  any other event leaves the registry as it was.\<close>

theorem event_ends_bot:
  assumes "i < length (bt_bots s)" "bo_user (bt_bots s ! i) = uid" "uid \<noteq> 0"
    and "bot_event e i me evt (st, s) = (st', s')"
  shows "if ends_bot me st evt = None then s' = s
    else bo_stopped (bt_bots s' ! i) \<and> bo_cancelled (bt_bots s' ! i) \<and> bo_disconnected (bt_bots s' ! i)
      \<and> (\<exists>more. bt_fx s' = bt_fx s @ [Bx_notify uid ''reauth'' ''WhatsApp User'', Bx_disable_channel uid,
            Bx_stop_calls uid ''session_reset''] @ more)
      \<and> (\<forall>j. j \<noteq> i \<longrightarrow> bt_bots s' ! j = bt_bots s ! j) \<and> bt_map s' = bt_map s"
proof -
  have s': "s' = fold (\<lambda>_ s. snd (trigger_reauth e i s)) (case ends_bot me st evt of None \<Rightarrow> [] | Some why \<Rightarrow> [why]) s"
    using assms(4) by (auto simp: bot_event_def Let_def event_reauths)
  show ?thesis
    using assms(1-3) s'
    by (auto simp: trigger_reauth_def run_reauth_def reauth_effect_def reset_session_def Let_def nth_update_at
        split: option.splits)
qed

theorem event_ends_bot_witness:
  "\<exists>b st' s'. bot_event example_bots_env 0 example_msg_env (Ev_message ((example_event mac_error_text)\<lparr>we_sender := new_jid ''9'' ''s''\<rparr>))
      (example_msg_state\<lparr>ms_synced := False\<rparr>, no_bots\<lparr>bt_bots := [b]\<rparr>) = (st', s')
     \<and> bo_cancelled (bt_bots s' ! 0) \<and> Bx_disable_channel 7 \<in> set (bt_fx s')"
proof -
  let ?evt = "Ev_message ((example_event mac_error_text)\<lparr>we_sender := new_jid ''9'' ''s''\<rparr>)"
  let ?st = "example_msg_state\<lparr>ms_synced := False\<rparr>"
  let ?s = "no_bots\<lparr>bt_bots := [fresh_bot 7 undefined (auth_assistant 7)]\<rparr>"
  obtain st' s' where ev: "bot_event example_bots_env 0 example_msg_env ?evt (?st, ?s) = (st', s')" by fastforce
  have "ends_bot example_msg_env ?st ?evt = Some ''mismatching_mac''"
    by (simp add: ends_bot_def example_msg_state_def is_decryption_error_def example_event_def message_text_def
        mac_error_text_def)
  then have "bo_cancelled (bt_bots s' ! 0) \<and> Bx_disable_channel 7 \<in> set (bt_fx s')"
    using event_ends_bot [OF _ _ _ ev, of 7] by auto
  then show ?thesis using ev by blast
qed

end
