(* ===== verification/Operator_Mode.thy ===== *)
theory Operator_Mode
  imports Channels Bot_Registry
begin

section \<open>Ending the operator mode (DisableOperatorMode in whatsapp.go)\<close>

text \<open>
  The dialogs led by an operator are \<open>operator_modes\<close> of \<open>Channels\<close>. The answers of the model, the
  client and the operator service are the fields of \<open>operator_env\<close>; \<open>oe_sse\<close> is \<open>None\<close> when there is no
  operator service. \<open>oe_client\<close> says that the bot has a client.
\<close>

interpretation operator_modes: sync_map "\<lambda>d ops. map_of ops d" "\<lambda>d on. AList.update d on" AList.delete
  by unfold_locales (simp_all add: update_conv' delete_conv')

record operator_env =
  oe_resp_id :: "u64 \<Rightarrow> string + u64"
  oe_client :: bool
  oe_parse_jid :: "string \<Rightarrow> string + jid"
  oe_text :: string
  oe_send :: "jid \<Rightarrow> string \<Rightarrow> string option"
  oe_sse :: "(u32 \<Rightarrow> u64 \<Rightarrow> string option) option"

datatype operator_error = Op_no_resp string | Op_no_bot | Op_no_client | Op_bad_jid string | Op_send_failed string

datatype operator_effect = Ox_send jid string | Ox_close_sse u32 u64

definition disable_operator_mode ::
  "operator_env \<Rightarrow> u32 \<Rightarrow> u64 \<Rightarrow> bool \<Rightarrow> bots \<Rightarrow> operator_modes
   \<Rightarrow> operator_error option \<times> operator_effect list \<times> operator_modes" where
  "disable_operator_mode e uid dialog silent s ops =
     (let ops = set_operator_mode dialog False ops in
      case oe_resp_id e dialog of
        Inl t \<Rightarrow> (Some (Op_no_resp t), [], ops)
      | Inr resp \<Rightarrow>
          (case lookup_bot uid s of
             None \<Rightarrow> (Some Op_no_bot, [], ops)
           | Some _ \<Rightarrow>
               if \<not> oe_client e then (Some Op_no_client, [], ops)
               else
                 (case oe_parse_jid e (format_uint (unat resp) @ ''@s.whatsapp.net'') of
                    Inl t \<Rightarrow> (Some (Op_bad_jid t), [], ops)
                  | Inr j \<Rightarrow>
                      let sent = (if silent then [] else [Ox_send j (oe_text e)]);
                          sse = (case oe_sse e of None \<Rightarrow> [] | Some _ \<Rightarrow> [Ox_close_sse uid dialog])
                      in case (if silent then None else oe_send e j (oe_text e)) of
                           Some t \<Rightarrow> (Some (Op_send_failed t), sent, ops)
                         | None \<Rightarrow> (None, sent @ sse, ops))))"

text \<open>Ending the operator mode always ends it for this dialog and for no other, whatever fails afterwards; the
  respondent is told exactly when the mode is not silent and a bot and an address were found, and the
  operator's connection is closed only when nothing failed before.\<close>

theorem disable_operator_mode_correct:
  assumes "disable_operator_mode e uid dialog silent s ops = (r, fx, ops')"
  shows "(\<forall>d. is_operator_mode d ops' \<longleftrightarrow> d \<noteq> dialog \<and> is_operator_mode d ops)
    \<and> (\<forall>j t. Ox_send j t \<in> set fx \<longleftrightarrow> \<not> silent \<and> t = oe_text e \<and> lookup_bot uid s \<noteq> None \<and> oe_client e
         \<and> (\<exists>resp. oe_resp_id e dialog = Inr resp \<and> oe_parse_jid e (format_uint (unat resp) @ ''@s.whatsapp.net'') = Inr j))
    \<and> (Ox_close_sse uid dialog \<in> set fx \<longleftrightarrow> r = None \<and> oe_sse e \<noteq> None)"
proof -
  have modes: "ops' = AList.delete dialog ops"
    using assms by (auto simp: disable_operator_mode_def set_operator_mode_def Let_def split: sum.splits option.splits if_splits)
  have m: "\<forall>d. is_operator_mode d ops' \<longleftrightarrow> d \<noteq> dialog \<and> is_operator_mode d ops"
    unfolding modes by (simp add: is_operator_mode_def delete_conv')
  let ?found = "\<lambda>j. \<exists>resp. oe_resp_id e dialog = Inr resp \<and> oe_parse_jid e (format_uint (unat resp) @ ''@s.whatsapp.net'') = Inr j"
  have fx: "(\<forall>j t. Ox_send j t \<in> set fx \<longleftrightarrow> \<not> silent \<and> t = oe_text e \<and> lookup_bot uid s \<noteq> None \<and> oe_client e \<and> ?found j)
    \<and> (Ox_close_sse uid dialog \<in> set fx \<longleftrightarrow> r = None \<and> oe_sse e \<noteq> None)"
  proof (cases "\<exists>j. lookup_bot uid s \<noteq> None \<and> oe_client e \<and> ?found j")
    case False
    have "fx = [] \<and> r \<noteq> None"
      using assms False by (auto simp: disable_operator_mode_def Let_def split: sum.splits option.splits if_splits)
    then show ?thesis using False by auto
  next
    case True
    then obtain j resp i where j: "lookup_bot uid s = Some i" "oe_client e" "oe_resp_id e dialog = Inr resp"
      "oe_parse_jid e (format_uint (unat resp) @ ''@s.whatsapp.net'') = Inr j" by auto
    then have found: "?found j' \<longleftrightarrow> j' = j" for j' by auto
    show ?thesis
      unfolding found using assms j
      by (cases silent; cases "oe_sse e"; cases "oe_send e j (oe_text e)") (auto simp: disable_operator_mode_def Let_def)
  qed
  show ?thesis using m fx by (intro conjI) simp_all
qed

theorem disable_operator_mode_correct_witness:
  "\<exists>fx ops'. disable_operator_mode \<lparr>oe_resp_id = Inr, oe_client = True, oe_parse_jid = (\<lambda>t. Inr (new_jid t ''s'')),
       oe_text = ''bye'', oe_send = (\<lambda>_ _. None), oe_sse = None\<rparr> 7 3 True
       (store_bot 7 0 no_bots) [(3, True), (4, True)] = (None, fx, ops')
     \<and> \<not> is_operator_mode 3 ops' \<and> is_operator_mode 4 ops'"
proof -
  let ?e = "\<lparr>oe_resp_id = Inr, oe_client = True, oe_parse_jid = (\<lambda>t. Inr (new_jid t ''s'')),
       oe_text = ''bye'', oe_send = (\<lambda>_ _. None), oe_sse = None\<rparr> :: operator_env"
  obtain r fx ops' where d: "disable_operator_mode ?e 7 3 True (store_bot 7 0 no_bots) [(3, True), (4, True)] = (r, fx, ops')"
    using prod_cases3 by blast
  then have "r = None" by (auto simp: disable_operator_mode_def Let_def)
  then show ?thesis using disable_operator_mode_correct [OF d] d by (auto simp: is_operator_mode_def)
qed

end
