(* ===== verification/Metrics.thy ===== *)
theory Metrics
  imports Http_Handlers Channels
begin

section \<open>What is counted (internal/metrics/metrics.go, internal/metrics/http.go)\<close>

text \<open>
  The counter of the HTTP server: \<open>HTTPMiddleware\<close> counts a reply under its method, its route as
  \<open>NormalizeRoute\<close> gives it, and the status that the recorder saw. A counter starts at 0. The collectors
  themselves, the durations and the exporter are the client library's, and the WebSocket routes, whose
  connections the recorder hands over, are not modelled.
\<close>

type_synonym http_label = "string \<times> string \<times> string"

type_synonym http_counts = "http_label \<Rightarrow> nat"

definition normalize_route :: "string \<Rightarrow> string" where
  "normalize_route path =
     (if path = [] then ''unknown''
      else if path = ''/metrics'' then path
      else
        let trimmed = (if suffix ''/'' path then butlast path else path)
        in if trimmed = [] then ''/'' else trimmed)"

definition bot_label :: "u32 \<Rightarrow> string" where
  "bot_label uid = format_uint (unat uid)"

definition http_middleware ::
  "string \<Rightarrow> (request \<Rightarrow> bots \<Rightarrow> reply \<times> bots) \<Rightarrow> request \<Rightarrow> bots \<Rightarrow> http_counts \<Rightarrow> reply \<times> bots \<times> http_counts" where
  "http_middleware route next rq s cs =
     (case next rq s of (rp, s) \<Rightarrow>
        let l = (rq_method rq, normalize_route route, format_uint (rp_status rp))
        in (rp, s, cs(l := Suc (cs l))))"

text \<open>The name under which \<open>Handler\<close> registers the route of a path.\<close>

definition mux_route :: "string \<Rightarrow> string option" where
  "mux_route path = map_of [(''/whats/available'', ''/available''), (''/whats/getname'', ''/getname''),
     (''/whats/enable'', ''/enable''), (''/whats/disable'', ''/disable''), (''/whats/restart'', ''/restart'')] path"

definition serve_counted ::
  "bots_env \<Rightarrow> (jid \<Rightarrow> string) \<Rightarrow> bool \<Rightarrow> request \<Rightarrow> bots \<Rightarrow> http_counts \<Rightarrow> (reply \<times> bots \<times> http_counts) option" where
  "serve_counted e text_of slow rq s cs =
     (case (mux_route (rq_path rq), serve e text_of slow rq s) of
        (Some route, Some r) \<Rightarrow> Some (http_middleware route (\<lambda>_ _. r) rq s cs)
      | _ \<Rightarrow> None)"

text \<open>A sequence of requests, with what is answered to each.\<close>

fun serve_all ::
  "bots_env \<Rightarrow> (jid \<Rightarrow> string) \<Rightarrow> (request \<times> bool) list \<Rightarrow> bots \<Rightarrow> http_counts \<Rightarrow> (request \<times> reply) list \<times> bots \<times> http_counts" where
  "serve_all e text_of [] s cs = ([], s, cs)"
| "serve_all e text_of ((rq, slow) # rqs) s cs =
     (case serve_counted e text_of slow rq s cs of
        None \<Rightarrow> serve_all e text_of rqs s cs
      | Some (rp, s, cs) \<Rightarrow> (case serve_all e text_of rqs s cs of (rs, s, cs) \<Rightarrow> ((rq, rp) # rs, s, cs)))"

subsection \<open>Properties\<close>

lemma mux_route_cases:
  assumes "mux_route path = Some r"
  shows "path = ''/whats'' @ r \<and> r \<in> set [''/available'', ''/getname'', ''/enable'', ''/disable'', ''/restart'']"
  using assms by (simp add: mux_route_def split: if_splits)

lemma normalize_mux_route:
  assumes "mux_route path = Some r"
  shows "normalize_route r = r"
proof -
  have "r \<in> set [''/available'', ''/getname'', ''/enable'', ''/disable'', ''/restart'']"
    using mux_route_cases [OF assms] by blast
  moreover have "list_all (\<lambda>r. normalize_route r = r) [''/available'', ''/getname'', ''/enable'', ''/disable'', ''/restart'']"
    by (simp add: normalize_route_def suffix_to_prefix Let_def)
  ultimately show ?thesis unfolding list_all_iff by (rule bspec [rotated])
qed

text \<open>Whether a reply to a request is counted under a label.\<close>

definition has_label :: "http_label \<Rightarrow> request \<times> reply \<Rightarrow> bool" where
  "has_label l rr \<longleftrightarrow>
     (case (l, rr) of ((m, route, code), (rq, rp)) \<Rightarrow>
        rq_method rq = m \<and> rq_path rq = ''/whats'' @ route \<and> format_uint (rp_status rp) = code)"

lemma serve_counted_label:
  assumes "serve_counted e text_of slow rq s cs = Some (rp, s', cs')"
  shows "cs' l = cs l + (if has_label l (rq, rp) then 1 else 0)"
proof -
  obtain route s1 where r: "mux_route (rq_path rq) = Some route"
    and cs': "cs' = cs((rq_method rq, route, format_uint (rp_status rp)) := Suc (cs (rq_method rq, route, format_uint (rp_status rp))))"
    using assms normalize_mux_route
    by (auto simp: serve_counted_def http_middleware_def Let_def split: option.splits prod.splits)
  have path: "rq_path rq = ''/whats'' @ route" using mux_route_cases [OF r] by blast
  show ?thesis by (cases l) (simp add: cs' has_label_def path)
qed

text \<open>After any sequence of requests the counter of a method, a route and a status has grown by exactly the
  number of requests that were answered on that route with that method and status.\<close>

theorem http_counts_exact:
  "case serve_all e text_of rqs s cs of (answered, s', cs') \<Rightarrow>
     cs' (m, route, code) = cs (m, route, code) + length (filter (has_label (m, route, code)) answered)"
proof (induction rqs arbitrary: s cs)
  case (Cons r rqs)
  obtain rq slow where r: "r = (rq, slow)" by fastforce
  show ?case
  proof (cases "serve_counted e text_of slow rq s cs")
    case None
    then show ?thesis using Cons.IH [of cs s] by (simp add: r)
  next
    case (Some res)
    obtain rp s1 cs1 where res: "res = (rp, s1, cs1)" by (cases res) auto
    have "cs1 (m, route, code) = cs (m, route, code) + (if has_label (m, route, code) (rq, rp) then 1 else 0)"
      by (rule serve_counted_label) (use Some res in simp)
    then show ?thesis
      using Cons.IH [of cs1 s1] Some res by (auto simp: r split: prod.splits)
  qed
qed simp

end
