(* ===== verification/Telemetry.thy ===== *)
theory Telemetry
  imports Metrics Bot_Messages Operator_Mode
begin

section \<open>The collectors and the gauges (internal/metrics, bot_event.go, whatsapp.go)\<close>

text \<open>
  The metrics of the service and their registration, the gauges for the state of a bot's connection, for the dialogs
  and for the dialogs with an operator, and the recorder that the HTTP middleware puts before a response. The registry
  is the client library's: \<open>answer\<close> is what it says of a collector.
\<close>

subsection \<open>Registration (Register)\<close>

datatype collector_kind = Counter | Gauge | Histogram

datatype collector = Go_runtime | Process | Metric string collector_kind "string list"

text \<open>The name after \<open>air_whatsbot_\<close>, the kind and the labels of every metric, in the order of their registration.\<close>

definition metric_table :: "(string \<times> collector_kind \<times> string list) list" where
  "metric_table =
     [(''messages_received_total'', Counter, [''bot_id'', ''message_type'']),
      (''messages_ignored_total'', Counter, [''bot_id'', ''reason'']),
      (''messages_processed_total'', Counter, [''bot_id'', ''status'']),
      (''crm_requests_total'', Counter, [''bot_id'', ''direction'', ''status'']),
      (''crm_request_duration_seconds'', Histogram, [''bot_id'', ''direction'']),
      (''whatsapp_send_total'', Counter, [''bot_id'', ''status'']),
      (''whatsapp_send_duration_seconds'', Histogram, [''bot_id'']),
      (''message_processing_duration_seconds'', Histogram, [''bot_id'', ''stage'']),
      (''user_channel_init_duration_seconds'', Histogram, [''bot_id'', ''status'']),
      (''decrypt_errors_total'', Counter, [''bot_id'', ''category'']),
      (''reconnects_total'', Counter, [''bot_id'', ''result'']),
      (''http_requests_total'', Counter, [''method'', ''route'', ''status'']),
      (''http_request_duration_seconds'', Histogram, [''method'', ''route'']),
      (''active_sessions'', Gauge, [''bot_id'', ''state'']),
      (''active_dialogs'', Gauge, [''bot_id'']),
      (''operator_mode_dialogs'', Gauge, [''bot_id'']),
      (''whatsapp_calls_total'', Counter, [''bot_id'', ''direction'', ''result'']),
      (''whatsapp_call_errors_total'', Counter, [''bot_id'', ''stage'']),
      (''active_whatsapp_calls'', Gauge, [''bot_id'']),
      (''whatsapp_call_dropped_audio_frames_total'', Counter, [''bot_id'', ''direction'']),
      (''whatsapp_call_realtime_responses_total'', Counter, [''bot_id'', ''event''])]"

definition collectors :: "collector list" where
  "collectors = Go_runtime # Process # map (\<lambda>(name, kind, labels). Metric name kind labels) metric_table"

datatype registration = Registered | Already_registered | Refused string

text \<open>\<open>Inl\<close> is the panic of \<open>registerCollector\<close>.\<close>

definition register_collector ::
  "(collector list \<Rightarrow> collector \<Rightarrow> registration) \<Rightarrow> collector \<Rightarrow> collector list \<Rightarrow> string option \<times> collector list" where
  "register_collector answer c reg =
     (case answer reg c of
        Registered \<Rightarrow> (None, reg @ [c])
      | Already_registered \<Rightarrow> (None, reg)
      | Refused t \<Rightarrow> (Some t, reg))"

fun register_each ::
  "(collector list \<Rightarrow> collector \<Rightarrow> registration) \<Rightarrow> collector list \<Rightarrow> collector list \<Rightarrow> string option \<times> collector list" where
  "register_each answer [] reg = (None, reg)"
| "register_each answer (c # cs) reg =
     (case register_collector answer c reg of
        (Some t, reg) \<Rightarrow> (Some t, reg)
      | (None, reg) \<Rightarrow> register_each answer cs reg)"

record registry_state =
  rg_once :: bool
  rg_collectors :: "collector list"

text \<open>A \<open>sync.Once\<close> is done also when its function has panicked.\<close>

definition register ::
  "(collector list \<Rightarrow> collector \<Rightarrow> registration) \<Rightarrow> registry_state \<Rightarrow> string option \<times> registry_state" where
  "register answer s =
     (if rg_once s then (None, s)
      else case register_each answer collectors (rg_collectors s) of
        (r, reg) \<Rightarrow> (r, \<lparr>rg_once = True, rg_collectors = reg\<rparr>))"

text \<open>What Prometheus answers: a collector that is there is there already, and another with its name is refused.\<close>

fun collector_name :: "collector \<Rightarrow> string" where
  "collector_name Go_runtime = ''go''"
| "collector_name Process = ''process''"
| "collector_name (Metric name _ _) = ''air_whatsbot_'' @ name"

definition prometheus_answer :: "collector list \<Rightarrow> collector \<Rightarrow> registration" where
  "prometheus_answer reg c =
     (if c \<in> set reg then Already_registered
      else if collector_name c \<in> collector_name ` set reg then Refused ''descriptor'' else Registered)"

lemma register_each_fresh:
  "distinct (map collector_name (reg @ cs)) \<Longrightarrow> register_each prometheus_answer cs reg = (None, reg @ cs)"
proof (induction cs arbitrary: reg)
  case (Cons c cs)
  then have "prometheus_answer reg c = Registered" by (auto simp: prometheus_answer_def)
  then show ?case using Cons.IH [of "reg @ [c]"] Cons.prems by (simp add: register_collector_def)
qed simp

lemma metric_names_distinct: "distinct (map fst metric_table)"
  by (simp add: metric_table_def)

lemma collectors_distinct: "distinct (map collector_name collectors)"
proof -
  have "map collector_name collectors = ''go'' # ''process'' # map (\<lambda>n. ''air_whatsbot_'' @ n) (map fst metric_table)"
    by (simp add: collectors_def comp_def split_def)
  moreover have "distinct (map (\<lambda>n. ''air_whatsbot_'' @ n) (map fst metric_table))"
    using metric_names_distinct by (subst distinct_map) (simp add: inj_on_def)
  ultimately show ?thesis by auto
qed

text \<open>With an empty registry every collector is registered, in order, and no later call changes anything. But a call that
  panics is also the last: the collectors after the refused one are never registered, and nothing says so again.\<close>

theorem register_once:
  "register prometheus_answer \<lparr>rg_once = False, rg_collectors = []\<rparr> = (None, \<lparr>rg_once = True, rg_collectors = collectors\<rparr>)
   \<and> register answer (snd (register answer' s)) = (None, snd (register answer' s))"
proof -
  have "register_each prometheus_answer collectors [] = (None, collectors)"
    using register_each_fresh [of "[]" collectors] collectors_distinct by simp
  then show ?thesis by (simp add: register_def split: prod.split)
qed

lemma panic_leaves_unregistered:
  assumes "register_each answer cs reg = (Some t, reg')"
  shows "\<exists>before c after. cs = before @ c # after \<and> answer reg' c = Refused t \<and> set reg' \<subseteq> set reg \<union> set before"
  using assms
proof (induction cs arbitrary: reg)
  case (Cons c cs)
  show ?case
  proof (cases "answer reg c")
    case (Refused u)
    then show ?thesis using Cons.prems by (auto simp: register_collector_def intro!: exI [of _ "[]"])
  next
    case Registered
    then obtain before d after where "cs = before @ d # after" "answer reg' d = Refused t"
      "set reg' \<subseteq> set (reg @ [c]) \<union> set before"
      using Cons.IH [of "reg @ [c]"] Cons.prems by (auto simp: register_collector_def)
    then show ?thesis by (intro exI [of _ "c # before"] exI [of _ d] exI [of _ after]) auto
  next
    case Already_registered
    then obtain before d after where "cs = before @ d # after" "answer reg' d = Refused t" "set reg' \<subseteq> set reg \<union> set before"
      using Cons.IH [of reg] Cons.prems by (auto simp: register_collector_def)
    then show ?thesis by (intro exI [of _ "c # before"] exI [of _ d] exI [of _ after]) auto
  qed
qed simp

subsection \<open>Gauges (handleEvent, TrackActiveDialogs, TrackOperatorModeDialogs)\<close>

text \<open>A gauge has a name and the values of its labels; one that was never set is not there.\<close>

type_synonym gauges = "string \<times> string list \<Rightarrow> nat option"

definition set_gauge :: "string \<Rightarrow> string list \<Rightarrow> nat \<Rightarrow> gauges \<Rightarrow> gauges" where
  "set_gauge name labels v g = g((name, labels) \<mapsto> v)"

definition session_gauge :: "u32 \<Rightarrow> string \<Rightarrow> nat \<Rightarrow> gauges \<Rightarrow> gauges" where
  "session_gauge uid state v = set_gauge ''active_sessions'' [bot_label uid, state] v"

definition session_gauges :: "u32 \<Rightarrow> client_event \<Rightarrow> gauges \<Rightarrow> gauges" where
  "session_gauges uid evt g =
     (case evt of
        Ev_connected \<Rightarrow>
          session_gauge uid ''logged_out'' 0 (session_gauge uid ''disconnected'' 0 (session_gauge uid ''connected'' 1 g))
      | Ev_disconnected \<Rightarrow> session_gauge uid ''disconnected'' 1 (session_gauge uid ''connected'' 0 g)
      | Ev_logged_out \<Rightarrow> session_gauge uid ''logged_out'' 1 (session_gauge uid ''connected'' 0 g)
      | _ \<Rightarrow> g)"

definition track_active_dialogs :: "u32 \<Rightarrow> nat \<Rightarrow> gauges \<Rightarrow> gauges" where
  "track_active_dialogs uid n = set_gauge ''active_dialogs'' [bot_label uid] n"

definition track_operator_mode_dialogs :: "u32 \<Rightarrow> nat \<Rightarrow> gauges \<Rightarrow> gauges" where
  "track_operator_mode_dialogs uid n = set_gauge ''operator_mode_dialogs'' [bot_label uid] n"

text \<open>Where the operator mode is switched: by a bot's listener and by \<open>DisableOperatorMode\<close>.\<close>

definition switch_operator_mode :: "u32 \<Rightarrow> u64 \<Rightarrow> bool \<Rightarrow> operator_modes \<times> gauges \<Rightarrow> operator_modes \<times> gauges" where
  "switch_operator_mode uid dialog on og =
     (case og of (ops, g) \<Rightarrow>
        let ops = set_operator_mode dialog on ops
        in (ops, track_operator_mode_dialogs uid (count_sync_map ops) g))"

definition session_state :: "u32 \<Rightarrow> string \<Rightarrow> gauges \<Rightarrow> nat option" where
  "session_state uid state g = g (''active_sessions'', [bot_label uid, state])"

lemma session_state_simps [simp]:
  "session_state uid st (session_gauge uid st' v g) = (if st = st' then Some v else session_state uid st g)"
  by (simp add: session_state_def session_gauge_def set_gauge_def)

text \<open>After a first connection the three gauges say of the events since the last one: whether none of them ended it,
  whether one was a disconnection, and whether one was a logout.\<close>

theorem session_gauges_exact:
  assumes "Ev_connected \<in> set evs" "g' = fold (session_gauges uid) evs g"
    and "later = takeWhile (\<lambda>ev. ev \<noteq> Ev_connected) (rev evs)"
  shows "session_state uid ''connected'' g' = Some (of_bool (Ev_disconnected \<notin> set later \<and> Ev_logged_out \<notin> set later))
    \<and> session_state uid ''disconnected'' g' = Some (of_bool (Ev_disconnected \<in> set later))
    \<and> session_state uid ''logged_out'' g' = Some (of_bool (Ev_logged_out \<in> set later))"
  using assms
proof (induction evs arbitrary: g' later rule: rev_induct)
  case (snoc ev evs)
  show ?case
  proof (cases "ev = Ev_connected")
    case True
    then show ?thesis using snoc.prems by (simp add: session_gauges_def)
  next
    case False
    then have "Ev_connected \<in> set evs" using snoc.prems(1) by auto
    from snoc.IH [OF this refl refl] False show ?thesis
      using snoc.prems by (cases ev) (simp_all add: session_gauges_def)
  qed
qed simp

text \<open>A bot that loses its connection and is then logged out counts as both: the two gauges do not reset each other.\<close>

lemma two_states_at_once:
  "session_state uid ''disconnected'' (fold (session_gauges uid) [Ev_disconnected, Ev_logged_out] g) = Some 1
   \<and> session_state uid ''logged_out'' (fold (session_gauges uid) [Ev_disconnected, Ev_logged_out] g) = Some 1"
  by (simp add: session_gauges_def)

text \<open>The gauge of a user counts the dialogs of all users, as they share one map; and switching on the mode of one user's
  dialog leaves the gauges of the others as they were.\<close>

lemma operator_gauge_counts_all:
  "snd (switch_operator_mode 7 d2 True (switch_operator_mode 8 d1 True ([], g))) (''operator_mode_dialogs'', [bot_label 7])
     = Some (if d1 = d2 then 1 else 2)"
  by (simp add: switch_operator_mode_def track_operator_mode_dialogs_def set_gauge_def set_operator_mode_def count_sync_map_def)

subsection \<open>The recorder of the middleware (metrics/http.go)\<close>

text \<open>
  \<open>rc_status\<close> is what is counted and \<open>rc_sent\<close> the status that the client has got: the server sends the first one, a body
  before it sends 200, and a second one is ignored. A connection that a handler takes over is its own.
\<close>

record recorder =
  rc_status :: nat
  rc_sent :: "nat option"
  rc_hijacked :: bool

datatype response_op = Write_header nat | Write_body | Hijack bool | Flush

definition write_header :: "nat \<Rightarrow> recorder \<Rightarrow> recorder" where
  "write_header code r = r\<lparr>rc_status := code, rc_sent := (case rc_sent r of None \<Rightarrow> Some code | Some c \<Rightarrow> Some c)\<rparr>"

definition send_ok :: "recorder \<Rightarrow> recorder" where
  "send_ok r = r\<lparr>rc_sent := (case rc_sent r of None \<Rightarrow> Some 200 | Some c \<Rightarrow> Some c)\<rparr>"

text \<open>\<open>able\<close> is whether the connection can be taken over; otherwise the handler gets an error.\<close>

definition hijack :: "bool \<Rightarrow> recorder \<Rightarrow> recorder" where
  "hijack able r = (if able then r\<lparr>rc_hijacked := True\<rparr> else r)"

fun recorder_step :: "response_op \<Rightarrow> recorder \<Rightarrow> recorder" where
  "recorder_step (Write_header code) r = write_header code r"
| "recorder_step Write_body r = send_ok r"
| "recorder_step (Hijack able) r = hijack able r"
| "recorder_step Flush r = send_ok r"

definition recorded :: "response_op list \<Rightarrow> recorder" where
  "recorded ws = fold recorder_step ws \<lparr>rc_status = 200, rc_sent = None, rc_hijacked = False\<rparr>"

text \<open>The status that the server sends in the end, if the connection is still its own.\<close>

definition status_line :: "recorder \<Rightarrow> nat" where
  "status_line r = (case rc_sent r of None \<Rightarrow> 200 | Some c \<Rightarrow> c)"

fun header_codes :: "response_op list \<Rightarrow> nat list" where
  "header_codes [] = []"
| "header_codes (Write_header c # ws) = c # header_codes ws"
| "header_codes (_ # ws) = header_codes ws"

lemma recorder_run:
  "rc_status (fold recorder_step ws r) = (if header_codes ws = [] then rc_status r else last (header_codes ws))
   \<and> (rc_sent r \<noteq> None \<longrightarrow> rc_sent (fold recorder_step ws r) = rc_sent r)"
  by (induction ws arbitrary: r rule: header_codes.induct)
    (auto simp: write_header_def send_ok_def hijack_def split: option.split)

text \<open>What is counted is the status that was sent, for every handler that writes its status, at most once, before
  anything else.\<close>

theorem counted_status_is_sent:
  assumes "header_codes ws = [] \<or> (\<exists>c ws'. ws = Write_header c # ws' \<and> header_codes ws' = [])"
  shows "rc_status (recorded ws) = status_line (recorded ws)"
proof -
  have none: "status_line (fold recorder_step ws r) = status_line r" if "header_codes ws = []" for ws r
    using that
    by (induction ws arbitrary: r rule: header_codes.induct)
      (simp_all add: status_line_def send_ok_def hijack_def split: option.split)
  from assms show ?thesis
  proof (elim disjE exE conjE)
    assume "header_codes ws = []"
    then show ?thesis using none [of ws] recorder_run [of ws] by (simp add: recorded_def status_line_def)
  next
    fix c ws'
    assume "ws = Write_header c # ws'" "header_codes ws' = []"
    then show ?thesis using none [of ws'] recorder_run [of ws'] by (simp add: recorded_def status_line_def write_header_def)
  qed
qed

text \<open>A handler that reports an error after it has begun its answer is counted with a status that nobody got, and a
  WebSocket, whose handshake answers 101 on the connection it has taken over, is counted as 200.\<close>

lemma recorder_miscounts:
  "rc_status (recorded [Write_body, Write_header 500]) = 500 \<and> status_line (recorded [Write_body, Write_header 500]) = 200
   \<and> rc_status (recorded [Hijack True]) = 200 \<and> rc_hijacked (recorded [Hijack True])"
  by (simp add: recorded_def write_header_def send_ok_def hijack_def status_line_def)

end
