(* ===== verification/Shutdown.thy ===== *)
theory Shutdown
  imports GoLib
begin

section \<open>The end of the application (Run in app/app.go, db/db.go)\<close>

text \<open>
  When the root context is cancelled, one goroutine stops the bots, waits for the modules and closes the
  channel \<open>DoneCh\<close> of the database; another closes it after five seconds in any case; a third waits for the
  context and for \<open>DoneCh\<close>, closes the database and then closes the channel \<open>Exit\<close> that \<open>main\<close> waits for.
  The goroutines run in any order: the state says how far each has come, and \<open>app_step\<close> is one step of one of
  them. \<open>ap_closes\<close> counts how often \<open>DoneCh\<close> has really been closed, since a second close would panic.
\<close>

record app_state =
  ap_cancelled :: bool
  ap_bots_stopped :: bool
  ap_pending :: nat
  ap_drained :: bool
  ap_timer :: bool
  ap_done :: bool
  ap_closes :: nat
  ap_db_closed :: bool
  ap_exit :: bool

text \<open>\<open>CloseDoneCh\<close>, under a \<open>sync.Once\<close>.\<close>

definition close_done_ch :: "app_state \<Rightarrow> app_state" where
  "close_done_ch a = (if ap_done a then a else a\<lparr>ap_done := True, ap_closes := Suc (ap_closes a)\<rparr>)"

interpretation done_ch: closable ap_done close_done_ch "\<lambda>_ :: unit. close_done_ch"
  by unfold_locales (simp_all add: close_done_ch_def)

text \<open>The bus starts with the listener of the notifications; the four modules are added at the end.\<close>

definition app_start :: app_state where
  "app_start = \<lparr>ap_cancelled = False, ap_bots_stopped = False, ap_pending = 1, ap_drained = False, ap_timer = False,
     ap_done = False, ap_closes = 0, ap_db_closed = False, ap_exit = False\<rparr>"

inductive app_step :: "app_state \<Rightarrow> app_state \<Rightarrow> bool" where
  signal: "\<not> ap_cancelled a \<Longrightarrow> app_step a (a\<lparr>ap_cancelled := True\<rparr>)"
| bots: "ap_cancelled a \<Longrightarrow> \<not> ap_bots_stopped a \<Longrightarrow>
    app_step a (a\<lparr>ap_bots_stopped := True, ap_pending := ap_pending a + 4\<rparr>)"
| producer: "ap_pending a = Suc n \<Longrightarrow> app_step a (a\<lparr>ap_pending := n\<rparr>)"
| drain: "ap_bots_stopped a \<Longrightarrow> ap_pending a = 0 \<Longrightarrow> \<not> ap_drained a \<Longrightarrow>
    app_step a (close_done_ch (a\<lparr>ap_drained := True\<rparr>))"
| timer: "ap_cancelled a \<Longrightarrow> \<not> ap_timer a \<Longrightarrow> app_step a (close_done_ch (a\<lparr>ap_timer := True\<rparr>))"
| close_db: "ap_cancelled a \<Longrightarrow> ap_done a \<Longrightarrow> \<not> ap_db_closed a \<Longrightarrow> app_step a (a\<lparr>ap_db_closed := True\<rparr>)"
| leave: "ap_db_closed a \<Longrightarrow> \<not> ap_exit a \<Longrightarrow> app_step a (a\<lparr>ap_exit := True\<rparr>)"

inductive_cases app_step_cases: "app_step a b"

code_pred app_step .

abbreviation reachable :: "app_state \<Rightarrow> bool" where
  "reachable a \<equiv> app_step\<^sup>*\<^sup>* app_start a"

subsection \<open>Safety\<close>

definition app_inv :: "app_state \<Rightarrow> bool" where
  "app_inv a \<longleftrightarrow>
     (ap_exit a \<longrightarrow> ap_db_closed a) \<and> (ap_db_closed a \<longrightarrow> ap_done a \<and> ap_cancelled a) \<and>
     (ap_done a \<longrightarrow> ap_drained a \<or> ap_timer a) \<and> (ap_drained a \<longrightarrow> ap_bots_stopped a \<and> ap_pending a = 0) \<and>
     (ap_bots_stopped a \<longrightarrow> ap_cancelled a) \<and> (ap_timer a \<longrightarrow> ap_cancelled a) \<and>
     (ap_drained a \<or> ap_timer a \<longrightarrow> ap_done a) \<and> ap_closes a = (if ap_done a then 1 else 0)"

lemma app_inv_start: "app_inv app_start"
  by (simp add: app_inv_def app_start_def)

lemma app_inv_step: "app_step a b \<Longrightarrow> app_inv a \<Longrightarrow> app_inv b"
  by (erule app_step_cases) (auto simp: app_inv_def close_done_ch_def)

lemma app_inv_reachable: "reachable a \<Longrightarrow> app_inv a"
  by (induction rule: rtranclp_induct) (auto intro: app_inv_start app_inv_step)

text \<open>The database is closed and the program left only after the signal, and only when either the bots are
  stopped and every module has ended or the emergency timer has fired; and \<open>DoneCh\<close> is closed at most once.\<close>

theorem shutdown_order:
  assumes "reachable a"
  shows "(ap_exit a \<longrightarrow> ap_db_closed a)
    \<and> (ap_db_closed a \<longrightarrow> ap_cancelled a \<and> (ap_timer a \<or> ap_bots_stopped a \<and> ap_pending a = 0))
    \<and> ap_closes a \<le> 1"
  using app_inv_reachable [OF assms] by (auto simp: app_inv_def)

text \<open>A run in which the listener never ends: the signal, the timer, the database, the end.\<close>

lemma hanging_run:
  "reachable (app_start\<lparr>ap_cancelled := True, ap_timer := True, ap_done := True, ap_closes := 1, ap_db_closed := True,
     ap_exit := True\<rparr>)"
proof -
  have 1: "app_step app_start (app_start\<lparr>ap_cancelled := True\<rparr>)"
    by (rule signal) (simp add: app_start_def)
  have 2: "app_step (app_start\<lparr>ap_cancelled := True\<rparr>)
      (app_start\<lparr>ap_cancelled := True, ap_timer := True, ap_done := True, ap_closes := 1\<rparr>)"
    using timer [of "app_start\<lparr>ap_cancelled := True\<rparr>"] by (simp add: app_start_def close_done_ch_def)
  have 3: "app_step (app_start\<lparr>ap_cancelled := True, ap_timer := True, ap_done := True, ap_closes := 1\<rparr>)
      (app_start\<lparr>ap_cancelled := True, ap_timer := True, ap_done := True, ap_closes := 1, ap_db_closed := True\<rparr>)"
    using close_db [of "app_start\<lparr>ap_cancelled := True, ap_timer := True, ap_done := True, ap_closes := 1\<rparr>"]
    by (simp add: app_start_def)
  have 4: "app_step (app_start\<lparr>ap_cancelled := True, ap_timer := True, ap_done := True, ap_closes := 1, ap_db_closed := True\<rparr>)
      (app_start\<lparr>ap_cancelled := True, ap_timer := True, ap_done := True, ap_closes := 1, ap_db_closed := True, ap_exit := True\<rparr>)"
    using leave [of "app_start\<lparr>ap_cancelled := True, ap_timer := True, ap_done := True, ap_closes := 1, ap_db_closed := True\<rparr>"]
    by (simp add: app_start_def)
  note step = rtranclp.rtrancl_into_rtrancl [of app_step app_start]
  show ?thesis by (rule step [OF step [OF step [OF r_into_rtranclp [of app_step, OF 1] 2] 3] 4])
qed

theorem shutdown_order_witness:
  "\<exists>a. reachable a \<and> ap_exit a \<and> ap_pending a = 1 \<and> ap_closes a \<le> 1"
  using shutdown_order [OF hanging_run] hanging_run by (intro exI conjI) (auto simp: app_start_def)

subsection \<open>Termination\<close>

text \<open>Every step uses up one of the things that can still happen.\<close>

definition work_left :: "app_state \<Rightarrow> nat" where
  "work_left a = (if ap_cancelled a then 0 else 1) + (if ap_bots_stopped a then 0 else 5) + ap_pending a
     + (if ap_drained a then 0 else 1) + (if ap_timer a then 0 else 1) + (if ap_db_closed a then 0 else 1)
     + (if ap_exit a then 0 else 1)"

lemma work_decreases: "app_step a b \<Longrightarrow> work_left b < work_left a"
  by (erule app_step_cases) (auto simp: work_left_def close_done_ch_def)

lemma steps_bounded: "(app_step ^^ n) a b \<Longrightarrow> n + work_left b \<le> work_left a"
proof (induction n arbitrary: b)
  case (Suc n)
  then obtain c where "(app_step ^^ n) a c" "app_step c b" by auto
  then show ?case using Suc.IH [of c] work_decreases [of c b] by simp
qed simp

text \<open>A state in which all that can still happen is that \<open>StopBot\<close> returns or a module ends, which may never be.\<close>

definition waits_for_others :: "app_state \<Rightarrow> bool" where
  "waits_for_others a \<longleftrightarrow>
     (\<forall>b. app_step a b \<longrightarrow> ap_bots_stopped b \<noteq> ap_bots_stopped a \<or> ap_pending b \<noteq> ap_pending a)"

lemma waitsD:
  "waits_for_others a \<Longrightarrow> app_step a b \<Longrightarrow> ap_bots_stopped b = ap_bots_stopped a \<Longrightarrow> ap_pending b = ap_pending a \<Longrightarrow> False"
  by (auto simp: waits_for_others_def)

lemma waiting_is_left:
  assumes waits: "waits_for_others a" and inv: "app_inv a"
  shows "ap_exit a"
proof (rule ccontr)
  assume "\<not> ap_exit a"
  have c: "ap_cancelled a" by (rule ccontr) (rule waitsD [OF waits signal], simp_all)
  have "ap_timer a" by (rule ccontr) (rule waitsD [OF waits timer], simp_all add: c close_done_ch_def)
  then have "ap_done a" using inv by (simp add: app_inv_def)
  then have "ap_db_closed a" by - (rule ccontr, rule waitsD [OF waits close_db], simp_all add: c)
  then show False using \<open>\<not> ap_exit a\<close> by - (rule waitsD [OF waits leave], simp_all)
qed

lemma own_steps_leave:
  assumes "app_inv a"
  shows "\<exists>m b. m \<le> 5 \<and> (app_step ^^ m) a b \<and> ap_exit b \<and> ap_bots_stopped b = ap_bots_stopped a \<and> ap_pending b = ap_pending a"
proof -
  define left where "left c = (if ap_cancelled c then 0 else 1) + (if ap_timer c then 0 else 1) + (if ap_drained c then 0 else 1)
    + (if ap_db_closed c then 0 else 1) + (if ap_exit c then 0 else (1::nat))" for c :: app_state
  have "\<exists>m b. m \<le> left c \<and> (app_step ^^ m) c b \<and> ap_exit b \<and> ap_bots_stopped b = ap_bots_stopped c \<and> ap_pending b = ap_pending c"
    if "app_inv c" for c
    using that
  proof (induction "left c" arbitrary: c rule: less_induct)
    case less
    show ?case
    proof (cases "ap_exit c")
      case True
      then show ?thesis by (intro exI [of _ 0] exI [of _ c]) simp
    next
      case False
      then obtain d where d: "app_step c d" "ap_bots_stopped d = ap_bots_stopped c" "ap_pending d = ap_pending c"
        using waiting_is_left [of c] less.prems by (auto simp: waits_for_others_def)
      then have "left d < left c"
        by (elim app_step_cases) (auto simp: left_def close_done_ch_def)
      then obtain m b where "m \<le> left d" "(app_step ^^ m) d b" "ap_exit b" "ap_bots_stopped b = ap_bots_stopped d"
          "ap_pending b = ap_pending d"
        using less.hyps [of d] app_inv_step [OF d(1) less.prems] by blast
      moreover from this(2) have "(app_step ^^ Suc m) c b" by (rule relpowp_Suc_I2 [of app_step, OF d(1)])
      ultimately show ?thesis using d \<open>left d < left c\<close>
        by (intro exI [of _ "Suc m"] exI [of _ b]) (simp del: relpowp.simps)
    qed
  qed
  moreover have "left a \<le> 5" by (simp add: left_def)
  ultimately show ?thesis using assms le_trans by blast
qed

text \<open>C28: the shutdown ends: whatever the goroutines do, a run has at most eleven steps; and it leaves the program even if
  \<open>StopBot\<close> never returns and the modules never end: a run in which nothing else can happen any more has left the
  program, and from any state that has not left it, at most five steps of the other goroutines lead there.\<close>

theorem shutdown_ends:
  assumes "(app_step ^^ n) app_start a"
  shows "n \<le> 11 \<and> (waits_for_others a \<longrightarrow> ap_exit a)
    \<and> (\<exists>m b. m \<le> 5 \<and> (app_step ^^ m) a b \<and> ap_exit b \<and> ap_bots_stopped b = ap_bots_stopped a \<and> ap_pending b = ap_pending a)"
proof -
  have "n \<le> 11" using steps_bounded [OF assms] by (simp add: work_left_def app_start_def)
  moreover have "app_inv a"
    by (rule app_inv_reachable) (rule relpowp_imp_rtranclp [OF assms])
  ultimately show ?thesis using waiting_is_left [of a] own_steps_leave [of a] by simp
qed

theorem shutdown_ends_witness:
  "\<exists>n a. (app_step ^^ n) app_start a \<and> n \<le> 11 \<and> ap_exit a \<and> ap_pending a = 1"
proof -
  let ?a = "app_start\<lparr>ap_cancelled := True, ap_timer := True, ap_done := True, ap_closes := 1, ap_db_closed := True,
    ap_exit := True\<rparr>"
  obtain n where n: "(app_step ^^ n) app_start ?a" using rtranclp_imp_relpowp [OF hanging_run] by blast
  have "ap_exit ?a \<and> ap_pending ?a = 1" by (simp add: app_start_def)
  moreover have "n \<le> 11" using shutdown_ends [OF n] by blast
  ultimately show ?thesis using n by blast
qed

end
