(* ===== verification/Bot_Steps.thy ===== *)
theory Bot_Steps
  imports Bot_Registry
begin

section \<open>Requests for bots at the same time (user_bots.go, bot_lifecycle.go, user_auth.go)\<close>

text \<open>
  \<open>Bots\<close> has each request as one step. The code takes no lock around a request: a goroutine of the HTTP
  server goes from one access of shared memory to the next, and the requests of other goroutines come in between.
  Here a request is a sequence of such accesses: \<open>pc\<close> says which comes next and holds the local variables,
  \<open>go_step\<close> performs it, and a world is the shared bots with the goroutines that run. Reading the
  database and the answers of the services does not touch the shared state, so it belongs to the next access.

  A request that runs alone is the operation of \<open>Bots\<close>. Requests of different users do not disturb each
  other; two of the same user can.
\<close>

subsection \<open>The accesses of a request\<close>

text \<open>What follows when \<open>stopUserBot\<close> returns: its caller may be \<open>restartUserBot\<close>.\<close>

datatype stop_then = Then_return | Then_disabled | Then_rebuild wa_user string

datatype pc =
  At_start
| At_row
| At_open wa_user
| At_init u32 dev_store assistant bool
| At_store u32 nat
| At_stop stop_then
| At_flag stop_then nat
| At_mark stop_then nat
| At_calls stop_then nat
| At_cancel stop_then nat
| At_disconnect stop_then nat
| At_delete stop_then
| At_restart
| At_present wa_user string
| At_rebuild wa_user string
| At_replace wa_user dev_store
| At_cancel_old wa_user dev_store nat
| At_auth "string + device option"
| At_settings dev_store
| At_end "bots_error option"

definition after_stop :: "u32 \<Rightarrow> stop_then \<Rightarrow> pc" where
  "after_stop uid t =
     (case t of
        Then_return \<Rightarrow> At_end None
      | Then_disabled \<Rightarrow> At_end (Some (Bot_disabled uid))
      | Then_rebuild u session \<Rightarrow> At_rebuild u session)"

text \<open>\<open>StartUserBot\<close>, and the end of every request that makes a bot.\<close>

definition step_start :: "u32 \<Rightarrow> bots \<Rightarrow> pc \<times> bots" where
  "step_start uid s = (if lookup_bot uid s \<noteq> None then At_end (Some (Bot_already_running uid)) else At_row, s)"

definition step_row :: "bots_env \<Rightarrow> u32 \<Rightarrow> bots \<Rightarrow> pc \<times> bots" where
  "step_row e uid s =
     (case be_user e uid of
        Inl err \<Rightarrow> (At_end (Some (Bot_db_failed err)), s)
      | Inr u \<Rightarrow>
          if \<not> wu_enabled u then (At_end (Some (Bot_disabled uid)), s)
          else case check_user_subscription e uid s of
            (Some err, s) \<Rightarrow> (At_end (Some (Bot_subscription err)), s)
          | (None, s) \<Rightarrow> (At_open u, s))"

definition step_open :: "bots_env \<Rightarrow> wa_user \<Rightarrow> bots \<Rightarrow> pc \<times> bots" where
  "step_open e u s =
     (case open_session e (wu_user u) (wu_session u) s of
        (Inl err, s) \<Rightarrow> (At_end (Some (Bot_decrypt err)), s)
      | (Inr session, s) \<Rightarrow>
          (case parse_user_bot_container (be_parse e) session of
             Inl err \<Rightarrow> (At_end (Some (Bot_token err)), s)
           | Inr st \<Rightarrow> (At_init (wu_user u) st (create_assistant_model u) True, s)))"

definition step_init :: "u32 \<Rightarrow> dev_store \<Rightarrow> assistant \<Rightarrow> bool \<Rightarrow> bots \<Rightarrow> pc \<times> bots" where
  "step_init v st a auto s = (case initialize_bot v st a auto s of (i, s) \<Rightarrow> (At_store v i, s))"

text \<open>\<open>stopUserBot\<close>: the bot is found, its flag read and set, its calls ended, its context cancelled, its client
  disconnected and, half a second later, the user's entry of the map deleted.\<close>

definition step_stop :: "u32 \<Rightarrow> stop_then \<Rightarrow> bots \<Rightarrow> pc \<times> bots" where
  "step_stop uid t s =
     (case lookup_bot uid s of
        None \<Rightarrow> (At_end (Some (Bot_not_found uid)), s)
      | Some i \<Rightarrow> (At_flag t i, s))"

definition step_flag :: "u32 \<Rightarrow> stop_then \<Rightarrow> nat \<Rightarrow> bots \<Rightarrow> pc \<times> bots" where
  "step_flag uid t i s = (if bo_stopped (bt_bots s ! i) then after_stop uid t else At_mark t i, s)"

text \<open>\<open>restartUserBot\<close>.\<close>

definition step_restart :: "bots_env \<Rightarrow> u32 \<Rightarrow> bots \<Rightarrow> pc \<times> bots" where
  "step_restart e uid s =
     (case be_user e uid of
        Inl err \<Rightarrow> (At_end (Some (Bot_db_failed err)), s)
      | Inr u \<Rightarrow>
          (case open_session e (wu_user u) (wu_session u) s of
             (Inl err, s) \<Rightarrow> (At_end (Some (Bot_decrypt err)), s)
           | (Inr session, s) \<Rightarrow> (At_present u session, s)))"

definition step_present :: "u32 \<Rightarrow> wa_user \<Rightarrow> string \<Rightarrow> bots \<Rightarrow> pc \<times> bots" where
  "step_present uid u session s =
     (let t = (if \<not> wu_enabled u then Then_disabled else Then_rebuild u session)
      in (if lookup_bot uid s \<noteq> None then At_stop t else after_stop uid t, s))"

definition step_rebuild :: "bots_env \<Rightarrow> u32 \<Rightarrow> wa_user \<Rightarrow> string \<Rightarrow> bots \<Rightarrow> pc \<times> bots" where
  "step_rebuild e uid u session s =
     (case check_user_subscription e uid s of
        (Some err, s) \<Rightarrow> (At_end (Some (Bot_subscription err)), s)
      | (None, s) \<Rightarrow>
          (case parse_user_bot_container (be_parse e) session of
             Inl err \<Rightarrow> (At_end (Some (Bot_token err)), s)
           | Inr st \<Rightarrow> (At_replace u st, s)))"

text \<open>\<open>createOrUpdateBot\<close>: a registered bot is cancelled before the new one is made.\<close>

definition step_replace :: "wa_user \<Rightarrow> dev_store \<Rightarrow> bots \<Rightarrow> pc \<times> bots" where
  "step_replace u st s =
     (case lookup_bot (wu_user u) s of
        Some i \<Rightarrow> (At_cancel_old u st i, s)
      | None \<Rightarrow> (At_init (wu_user u) st (create_assistant_model u) True, s))"

text \<open>\<open>EnsureAuthBot\<close>: the flow then goes on with the bot that was found or made.\<close>

definition step_auth :: "u32 \<Rightarrow> string + device option \<Rightarrow> bots \<Rightarrow> pc \<times> bots" where
  "step_auth uid fresh s =
     (if lookup_bot uid s \<noteq> None then (At_end None, s)
      else case new_dev_store fresh of
        Inl err \<Rightarrow> (At_end (Some (Bot_store err)), s)
      | Inr st \<Rightarrow> (At_settings st, s))"

definition step_settings :: "bots_env \<Rightarrow> u32 \<Rightarrow> dev_store \<Rightarrow> bots \<Rightarrow> pc \<times> bots" where
  "step_settings e uid st s =
     (case restore_settings e uid st s of (st, s) \<Rightarrow> (At_init uid st (auth_assistant uid) False, s))"

fun go_step :: "bots_env \<Rightarrow> u32 \<Rightarrow> pc \<times> bots \<Rightarrow> pc \<times> bots" where
  "go_step e uid (At_start, s) = step_start uid s"
| "go_step e uid (At_row, s) = step_row e uid s"
| "go_step e uid (At_open u, s) = step_open e u s"
| "go_step e uid (At_init v st a auto, s) = step_init v st a auto s"
| "go_step e uid (At_store v i, s) = (At_end None, store_bot v i s)"
| "go_step e uid (At_stop t, s) = step_stop uid t s"
| "go_step e uid (At_flag t i, s) = step_flag uid t i s"
| "go_step e uid (At_mark t i, s) = (At_calls t i, upd_bot i (\<lambda>b. b\<lparr>bo_stopped := True\<rparr>) s)"
| "go_step e uid (At_calls t i, s) = (At_cancel t i, bfx [Bx_stop_calls uid ''user_removed''] s)"
| "go_step e uid (At_cancel t i, s) = (At_disconnect t i, upd_bot i (\<lambda>b. b\<lparr>bo_cancelled := True\<rparr>) s)"
| "go_step e uid (At_disconnect t i, s) = (At_delete t, upd_bot i (\<lambda>b. b\<lparr>bo_disconnected := True\<rparr>) s)"
| "go_step e uid (At_delete t, s) = (after_stop uid t, delete_bot uid s)"
| "go_step e uid (At_restart, s) = step_restart e uid s"
| "go_step e uid (At_present u session, s) = step_present uid u session s"
| "go_step e uid (At_rebuild u session, s) = step_rebuild e uid u session s"
| "go_step e uid (At_replace u st, s) = step_replace u st s"
| "go_step e uid (At_cancel_old u st i, s) =
     (At_init (wu_user u) st (create_assistant_model u) True, upd_bot i (\<lambda>b. b\<lparr>bo_cancelled := True\<rparr>) s)"
| "go_step e uid (At_auth fresh, s) = step_auth uid fresh s"
| "go_step e uid (At_settings st, s) = step_settings e uid st s"
| "go_step e uid (At_end r, s) = (At_end r, s)"

lemmas step_defs = step_start_def step_row_def step_open_def step_init_def step_stop_def step_flag_def
  step_restart_def step_present_def step_rebuild_def step_replace_def step_auth_def step_settings_def after_stop_def

subsection \<open>A request ends\<close>

text \<open>How many accesses are left at most.\<close>

definition then_left :: "stop_then \<Rightarrow> nat" where
  "then_left t = (case t of Then_rebuild _ _ \<Rightarrow> 5 | _ \<Rightarrow> 0)"

fun steps_left :: "pc \<Rightarrow> nat" where
  "steps_left At_start = 5"
| "steps_left At_row = 4"
| "steps_left (At_open _) = 3"
| "steps_left (At_init _ _ _ _) = 2"
| "steps_left (At_store _ _) = 1"
| "steps_left (At_stop t) = 7 + then_left t"
| "steps_left (At_flag t _) = 6 + then_left t"
| "steps_left (At_mark t _) = 5 + then_left t"
| "steps_left (At_calls t _) = 4 + then_left t"
| "steps_left (At_cancel t _) = 3 + then_left t"
| "steps_left (At_disconnect t _) = 2 + then_left t"
| "steps_left (At_delete t) = 1 + then_left t"
| "steps_left At_restart = 14"
| "steps_left (At_present _ _) = 13"
| "steps_left (At_rebuild _ _) = 5"
| "steps_left (At_replace _ _) = 4"
| "steps_left (At_cancel_old _ _ _) = 3"
| "steps_left (At_auth _) = 4"
| "steps_left (At_settings _) = 3"
| "steps_left (At_end _) = 0"

lemma steps_left_0: "steps_left p = 0 \<longleftrightarrow> (\<exists>r. p = At_end r)"
  by (cases p) simp_all

lemma then_left_after [simp]: "steps_left (after_stop uid t) = then_left t"
  by (simp add: after_stop_def then_left_def split: stop_then.split)

lemma go_step_left: "\<nexists>r. p = At_end r \<Longrightarrow> steps_left (fst (go_step e uid (p, s))) < steps_left p"
  by (cases p) (auto simp: step_defs then_left_def Let_def split: sum.split prod.split option.split stop_then.split)

text \<open>The request when nothing comes in between.\<close>

function go_alone :: "bots_env \<Rightarrow> u32 \<Rightarrow> pc \<times> bots \<Rightarrow> bots_error option \<times> bots" where
  "go_alone e uid (p, s) = (case p of At_end r \<Rightarrow> (r, s) | _ \<Rightarrow> go_alone e uid (go_step e uid (p, s)))"
  by pat_completeness auto

termination
  by (relation "measure (\<lambda>(e, uid, p, s). steps_left p)")
    (simp_all add: case_prod_unfold go_step_left del: go_step.simps steps_left.simps)

declare go_alone.simps [simp del]

lemma go_alone_end [simp]: "go_alone e uid (At_end r, s) = (r, s)"
  by (simp add: go_alone.simps)

lemma go_alone_step: "steps_left p \<noteq> 0 \<Longrightarrow> go_alone e uid (p, s) = go_alone e uid (go_step e uid (p, s))"
  by (subst go_alone.simps) (cases p; simp del: go_step.simps)

lemma go_alone_simps [simp]:
  "go_alone e uid (At_start, s) = go_alone e uid (step_start uid s)"
  "go_alone e uid (At_row, s) = go_alone e uid (step_row e uid s)"
  "go_alone e uid (At_open u, s) = go_alone e uid (step_open e u s)"
  "go_alone e uid (At_init v st a auto, s) = go_alone e uid (step_init v st a auto s)"
  "go_alone e uid (At_store v i, s) = (None, store_bot v i s)"
  "go_alone e uid (At_restart, s) = go_alone e uid (step_restart e uid s)"
  "go_alone e uid (At_present u session, s) = go_alone e uid (step_present uid u session s)"
  "go_alone e uid (At_rebuild u session, s) = go_alone e uid (step_rebuild e uid u session s)"
  "go_alone e uid (At_replace u st, s) = go_alone e uid (step_replace u st s)"
  "go_alone e uid (At_auth fresh, s) = go_alone e uid (step_auth uid fresh s)"
  "go_alone e uid (At_settings st, s) = go_alone e uid (step_settings e uid st s)"
  by (simp_all add: go_alone_step)

lemma upd_upd_bot [simp]: "upd_bot i g (upd_bot i f s) = upd_bot i (\<lambda>b. g (f b)) s"
  by (simp add: upd_bot_def)

lemma go_alone_stop:
  "go_alone e uid (At_stop t, s) =
     (case stop_user_bot uid s of
        (Some err, s) \<Rightarrow> (Some err, s)
      | (None, s) \<Rightarrow> go_alone e uid (after_stop uid t, s))"
proof (cases "lookup_bot uid s")
  case (Some i)
  then show ?thesis
    by (simp add: go_alone_step step_stop_def step_flag_def stop_user_bot_def Let_def)
qed (simp add: go_alone_step step_stop_def stop_user_bot_def)

lemma go_alone_init: "go_alone e uid (At_init v st a auto, s) = (case initialize_bot v st a auto s of (i, s) \<Rightarrow> (None, store_bot v i s))"
  by (simp add: step_init_def split: prod.split)

lemma go_alone_start: "go_alone e uid (At_start, s) = start_user_bot e uid s"
  by (auto simp: step_start_def step_row_def step_open_def start_user_bot_def go_alone_init
      simp del: go_alone_simps(4) split: sum.split prod.split option.split)

lemma go_alone_rebuild: "go_alone e uid (At_rebuild u session, s) = rebuild_bot e uid u session s"
  by (auto simp: step_rebuild_def rebuild_bot_def step_replace_def create_or_update_bot_def go_alone_init go_alone_step [of "At_cancel_old _ _ _"]
      simp del: go_alone_simps(4) split: sum.split prod.split option.split)

lemma stop_user_bot_absent: "lookup_bot uid s = None \<Longrightarrow> stop_user_bot uid s = (Some (Bot_not_found uid), s)"
  by (simp add: stop_user_bot_def)

lemma after_stop_simps [simp]:
  "after_stop uid Then_return = At_end None"
  "after_stop uid Then_disabled = At_end (Some (Bot_disabled uid))"
  "after_stop uid (Then_rebuild u session) = At_rebuild u session"
  by (simp_all add: after_stop_def)

lemma go_alone_restart: "go_alone e uid (At_restart, s) = restart_user_bot e uid s"
proof (cases "be_user e uid")
  case (Inr u)
  obtain opened s1 where o: "open_session e (wu_user u) (wu_session u) s = (opened, s1)" by fastforce
  show ?thesis
    using Inr o
    by (cases opened; cases "wu_enabled u"; cases "lookup_bot uid s1")
      (simp_all add: step_restart_def step_present_def restart_user_bot_def stop_if_present_def go_alone_stop go_alone_rebuild
        del: go_alone_simps(8) split: prod.split option.split)
qed (simp add: step_restart_def restart_user_bot_def)

lemma go_alone_auth:
  "go_alone e uid (At_auth fresh, s) =
     (case ensure_auth_bot e fresh uid s of (Inl err, s) \<Rightarrow> (Some err, s) | (Inr i, s) \<Rightarrow> (None, s))"
  by (auto simp: step_auth_def step_settings_def ensure_auth_bot_def go_alone_init
      simp del: go_alone_simps(4) split: sum.split prod.split option.split)

datatype request = Rq_start | Rq_stop | Rq_restart | Rq_auth "string + device option"

fun request_pc :: "request \<Rightarrow> pc" where
  "request_pc Rq_start = At_start"
| "request_pc Rq_stop = At_stop Then_return"
| "request_pc Rq_restart = At_restart"
| "request_pc (Rq_auth fresh) = At_auth fresh"

text \<open>The operation of \<open>Bots\<close> that a request is.\<close>

fun request_op :: "bots_env \<Rightarrow> u32 \<Rightarrow> request \<Rightarrow> bots \<Rightarrow> bots_error option \<times> bots" where
  "request_op e uid Rq_start s = start_user_bot e uid s"
| "request_op e uid Rq_stop s = stop_user_bot uid s"
| "request_op e uid Rq_restart s = restart_user_bot e uid s"
| "request_op e uid (Rq_auth fresh) s =
     (case ensure_auth_bot e fresh uid s of (Inl err, s) \<Rightarrow> (Some err, s) | (Inr i, s) \<Rightarrow> (None, s))"

lemma go_alone_request: "go_alone e uid (request_pc rq, s) = request_op e uid rq s"
proof (cases rq)
  case Rq_stop
  then show ?thesis
    by (cases "stop_user_bot uid s"; cases "fst (stop_user_bot uid s)") (simp_all add: go_alone_stop after_stop_def)
qed (simp_all add: go_alone_start go_alone_restart go_alone_auth del: go_alone_simps)

lemma request_left: "steps_left (request_pc rq) \<le> 14"
  by (cases rq) (simp_all add: then_left_def)

lemma go_step_end [simp]: "(go_step e uid ^^ n) (At_end r, s) = (At_end r, s)"
  by (induction n) simp_all

lemma go_steps_alone:
  "steps_left p \<le> n \<Longrightarrow> (go_step e uid ^^ n) (p, s) = (case go_alone e uid (p, s) of (r, s) \<Rightarrow> (At_end r, s))"
proof (induction n arbitrary: p s)
  case (Suc n)
  show ?case
  proof (cases "steps_left p = 0")
    case True
    then show ?thesis using steps_left_0 [of p] by (auto simp del: funpow.simps)
  next
    case False
    obtain p' s' where g: "go_step e uid (p, s) = (p', s')" by fastforce
    have "steps_left p' < steps_left p"
      using go_step_left [of p e uid s] False g steps_left_0 [of p] by simp
    then have "(go_step e uid ^^ n) (p', s') = (case go_alone e uid (p', s') of (r, s) \<Rightarrow> (At_end r, s))"
      using Suc by simp
    then show ?thesis using g go_alone_step [OF False, of e uid s] by (simp add: funpow_Suc_right del: funpow.simps)
  qed
qed (auto simp: steps_left_0)

end
