(* ===== verification/Bot_Races.thy ===== *)
theory Bot_Races
  imports Bot_Steps
begin

section \<open>Interleaved requests: what holds of the bots and what does not\<close>

text \<open>
  The goroutines of \<open>Bot_Steps\<close> over the shared bots. Between their accesses come those of the bots
  themselves: connecting, failing, a new authorisation, the end of the program (each changes cells, never the map).
  The invariant is Owicki and Gries' kind: an assertion for each place a request can be at, kept by its own steps
  and not disturbed by those of the others, as long as no two requests of one user overlap.
\<close>

subsection \<open>The world\<close>

record goroutine =
  go_env :: bots_env
  go_user :: u32
  go_pc :: pc

record world =
  wl_bots :: bots
  wl_gos :: "goroutine list"

datatype world_event = Ev_request bots_env u32 request | Ev_run nat | Ev_bot bots_op

definition active :: "goroutine \<Rightarrow> bool" where
  "active g \<longleftrightarrow> (case go_pc g of At_end _ \<Rightarrow> False | _ \<Rightarrow> True)"

fun world_step :: "world_event \<Rightarrow> world \<Rightarrow> world" where
  "world_step (Ev_request e uid rq) w =
     w\<lparr>wl_gos := wl_gos w @ [\<lparr>go_env = e, go_user = uid, go_pc = request_pc rq\<rparr>]\<rparr>"
| "world_step (Ev_run k) w =
     (if k < length (wl_gos w) then
        let g = wl_gos w ! k in
        case go_step (go_env g) (go_user g) (go_pc g, wl_bots w) of
          (p, s) \<Rightarrow> w\<lparr>wl_bots := s, wl_gos := (wl_gos w)[k := g\<lparr>go_pc := p\<rparr>]\<rparr>
      else w)"
| "world_step (Ev_bot op) w = w\<lparr>wl_bots := bots_step op (wl_bots w)\<rparr>"

text \<open>What the bots do by themselves, as opposed to requests.\<close>

fun local_op :: "bots_op \<Rightarrow> bool" where
  "local_op (Op_connect e i) = True"
| "local_op (Op_reset i) = True"
| "local_op (Op_reauth e i) = True"
| "local_op (Op_shutdown is) = True"
| "local_op (Op_prepare i) = True"
| "local_op (Op_settings allow_text allow_call i) = True"
| "local_op _ = False"

definition event_ok :: "world_event \<Rightarrow> bool" where
  "event_ok ev \<longleftrightarrow> (case ev of Ev_request e uid rq \<Rightarrow> own_row e | Ev_run k \<Rightarrow> True | Ev_bot op \<Rightarrow> local_op op)"

text \<open>A request comes when the user has no other one under way.\<close>

definition in_turn :: "world \<Rightarrow> world_event \<Rightarrow> bool" where
  "in_turn w ev \<longleftrightarrow>
     (case ev of Ev_request e uid rq \<Rightarrow> \<not> list_ex (\<lambda>g. active g \<and> go_user g = uid) (wl_gos w) | _ \<Rightarrow> True)"

fun serial_run :: "world_event list \<Rightarrow> world \<Rightarrow> bool" where
  "serial_run [] w = True"
| "serial_run (ev # evs) w = (event_ok ev \<and> in_turn w ev \<and> serial_run evs (world_step ev w))"

abbreviation world_run :: "world_event list \<Rightarrow> world \<Rightarrow> world" where
  "world_run \<equiv> fold world_step"

subsection \<open>The assertions\<close>

text \<open>Every registered bot of the user is cancelled.\<close>

definition none_live :: "u32 \<Rightarrow> bots \<Rightarrow> bool" where
  "none_live u s \<longleftrightarrow> (\<forall>i. lookup_bot u s = Some i \<longrightarrow> bo_cancelled (bt_bots s ! i))"

fun then_ok :: "u32 \<Rightarrow> stop_then \<Rightarrow> bool" where
  "then_ok uid (Then_rebuild u session) = (wu_user u = uid)"
| "then_ok uid t = True"

fun pc_ok :: "u32 \<Rightarrow> pc \<Rightarrow> bots \<Rightarrow> bool" where
  "pc_ok uid At_row s = (lookup_bot uid s = None)"
| "pc_ok uid (At_open u) s = (wu_user u = uid \<and> lookup_bot uid s = None)"
| "pc_ok uid (At_init v st a auto) s = (v = uid \<and> none_live uid s)"
| "pc_ok uid (At_store v i) s = (v = uid \<and> none_live uid s \<and> i < length (bt_bots s) \<and> bo_user (bt_bots s ! i) = uid)"
| "pc_ok uid (At_stop t) s = then_ok uid t"
| "pc_ok uid (At_flag t i) s = (then_ok uid t \<and> lookup_bot uid s = Some i)"
| "pc_ok uid (At_mark t i) s = (then_ok uid t \<and> lookup_bot uid s = Some i)"
| "pc_ok uid (At_calls t i) s = (then_ok uid t \<and> lookup_bot uid s = Some i)"
| "pc_ok uid (At_cancel t i) s = (then_ok uid t \<and> lookup_bot uid s = Some i)"
| "pc_ok uid (At_disconnect t i) s = (then_ok uid t \<and> none_live uid s)"
| "pc_ok uid (At_delete t) s = (then_ok uid t \<and> none_live uid s)"
| "pc_ok uid (At_present u session) s = (wu_user u = uid)"
| "pc_ok uid (At_rebuild u session) s = (wu_user u = uid)"
| "pc_ok uid (At_replace u st) s = (wu_user u = uid)"
| "pc_ok uid (At_cancel_old u st i) s = (wu_user u = uid \<and> lookup_bot uid s = Some i)"
| "pc_ok uid (At_settings st) s = (lookup_bot uid s = None)"
| "pc_ok uid _ s = True"

text \<open>The bot that a request has made and not yet registered.\<close>

definition held :: "pc \<Rightarrow> nat \<Rightarrow> bool" where
  "held p i \<longleftrightarrow> (case p of At_store v j \<Rightarrow> j = i | _ \<Rightarrow> False)"

definition user_ok :: "u32 \<Rightarrow> pc \<Rightarrow> bots \<Rightarrow> bool" where
  "user_ok u p s \<longleftrightarrow>
     pc_ok u p s \<and>
     (\<forall>i. lookup_bot u s = Some i \<longrightarrow> i < length (bt_bots s) \<and> bo_user (bt_bots s ! i) = u) \<and>
     (\<forall>i < length (bt_bots s). bo_user (bt_bots s ! i) = u \<longrightarrow> \<not> bo_cancelled (bt_bots s ! i) \<longrightarrow>
        lookup_bot u s = Some i \<or> held p i)"

text \<open>A step does nothing to a user but cancel bots.\<close>

definition undisturbed :: "u32 \<Rightarrow> bots \<Rightarrow> bots \<Rightarrow> bool" where
  "undisturbed u s s' \<longleftrightarrow>
     lookup_bot u s' = lookup_bot u s \<and> length (bt_bots s) \<le> length (bt_bots s') \<and>
     (\<forall>i < length (bt_bots s). bo_user (bt_bots s' ! i) = bo_user (bt_bots s ! i)
        \<and> (bo_cancelled (bt_bots s ! i) \<longrightarrow> bo_cancelled (bt_bots s' ! i))) \<and>
     (\<forall>i < length (bt_bots s'). length (bt_bots s) \<le> i \<longrightarrow> bo_user (bt_bots s' ! i) \<noteq> u)"

lemma undisturbed_refl [simp]: "undisturbed u s s"
  by (simp add: undisturbed_def)

lemma undisturbed_trans: "undisturbed u s s' \<Longrightarrow> undisturbed u s' s'' \<Longrightarrow> undisturbed u s s''"
  unfolding undisturbed_def by (metis leI le_trans less_le_trans)

lemma undisturbed_fold:
  assumes "\<And>x s. undisturbed u s (f x s)"
  shows "undisturbed u s (fold f xs s)"
proof (induction xs arbitrary: s)
  case (Cons x xs)
  then show ?case using undisturbed_trans [OF assms [of s x]] by simp
qed simp

lemma undisturbed_bfx [simp]: "undisturbed u s (bfx es s') = undisturbed u s s'"
  by (simp add: undisturbed_def)

lemma undisturbed_same: "same_bots s s' \<Longrightarrow> undisturbed u s s'"
  by (simp add: undisturbed_def same_bots_lookup) (simp add: same_bots_def)

lemma undisturbed_upd:
  assumes "\<And>b. bo_user (f b) = bo_user b" "\<And>b. bo_cancelled b \<Longrightarrow> bo_cancelled (f b)"
  shows "undisturbed u s (upd_bot i f s)"
  using assms by (cases "i < length (bt_bots s)") (auto simp: undisturbed_def nth_update_at)

lemma undisturbed_init: "v \<noteq> u \<Longrightarrow> undisturbed u s (snd (initialize_bot v st a auto s))"
  by (auto simp: undisturbed_def nth_append)

lemma undisturbed_store: "v \<noteq> u \<Longrightarrow> undisturbed u s (store_bot v i s)"
  by (simp add: undisturbed_def)

lemma undisturbed_delete: "v \<noteq> u \<Longrightarrow> undisturbed u s (delete_bot v s)"
  by (simp add: undisturbed_def)

lemma undisturbed_none_live:
  assumes "user_ok u p s" "undisturbed u s s'" "none_live u s"
  shows "none_live u s'"
  using assms unfolding user_ok_def undisturbed_def none_live_def by metis

lemma undisturbed_ok:
  assumes ok: "user_ok u p s" and step: "undisturbed u s s'"
  shows "user_ok u p s'"
proof -
  have l: "lookup_bot u s' = lookup_bot u s" "length (bt_bots s) \<le> length (bt_bots s')"
    and c: "\<And>i. i < length (bt_bots s) \<Longrightarrow> bo_user (bt_bots s' ! i) = bo_user (bt_bots s ! i)"
    "\<And>i. i < length (bt_bots s) \<Longrightarrow> \<not> bo_cancelled (bt_bots s' ! i) \<Longrightarrow> \<not> bo_cancelled (bt_bots s ! i)"
    "\<And>i. i < length (bt_bots s') \<Longrightarrow> bo_user (bt_bots s' ! i) = u \<Longrightarrow> i < length (bt_bots s)"
    using step unfolding undisturbed_def by (auto simp: not_less[symmetric])
  have "pc_ok u p s'"
    using ok undisturbed_none_live [OF ok step] l c(1) by (cases p) (auto simp: user_ok_def)
  then show ?thesis
    using ok l c unfolding user_ok_def by (metis less_le_trans)
qed

subsection \<open>Nobody disturbs another user\<close>

lemma answers_same:
  "check_user_subscription e uid s = (r, s') \<Longrightarrow> same_bots s s'"
  "open_session e uid raw s = (r', s') \<Longrightarrow> same_bots s s'"
  "restore_settings e uid st s = (st', s') \<Longrightarrow> same_bots s s'"
  using check_subscription_same [of s e uid] open_session_same [of s e uid raw] restore_settings_same [of s e uid st]
  by simp_all

text \<open>The accesses that leave the bots and the map as they are.\<close>

lemma step_bots_same:
  "same_bots s (snd (step_start uid s))" "same_bots s (snd (step_row e uid s))" "same_bots s (snd (step_open e u s))"
  "same_bots s (snd (step_stop uid t s))" "same_bots s (snd (step_flag uid t i s))" "same_bots s (snd (step_restart e uid s))"
  "same_bots s (snd (step_present uid u session s))" "same_bots s (snd (step_rebuild e uid u session s))"
  "same_bots s (snd (step_replace u st s))" "same_bots s (snd (step_auth uid fresh s))" "same_bots s (snd (step_settings e uid st s))"
  by (auto simp: step_defs Let_def dest: answers_same split: sum.split prod.split option.split)

lemma go_step_undisturbed:
  assumes "user_ok uid p s" "u \<noteq> uid"
  shows "undisturbed u s (snd (go_step e uid (p, s)))"
proof (cases p)
  case (At_init v st a auto)
  then show ?thesis
    using assms undisturbed_init [of v u s st a auto] by (auto simp: step_init_def user_ok_def case_prod_unfold)
qed (use assms in \<open>auto simp: user_ok_def intro: undisturbed_same step_bots_same undisturbed_upd undisturbed_store undisturbed_delete\<close>)

lemma local_op_undisturbed:
  assumes "local_op op"
  shows "undisturbed u s (bots_step op s)"
proof -
  have reset: "undisturbed u s (reset_session i s)" for i s
    unfolding reset_session_def Let_def by (rule undisturbed_trans [OF _ undisturbed_upd]) simp_all
  have "undisturbed u s (reauth_effect i st s)" for i st s
    by (cases st) (simp_all add: reauth_effect_def Let_def reset)
  then have reauth: "undisturbed u s (fold (reauth_effect i) sts s)" for i sts s
    by (rule undisturbed_fold)
  have "undisturbed u s (stop_bot i s)" for i s
    by (auto simp: stop_bot_def intro!: undisturbed_trans [OF _ undisturbed_upd])
  then have stop: "undisturbed u s (stop_all_bots is s)" for "is" s
    unfolding stop_all_bots_def by (rule undisturbed_fold)
  show ?thesis
    using assms
  proof (cases op)
    case (Op_connect e i)
    then show ?thesis
      by (auto simp: connect_bot_def Let_def intro!: undisturbed_trans [OF _ undisturbed_upd] split: option.split)
  next
    case (Op_prepare i)
    then show ?thesis by (auto simp: prepare_reauth_def intro!: undisturbed_trans [OF _ undisturbed_upd])
  next
    case (Op_settings allow_text allow_call i)
    then show ?thesis by (auto simp: set_auth_settings_def intro!: undisturbed_upd)
  qed (simp_all add: reset reauth stop trigger_reauth_def Let_def case_prod_unfold)
qed

subsection \<open>A request keeps its own assertions\<close>

lemma user_okI:
  assumes "pc_ok u p s" "\<And>i. lookup_bot u s = Some i \<Longrightarrow> i < length (bt_bots s) \<and> bo_user (bt_bots s ! i) = u"
    and "\<And>i. i < length (bt_bots s) \<Longrightarrow> bo_user (bt_bots s ! i) = u \<Longrightarrow> \<not> bo_cancelled (bt_bots s ! i) \<Longrightarrow>
      lookup_bot u s = Some i \<or> held p i"
  shows "user_ok u p s"
  using assms by (simp add: user_ok_def)

lemma user_okD:
  assumes "user_ok u p s"
  shows "pc_ok u p s" "lookup_bot u s = Some i \<Longrightarrow> i < length (bt_bots s)"
    "lookup_bot u s = Some i \<Longrightarrow> bo_user (bt_bots s ! i) = u"
    "i < length (bt_bots s) \<Longrightarrow> bo_user (bt_bots s ! i) = u \<Longrightarrow> \<not> bo_cancelled (bt_bots s ! i) \<Longrightarrow>
      lookup_bot u s = Some i \<or> held p i"
  using assms by (simp_all add: user_ok_def)

lemma user_ok_move:
  assumes ok: "user_ok u p s" and p': "pc_ok u p' s" and h: "\<And>i. \<not> held p i"
  shows "user_ok u p' s"
proof (rule user_okI)
  show "lookup_bot u s = Some i \<or> held p' i"
    if "i < length (bt_bots s)" "bo_user (bt_bots s ! i) = u" "\<not> bo_cancelled (bt_bots s ! i)" for i
    using user_okD(4) [OF ok that] h by simp
qed (use p' user_okD(2,3) [OF ok] in simp_all)

lemma user_ok_same: "user_ok u p s \<Longrightarrow> same_bots s s' \<Longrightarrow> user_ok u p s'"
  by (rule undisturbed_ok [OF _ undisturbed_same])

lemma none_live_same: "same_bots s s' \<Longrightarrow> none_live u s' = none_live u s"
  by (simp add: none_live_def same_bots_lookup) (simp add: same_bots_def)

lemma user_ok_cancel:
  assumes ok: "user_ok u p s" and l: "lookup_bot u s = Some i" and h: "\<And>i. \<not> held p i"
    and p': "none_live u (upd_bot i (\<lambda>b. b\<lparr>bo_cancelled := True\<rparr>) s) \<Longrightarrow> pc_ok u p' (upd_bot i (\<lambda>b. b\<lparr>bo_cancelled := True\<rparr>) s)"
  shows "user_ok u p' (upd_bot i (\<lambda>b. b\<lparr>bo_cancelled := True\<rparr>) s)" (is "user_ok u p' ?s")
proof -
  have "none_live u ?s" using l user_okD(2) [OF ok l] by (simp add: none_live_def nth_update_at)
  moreover have "user_ok u p ?s" by (rule undisturbed_ok [OF ok undisturbed_upd]) simp_all
  ultimately show ?thesis using user_ok_move [OF _ p' h] by blast
qed

lemma after_stop_ok: "then_ok uid t \<Longrightarrow> pc_ok uid (after_stop uid t) s"
  by (cases t) simp_all

lemma user_ok_delete:
  assumes ok: "user_ok u (At_delete t) s"
  shows "user_ok u (after_stop u t) (delete_bot u s)"
proof -
  have t: "then_ok u t" "none_live u s" using user_okD(1) [OF ok] by simp_all
  show ?thesis
  proof (rule user_okI)
    fix i assume "i < length (bt_bots (delete_bot u s))" "bo_user (bt_bots (delete_bot u s) ! i) = u"
      "\<not> bo_cancelled (bt_bots (delete_bot u s) ! i)"
    then show "lookup_bot u (delete_bot u s) = Some i \<or> held (after_stop u t) i"
      using user_okD(4) [OF ok, of i] t(2) by (auto simp: held_def none_live_def)
  qed (use t after_stop_ok in auto)
qed

lemma user_ok_init:
  assumes ok: "user_ok u (At_init v st a auto) s"
  shows "user_ok u (At_store v (length (bt_bots s))) (snd (initialize_bot v st a auto s))" (is "user_ok u ?p ?s")
proof -
  have v: "v = u" "none_live u s" using user_okD(1) [OF ok] by simp_all
  have live: "none_live u ?s" using v(2) user_okD(2) [OF ok] by (auto simp: none_live_def nth_append)
  show ?thesis
  proof (rule user_okI)
    fix i assume i: "i < length (bt_bots ?s)" "bo_user (bt_bots ?s ! i) = u" "\<not> bo_cancelled (bt_bots ?s ! i)"
    show "lookup_bot u ?s = Some i \<or> held ?p i"
    proof (cases "i = length (bt_bots s)")
      case False
      then show ?thesis using i user_okD(4) [OF ok, of i] by (simp add: nth_append held_def)
    qed (simp add: held_def)
  qed (use v live user_okD(2,3) [OF ok] in \<open>auto simp: nth_append less_SucI\<close>)
qed

lemma user_ok_store:
  assumes ok: "user_ok u (At_store v i) s"
  shows "user_ok u (At_end r) (store_bot v i s)"
proof -
  have v: "v = u" "none_live u s" "i < length (bt_bots s)" "bo_user (bt_bots s ! i) = u"
    using user_okD(1) [OF ok] by simp_all
  show ?thesis
  proof (rule user_okI)
    fix j assume "j < length (bt_bots (store_bot v i s))" "bo_user (bt_bots (store_bot v i s) ! j) = u"
      "\<not> bo_cancelled (bt_bots (store_bot v i s) ! j)"
    then show "lookup_bot u (store_bot v i s) = Some j \<or> held (At_end r) j"
      using user_okD(4) [OF ok, of j] v by (auto simp: held_def none_live_def)
  qed (use v in auto)
qed

lemma lookup_answers:
  "check_user_subscription e uid s = (r, s') \<Longrightarrow> lookup_bot v s' = lookup_bot v s"
  "open_session e uid raw s = (r', s') \<Longrightarrow> lookup_bot v s' = lookup_bot v s"
  "restore_settings e uid st s = (st', s') \<Longrightarrow> lookup_bot v s' = lookup_bot v s"
  by (auto dest: answers_same same_bots_lookup)

lemma pc_ok_reads:
  assumes "own_row e"
  shows "pc_ok uid (fst (step_start uid s)) (snd (step_start uid s))"
    "pc_ok uid At_row s \<Longrightarrow> pc_ok uid (fst (step_row e uid s)) (snd (step_row e uid s))"
    "pc_ok uid (At_open u) s \<Longrightarrow> pc_ok uid (fst (step_open e u s)) (snd (step_open e u s))"
    "pc_ok uid (At_stop t) s \<Longrightarrow> pc_ok uid (fst (step_stop uid t s)) (snd (step_stop uid t s))"
    "pc_ok uid (At_flag t i) s \<Longrightarrow> pc_ok uid (fst (step_flag uid t i s)) (snd (step_flag uid t i s))"
    "pc_ok uid (fst (step_restart e uid s)) (snd (step_restart e uid s))"
    "pc_ok uid (At_present u session) s \<Longrightarrow> pc_ok uid (fst (step_present uid u session s)) (snd (step_present uid u session s))"
    "pc_ok uid (At_rebuild u session) s \<Longrightarrow> pc_ok uid (fst (step_rebuild e uid u session s)) (snd (step_rebuild e uid u session s))"
    "pc_ok uid (At_replace u st) s \<Longrightarrow> pc_ok uid (fst (step_replace u st s)) (snd (step_replace u st s))"
    "pc_ok uid (fst (step_auth uid fresh s)) (snd (step_auth uid fresh s))"
    "pc_ok uid (At_settings st) s \<Longrightarrow> pc_ok uid (fst (step_settings e uid st s)) (snd (step_settings e uid st s))"
  using assms
  by (auto simp: step_start_def step_row_def step_open_def step_stop_def step_flag_def step_restart_def step_present_def
      step_rebuild_def step_replace_def step_auth_def step_settings_def own_row_def none_live_def after_stop_ok Let_def
      lookup_answers split: sum.split prod.split option.split)

lemma user_ok_read:
  assumes "user_ok u p s" "same_bots s s'" "pc_ok u p' s'" "\<And>i. \<not> held p i"
  shows "user_ok u p' s'"
  by (rule user_ok_move [OF user_ok_same [OF assms(1,2)] assms(3,4)])

lemma go_step_ok:
  assumes ok: "user_ok uid p s" and own: "own_row e"
  shows "user_ok uid (fst (go_step e uid (p, s))) (snd (go_step e uid (p, s)))"
proof (cases p)
  case (At_init v st a auto)
  then show ?thesis using user_ok_init ok by (simp add: step_init_def case_prod_unfold)
next
  case (At_store v i)
  then show ?thesis using user_ok_store ok by simp
next
  case (At_mark t i)
  have moved: "user_ok uid p (upd_bot i (\<lambda>b. b\<lparr>bo_stopped := True\<rparr>) s)"
    by (rule undisturbed_ok [OF ok undisturbed_upd]) simp_all
  from user_ok_move [OF moved, of "At_calls t i"] show ?thesis
    using user_okD(1) [OF moved] At_mark by (simp add: held_def)
next
  case (At_calls t i)
  have moved: "user_ok uid p (bfx [Bx_stop_calls uid ''user_removed''] s)" by (rule user_ok_same [OF ok]) simp
  from user_ok_move [OF moved, of "At_cancel t i"] show ?thesis
    using user_okD(1) [OF moved] At_calls by (simp add: held_def)
next
  case (At_cancel t i)
  then show ?thesis using ok user_okD(1) [OF ok] by (auto intro!: user_ok_cancel [of _ p] simp: held_def)
next
  case (At_disconnect t i)
  have moved: "user_ok uid p (upd_bot i (\<lambda>b. b\<lparr>bo_disconnected := True\<rparr>) s)"
    by (rule undisturbed_ok [OF ok undisturbed_upd]) simp_all
  from user_ok_move [OF moved, of "At_delete t"] show ?thesis
    using user_okD(1) [OF moved] At_disconnect by (simp add: held_def)
next
  case (At_delete t)
  then show ?thesis using user_ok_delete ok by simp
next
  case (At_cancel_old u st i)
  then show ?thesis using ok user_okD(1) [OF ok] by (auto intro!: user_ok_cancel [of _ p] simp: held_def)
qed (use ok user_okD(1) [OF ok] in
    \<open>auto intro!: user_ok_read [where p = p and s = s] step_bots_same pc_ok_reads [OF own] simp: held_def\<close>)

subsection \<open>Runs in which the requests of a user do not overlap\<close>

definition busy :: "u32 \<Rightarrow> world \<Rightarrow> bool" where
  "busy u w \<longleftrightarrow> list_ex (\<lambda>g. active g \<and> go_user g = u) (wl_gos w)"

definition world_ok :: "world \<Rightarrow> bool" where
  "world_ok w \<longleftrightarrow>
     (\<forall>j k. j < length (wl_gos w) \<longrightarrow> k < length (wl_gos w) \<longrightarrow> active (wl_gos w ! j) \<longrightarrow> active (wl_gos w ! k) \<longrightarrow>
        go_user (wl_gos w ! j) = go_user (wl_gos w ! k) \<longrightarrow> j = k) \<and>
     (\<forall>k < length (wl_gos w). own_row (go_env (wl_gos w ! k)) \<and>
        (active (wl_gos w ! k) \<longrightarrow> user_ok (go_user (wl_gos w ! k)) (go_pc (wl_gos w ! k)) (wl_bots w))) \<and>
     (\<forall>u. \<not> busy u w \<longrightarrow> user_ok u (At_end None) (wl_bots w))"

lemma busy_iff: "busy u w \<longleftrightarrow> (\<exists>k < length (wl_gos w). active (wl_gos w ! k) \<and> go_user (wl_gos w ! k) = u)"
  by (simp add: busy_def list_ex_length)

lemma request_pc_ok: "pc_ok u (request_pc rq) s \<and> \<not> held (request_pc rq) i"
  by (cases rq) (simp_all add: held_def)

lemma inactive_end: "\<not> active g \<longleftrightarrow> (\<exists>r. go_pc g = At_end r)"
  by (simp add: active_def split: pc.split)

lemma user_ok_end: "user_ok u (At_end r) s \<Longrightarrow> user_ok u (At_end r') s"
  by (rule user_ok_move [where p = "At_end r"]) (simp_all add: held_def)

lemma world_okD:
  assumes "world_ok w"
  shows "j < length (wl_gos w) \<Longrightarrow> k < length (wl_gos w) \<Longrightarrow> active (wl_gos w ! j) \<Longrightarrow> active (wl_gos w ! k) \<Longrightarrow>
      go_user (wl_gos w ! j) = go_user (wl_gos w ! k) \<Longrightarrow> j = k"
    and "k < length (wl_gos w) \<Longrightarrow> own_row (go_env (wl_gos w ! k))"
    and "k < length (wl_gos w) \<Longrightarrow> active (wl_gos w ! k) \<Longrightarrow>
      user_ok (go_user (wl_gos w ! k)) (go_pc (wl_gos w ! k)) (wl_bots w)"
    and "\<not> busy u w \<Longrightarrow> user_ok u (At_end None) (wl_bots w)"
  using assms unfolding world_ok_def by blast+

lemma world_ok_request:
  assumes ok: "world_ok w" and own: "own_row e" and idle: "\<not> busy uid w"
  shows "world_ok (world_step (Ev_request e uid rq) w)" (is "world_ok ?w")
proof -
  let ?g = "\<lparr>go_env = e, go_user = uid, go_pc = request_pc rq\<rparr>"
  have new: "user_ok uid (request_pc rq) (wl_bots w)"
    using user_ok_move [OF world_okD(4) [OF ok idle]] request_pc_ok by (simp add: held_def)
  have gos: "wl_gos ?w = wl_gos w @ [?g]" "wl_bots ?w = wl_bots w" by simp_all
  have others: "go_user (wl_gos w ! k) \<noteq> uid" if "k < length (wl_gos w)" "active (wl_gos w ! k)" for k
    using idle that by (auto simp: busy_iff)
  have busy: "busy u w" if "busy u ?w" "u \<noteq> uid" for u
    using that by (auto simp: busy_def)
  have stay: "\<not> busy u w" if "\<not> busy u ?w" for u
    using that by (auto simp: busy_def)
  show ?thesis
    unfolding world_ok_def gos(2)
  proof (intro conjI allI impI)
    fix j k assume "j < length (wl_gos ?w)" "k < length (wl_gos ?w)" "active (wl_gos ?w ! j)" "active (wl_gos ?w ! k)"
      "go_user (wl_gos ?w ! j) = go_user (wl_gos ?w ! k)"
    then show "j = k"
      using world_okD(1) [OF ok, of j k] others [of j] others [of k]
      by (auto simp: nth_append less_Suc_eq split: if_splits)
  next
    fix k assume k: "k < length (wl_gos ?w)"
    then show "own_row (go_env (wl_gos ?w ! k))"
      using own world_okD(2) [OF ok] by (auto simp: nth_append less_Suc_eq)
    assume "active (wl_gos ?w ! k)"
    then show "user_ok (go_user (wl_gos ?w ! k)) (go_pc (wl_gos ?w ! k)) (wl_bots w)"
      using k new world_okD(3) [OF ok, of k] by (auto simp: nth_append less_Suc_eq)
  next
    fix u assume "\<not> busy u ?w"
    then show "user_ok u (At_end None) (wl_bots w)" using stay world_okD(4) [OF ok] by blast
  qed
qed

lemma world_ok_run:
  assumes ok: "world_ok w"
  shows "world_ok (world_step (Ev_run k) w)"
proof (cases "k < length (wl_gos w) \<and> active (wl_gos w ! k)")
  case True
  define g where "g = wl_gos w ! k"
  obtain p s where step: "go_step (go_env g) (go_user g) (go_pc g, wl_bots w) = (p, s)" by fastforce
  define w' where "w' = w\<lparr>wl_bots := s, wl_gos := (wl_gos w)[k := g\<lparr>go_pc := p\<rparr>]\<rparr>"
  have w': "world_step (Ev_run k) w = w'" using True step by (simp add: g_def w'_def Let_def)
  have g: "own_row (go_env g)" "user_ok (go_user g) (go_pc g) (wl_bots w)" "active g"
    using True world_okD(2,3) [OF ok, of k] by (simp_all add: g_def)
  have mine: "user_ok (go_user g) p s" using go_step_ok [OF g(2,1)] step by simp
  have other: "undisturbed u (wl_bots w) s" if "u \<noteq> go_user g" for u
    using go_step_undisturbed [OF g(2) that, of "go_env g"] step by simp
  have gos: "wl_gos w' ! j = (if j = k then g\<lparr>go_pc := p\<rparr> else wl_gos w ! j)" "length (wl_gos w') = length (wl_gos w)"
    "wl_bots w' = s" for j
    using True by (simp_all add: w'_def nth_list_update)
  have apart: "go_user (wl_gos w ! j) \<noteq> go_user g" if "j < length (wl_gos w)" "active (wl_gos w ! j)" "j \<noteq> k" for j
    using world_okD(1) [OF ok, of j k] that True by (auto simp: g_def)
  have "world_ok w'"
    unfolding world_ok_def gos(2,3)
  proof (intro conjI allI impI)
    fix i j assume "i < length (wl_gos w)" "j < length (wl_gos w)" "active (wl_gos w' ! i)" "active (wl_gos w' ! j)"
      "go_user (wl_gos w' ! i) = go_user (wl_gos w' ! j)"
    then show "i = j" using world_okD(1) [OF ok, of i j] apart [of i] apart [of j] by (auto simp: gos split: if_splits)
  next
    fix j assume j: "j < length (wl_gos w)"
    then show "own_row (go_env (wl_gos w' ! j))" using world_okD(2) [OF ok] g(1) by (simp add: gos)
    assume "active (wl_gos w' ! j)"
    then show "user_ok (go_user (wl_gos w' ! j)) (go_pc (wl_gos w' ! j)) s"
      using mine undisturbed_ok [OF world_okD(3) [OF ok j] other] apart [OF j] by (cases "j = k") (auto simp: gos)
  next
    fix u assume idle: "\<not> busy u w'"
    show "user_ok u (At_end None) s"
    proof (cases "u = go_user g")
      case True
      have "go_user (wl_gos w' ! k) = u" "k < length (wl_gos w')"
        using True \<open>k < length (wl_gos w) \<and> _\<close> by (simp_all add: gos)
      then have "\<not> active (wl_gos w' ! k)" using idle unfolding busy_iff by blast
      then have "\<not> active (g\<lparr>go_pc := p\<rparr>)" by (simp add: gos)
      then show ?thesis using mine True user_ok_end by (auto simp: inactive_end)
    next
      case False
      have "\<not> busy u w" using idle False apart by (auto simp: busy_iff gos g_def) metis
      then show ?thesis using undisturbed_ok [OF world_okD(4) [OF ok] other [OF False]] by blast
    qed
  qed
  then show ?thesis by (simp only: w')
next
  case False
  have "world_step (Ev_run k) w = w"
  proof (cases "k < length (wl_gos w)")
    case True
    then obtain r where "go_pc (wl_gos w ! k) = At_end r" using False by (auto simp: inactive_end)
    then have same: "(wl_gos w ! k)\<lparr>go_pc := At_end r\<rparr> = wl_gos w ! k" by simp
    show ?thesis using \<open>go_pc _ = _\<close> by (simp add: Let_def same del: goroutine.surjective)
  qed simp
  then show ?thesis using ok by simp
qed

lemma world_ok_local:
  assumes ok: "world_ok w" and op: "local_op op"
  shows "world_ok (world_step (Ev_bot op) w)"
proof -
  have "busy u (w\<lparr>wl_bots := bots_step op (wl_bots w)\<rparr>) = busy u w" for u by (simp add: busy_def)
  then show ?thesis
    using ok undisturbed_ok [OF _ local_op_undisturbed [OF op]] unfolding world_ok_def by simp
qed

lemma world_ok_serial: "serial_run evs w \<Longrightarrow> world_ok w \<Longrightarrow> world_ok (world_run evs w)"
proof (induction evs arbitrary: w)
  case (Cons ev evs)
  then have "world_ok (world_step ev w)"
    using world_ok_request world_ok_run world_ok_local
    by (cases ev) (auto simp: event_ok_def in_turn_def busy_def simp del: world_step.simps)
  then show ?case using Cons by simp
qed simp

definition quiet_world :: "bots \<Rightarrow> world" where
  "quiet_world s = \<lparr>wl_bots = s, wl_gos = []\<rparr>"

lemma world_ok_quiet: "bots_inv s \<Longrightarrow> world_ok (quiet_world s)"
  by (auto simp: world_ok_def quiet_world_def user_ok_def bots_inv_def)

subsection \<open>Requests end, and what they never touch\<close>

lemma world_step_gos:
  "k < length (wl_gos w) \<Longrightarrow> k < length (wl_gos (world_step ev w)) \<and>
     steps_left (go_pc (wl_gos (world_step ev w) ! k)) \<le> steps_left (go_pc (wl_gos w ! k)) - (if ev = Ev_run k then 1 else 0)"
proof (cases ev)
  case (Ev_run j)
  assume k: "k < length (wl_gos w)"
  let ?g = "wl_gos w ! j"
  have "steps_left (fst (go_step (go_env ?g) (go_user ?g) (go_pc ?g, wl_bots w))) \<le> steps_left (go_pc ?g) - 1"
    using go_step_left [of "go_pc ?g" "go_env ?g" "go_user ?g" "wl_bots w"] by (cases "\<exists>r. go_pc ?g = At_end r") auto
  then show ?thesis
    using k Ev_run by (auto simp: Let_def nth_list_update split: prod.split)
qed (simp_all add: nth_append)

text \<open>The cell that a request is about to change.\<close>

fun target :: "pc \<Rightarrow> nat option" where
  "target (At_store v i) = Some i"
| "target (At_flag t i) = Some i"
| "target (At_mark t i) = Some i"
| "target (At_calls t i) = Some i"
| "target (At_cancel t i) = Some i"
| "target (At_disconnect t i) = Some i"
| "target (At_cancel_old u st i) = Some i"
| "target _ = None"

text \<open>A bot that no entry of the map and no request refers to.\<close>

definition astray :: "nat \<Rightarrow> world \<Rightarrow> bool" where
  "astray i w \<longleftrightarrow>
     i < length (bt_bots (wl_bots w)) \<and> (\<forall>u. lookup_bot u (wl_bots w) \<noteq> Some i) \<and>
     list_all (\<lambda>g. target (go_pc g) \<noteq> Some i) (wl_gos w)"

lemma target_after_stop [simp]: "target (after_stop uid t) = None"
  by (cases t) simp_all

lemma target_request [simp]: "target (request_pc rq) = None"
  by (cases rq) simp_all

lemma target_reads [simp]:
  "target (fst (step_start uid s)) = None" "target (fst (step_row e uid s)) = None" "target (fst (step_open e u s)) = None"
  "target (fst (step_restart e uid s)) = None" "target (fst (step_present uid u session s)) = None"
  "target (fst (step_rebuild e uid u session s)) = None" "target (fst (step_auth uid fresh s)) = None"
  "target (fst (step_settings e uid st s)) = None"
  "target (fst (step_stop uid t s)) = lookup_bot uid s" "target (fst (step_replace u st s)) = lookup_bot (wu_user u) s"
  "target (fst (step_flag uid t i s)) = (if bo_stopped (bt_bots s ! i) then None else Some i)"
  by (simp_all add: step_start_def step_row_def step_open_def step_stop_def step_flag_def step_restart_def step_present_def
      step_rebuild_def step_replace_def step_auth_def step_settings_def Let_def split: sum.split prod.split option.split)

text \<open>A step keeps a bot that nothing refers to.\<close>

definition keeps_astray :: "nat \<Rightarrow> bots \<Rightarrow> pc \<times> bots \<Rightarrow> bool" where
  "keeps_astray i s r \<longleftrightarrow>
     i < length (bt_bots (snd r)) \<and> bt_bots (snd r) ! i = bt_bots s ! i \<and> (\<forall>u. lookup_bot u (snd r) \<noteq> Some i)
     \<and> target (fst r) \<noteq> Some i"

lemma keeps_astray_read:
  assumes "i < length (bt_bots s)" "\<And>u. lookup_bot u s \<noteq> Some i" "same_bots s (snd r)" "target (fst r) \<noteq> Some i"
  shows "keeps_astray i s r"
  using assms by (simp add: keeps_astray_def same_bots_lookup) (simp add: same_bots_def)

lemma go_step_astray:
  assumes i: "i < length (bt_bots s)" "\<And>u. lookup_bot u s \<noteq> Some i" and t: "target p \<noteq> Some i"
  shows "keeps_astray i s (go_step e uid (p, s))"
proof (cases p)
  case (At_init v st a auto)
  then show ?thesis using i by (simp add: keeps_astray_def step_init_def case_prod_unfold nth_append)
qed (use i t in \<open>auto intro!: keeps_astray_read step_bots_same simp: keeps_astray_def [of _ _ "(_, store_bot _ _ _)"]
  keeps_astray_def [of _ _ "(_, delete_bot _ _)"] keeps_astray_def [of _ _ "(_, upd_bot _ _ _)"] keeps_astray_def [of _ _ "(_, bfx _ _)"]
  update_at_def split: if_splits\<close>)

lemma astray_step:
  assumes "astray i w" "\<nexists>op. ev = Ev_bot op"
  shows "astray i (world_step ev w) \<and> bt_bots (wl_bots (world_step ev w)) ! i = bt_bots (wl_bots w) ! i"
proof (cases ev)
  case (Ev_run k)
  show ?thesis
  proof (cases "k < length (wl_gos w)")
    case True
    let ?g = "wl_gos w ! k"
    have a: "i < length (bt_bots (wl_bots w))" "\<And>u. lookup_bot u (wl_bots w) \<noteq> Some i"
      "list_all (\<lambda>g. target (go_pc g) \<noteq> Some i) (wl_gos w)" "target (go_pc ?g) \<noteq> Some i"
      using assms(1) True by (auto simp: astray_def list_all_length)
    from go_step_astray [OF a(1,2,4), of "go_env ?g" "go_user ?g"] show ?thesis
      using True a(3) Ev_run
      by (auto simp: astray_def keeps_astray_def Let_def list_all_length nth_list_update split: prod.split)
  qed (use Ev_run assms(1) in simp)
qed (use assms in \<open>simp_all add: astray_def\<close>)

lemma astray_run:
  assumes "astray i w" "list_all (\<lambda>ev. \<nexists>op. ev = Ev_bot op) evs"
  shows "astray i (world_run evs w) \<and> bt_bots (wl_bots (world_run evs w)) ! i = bt_bots (wl_bots w) ! i"
  using assms
proof (induction evs arbitrary: w)
  case (Cons ev evs)
  then show ?case using astray_step [of i w ev] by simp
qed simp

lemma requests_end_aux:
  assumes "k < length (wl_gos w)"
  shows "k < length (wl_gos (world_run evs w)) \<and>
     steps_left (go_pc (wl_gos (world_run evs w) ! k)) \<le> steps_left (go_pc (wl_gos w ! k)) - length (filter (\<lambda>ev. ev = Ev_run k) evs)"
  using assms
proof (induction evs arbitrary: w)
  case (Cons ev evs)
  have step: "k < length (wl_gos (world_step ev w))"
    "steps_left (go_pc (wl_gos (world_step ev w) ! k)) \<le> steps_left (go_pc (wl_gos w ! k)) - (if ev = Ev_run k then 1 else 0)"
    using world_step_gos [OF Cons.prems] by blast+
  show ?case using Cons.IH [OF step(1)] step(2) by (cases "ev = Ev_run k"; simp del: world_step.simps; arith)
qed simp

subsection \<open>Properties\<close>

lemma user_ok_one_live:
  assumes ok: "user_ok u p s" and i: "i < length (bt_bots s)" "bo_user (bt_bots s ! i) = u" "\<not> bo_cancelled (bt_bots s ! i)"
    and j: "j < length (bt_bots s)" "bo_user (bt_bots s ! j) = u" "\<not> bo_cancelled (bt_bots s ! j)"
  shows "j = i"
proof -
  have h: "none_live u s" if "held p k" for k
    using that user_okD(1) [OF ok] by (auto simp: held_def split: pc.splits)
  show ?thesis
    using user_okD(4) [OF ok i] user_okD(4) [OF ok j] h i(3) j(3)
    by (auto simp: none_live_def held_def split: pc.splits)
qed


text \<open>C4: a request that runs alone, access by access, is the operation of \<open>Bots\<close>: after at most fourteen accesses
  it has ended with the operation's answer and left its state. So what is proved of the operations holds of the
  code between requests.\<close>

theorem request_alone:
  "14 \<le> n \<Longrightarrow> (go_step e uid ^^ n) (request_pc rq, s) = (case request_op e uid rq s of (r, s) \<Rightarrow> (At_end r, s))"
  using go_steps_alone [of "request_pc rq" n e uid s] request_left [of rq] go_alone_request by simp

theorem request_alone_witness:
  "(go_step example_bots_env 7 ^^ 14) (At_stop Then_return, no_bots) = (At_end (Some (Bot_not_found 7)), no_bots)"
  using request_alone [of 14 example_bots_env 7 Rq_stop no_bots]
  by (simp add: stop_user_bot_def no_bots_def lookup_bot_def del: funpow.simps)

text \<open>No request waits for another: whatever else runs in between, a request has ended when it has come to run
  fourteen times.\<close>

theorem requests_end:
  assumes "14 \<le> length (filter (\<lambda>ev. ev = Ev_run (length (wl_gos w))) evs)"
  shows "\<not> active (wl_gos (world_run (Ev_request e uid rq # evs) w) ! length (wl_gos w))"
proof -
  let ?w = "world_step (Ev_request e uid rq) w"
  have "steps_left (go_pc (wl_gos (world_run evs ?w) ! length (wl_gos w))) = 0"
    using requests_end_aux [of "length (wl_gos w)" ?w evs] request_left [of rq] assms by simp
  then show ?thesis using steps_left_0 by (simp add: inactive_end)
qed

lemma lookup_no_bots [simp]: "lookup_bot u no_bots = None"
  by (simp add: no_bots_def lookup_bot_def)

text \<open>The accesses of a start for a user whose row, subscription and session are in order.\<close>

definition startable :: "bots_env \<Rightarrow> u32 \<Rightarrow> wa_user \<Rightarrow> dev_store \<Rightarrow> bool" where
  "startable e uid u st \<longleftrightarrow>
     be_user e uid = Inr u \<and> wu_user u = uid \<and> wu_enabled u \<and> be_subscription e uid = Sub_ok \<and>
     \<not> be_encrypted e (wu_session u) \<and> parse_user_bot_container (be_parse e) (wu_session u) = Inr st"

abbreviation made :: "u32 \<Rightarrow> wa_user \<Rightarrow> dev_store \<Rightarrow> bots \<Rightarrow> bots" where
  "made uid u st s \<equiv> snd (initialize_bot uid st (create_assistant_model u) True s)"

lemma start_steps:
  assumes "startable e uid u st"
  shows "lookup_bot uid s = None \<Longrightarrow> go_step e uid (At_start, s) = (At_row, s)"
    "go_step e uid (At_row, s) = (At_open u, s)"
    "go_step e uid (At_open u, s) = (At_init uid st (create_assistant_model u) True, s)"
    "go_step e uid (At_init uid st (create_assistant_model u) True, s) = (At_store uid (length (bt_bots s)), made uid u st s)"
  using assms
  by (auto simp: startable_def step_start_def step_row_def step_open_def check_subscription_ok step_init_def case_prod_unfold
      open_session_def)

lemma example_startable: "\<exists>u st. startable example_bots_env uid u st"
proof -
  obtain u st where u: "wu_user u = uid" "can_start example_bots_env uid no_bots u st" using example_can_start by blast
  then show ?thesis by (auto simp: startable_def can_start_def example_bots_env_def open_session_def)
qed

text \<open>Two requests to start the bot of one user that both look before either registers: both report success, two
  bots are alive and connecting, and the first is in no entry of the map. No request of any user, made then or
  later and interleaved in any way, changes it: it answers the user's messages beside the other one until it fails
  by itself or the program ends.\<close>

theorem overlapping_starts:
  assumes free: "lookup_bot uid s = None" and can: "startable e uid u st"
    and astray: "\<And>v. lookup_bot v s \<noteq> Some (length (bt_bots s))"
    and w: "w = world_run [Ev_request e uid Rq_start, Ev_request e uid Rq_start, Ev_run 0, Ev_run 1,
      Ev_run 0, Ev_run 0, Ev_run 0, Ev_run 0, Ev_run 1, Ev_run 1, Ev_run 1, Ev_run 1] (quiet_world s)"
    and later: "list_all (\<lambda>ev. \<nexists>op. ev = Ev_bot op) evs"
  shows "map go_pc (wl_gos w) = [At_end None, At_end None]
    \<and> bt_bots (wl_bots w) = bt_bots s @ [fresh_bot uid st (create_assistant_model u), fresh_bot uid st (create_assistant_model u)]
    \<and> lookup_bot uid (wl_bots w) = Some (Suc (length (bt_bots s)))
    \<and> bt_bots (wl_bots (world_run evs w)) ! length (bt_bots s) = fresh_bot uid st (create_assistant_model u)
    \<and> (\<forall>v. lookup_bot v (wl_bots (world_run evs w)) \<noteq> Some (length (bt_bots s)))"
proof -
  define s1 where "s1 = store_bot uid (length (bt_bots s)) (made uid u st s)"
  define s2 where "s2 = store_bot uid (length (bt_bots s1)) (made uid u st s1)"
  have "w = \<lparr>wl_bots = s2, wl_gos = [\<lparr>go_env = e, go_user = uid, go_pc = At_end None\<rparr>, \<lparr>go_env = e, go_user = uid, go_pc = At_end None\<rparr>]\<rparr>"
    by (simp add: w quiet_world_def Let_def start_steps [OF can] free s1_def s2_def del: go_step.simps(1-4))
  moreover have "bt_bots s2 = bt_bots s @ [fresh_bot uid st (create_assistant_model u), fresh_bot uid st (create_assistant_model u)]"
    by (simp add: s2_def s1_def)
  moreover have "lookup_bot v s2 = (if v = uid then Some (Suc (length (bt_bots s))) else lookup_bot v s)" for v
    by (simp add: s2_def s1_def)
  moreover have "astray (length (bt_bots s)) w" using calculation astray by (simp add: astray_def)
  moreover note astray_run [OF this later]
  ultimately show ?thesis by (auto simp: astray_def nth_append)
qed

theorem overlapping_starts_witness:
  "\<exists>w b. map go_pc (wl_gos w) = [At_end None, At_end None] \<and> lookup_bot 7 (wl_bots w) = Some 1
     \<and> bt_bots (wl_bots (world_run [Ev_request example_bots_env 7 Rq_stop, Ev_run 2, Ev_run 2, Ev_run 2, Ev_run 2, Ev_run 2, Ev_run 2] w)) ! 0 = b
     \<and> \<not> bo_cancelled b"
proof -
  obtain u st where can: "startable example_bots_env 7 u st" using example_startable by blast
  define w where "w = world_run [Ev_request example_bots_env 7 Rq_start, Ev_request example_bots_env 7 Rq_start, Ev_run 0, Ev_run 1,
      Ev_run 0, Ev_run 0, Ev_run 0, Ev_run 0, Ev_run 1, Ev_run 1, Ev_run 1, Ev_run 1] (quiet_world no_bots)"
  let ?evs = "[Ev_request example_bots_env 7 Rq_stop, Ev_run 2, Ev_run 2, Ev_run 2, Ev_run 2, Ev_run 2, Ev_run 2]"
  have l: "length (bt_bots no_bots) = 0" by (simp add: no_bots_def)
  have "list_all (\<lambda>ev. \<nexists>op. ev = Ev_bot op) ?evs" by simp
  from overlapping_starts [OF lookup_no_bots can _ w_def this]
  have f: "map go_pc (wl_gos w) = [At_end None, At_end None]" "lookup_bot 7 (wl_bots w) = Some 1"
    "bt_bots (wl_bots (world_run ?evs w)) ! 0 = fresh_bot 7 st (create_assistant_model u)"
    unfolding l by (simp_all del: fold.simps world_step.simps)
  show ?thesis
  proof (intro exI conjI)
    show "\<not> bo_cancelled (fresh_bot 7 st (create_assistant_model u))" by simp
  qed (rule f)+
qed

text \<open>A start for one user with a stop for another in between.\<close>

definition example_events :: "world_event list" where
  "example_events =
     [Ev_request example_bots_env 7 Rq_start, Ev_request example_bots_env 8 Rq_stop, Ev_run 0, Ev_run 1,
      Ev_run 0, Ev_run 0, Ev_run 0, Ev_run 0]"

lemma example_serial:
  shows "serial_run example_events (quiet_world no_bots)"
    and "length (bt_bots (wl_bots (world_run example_events (quiet_world no_bots)))) = 1"
    and "bo_user (bt_bots (wl_bots (world_run example_events (quiet_world no_bots))) ! 0) = 7"
    and "\<not> bo_cancelled (bt_bots (wl_bots (world_run example_events (quiet_world no_bots))) ! 0)"
    and "\<not> busy 7 (world_run example_events (quiet_world no_bots))"
proof -
  obtain u st where can: "startable example_bots_env 7 u st" using example_startable by blast
  define s where "s = store_bot 7 (length (bt_bots no_bots)) (made 7 u st no_bots)"
  have w: "world_run example_events (quiet_world no_bots) = \<lparr>wl_bots = s, wl_gos =
      [\<lparr>go_env = example_bots_env, go_user = 7, go_pc = At_end None\<rparr>,
       \<lparr>go_env = example_bots_env, go_user = 8, go_pc = At_end (Some (Bot_not_found 8))\<rparr>]\<rparr>"
    by (simp add: example_events_def quiet_world_def start_steps [OF can] step_stop_def Let_def s_def del: go_step.simps(1-4))
  show "serial_run example_events (quiet_world no_bots)"
    by (simp add: example_events_def quiet_world_def event_ok_def in_turn_def example_own_row)
  show "length (bt_bots (wl_bots (world_run example_events (quiet_world no_bots)))) = 1"
    and "bo_user (bt_bots (wl_bots (world_run example_events (quiet_world no_bots))) ! 0) = 7"
    and "\<not> bo_cancelled (bt_bots (wl_bots (world_run example_events (quiet_world no_bots))) ! 0)"
    unfolding w by (simp_all add: s_def no_bots_def)
  show "\<not> busy 7 (world_run example_events (quiet_world no_bots))"
    unfolding w by (simp add: busy_def active_def)
qed


theorem requests_end_witness:
  "\<not> active (wl_gos (world_run (Ev_request example_bots_env 7 Rq_restart # replicate 14 (Ev_run 0)) (quiet_world no_bots)) ! 0)"
proof -
  have l: "length (wl_gos (quiet_world no_bots)) = 0" by (simp add: quiet_world_def)
  have "14 \<le> length (filter (\<lambda>ev. ev = Ev_run 0) (replicate 14 (Ev_run 0)))" by (subst filter_replicate) simp
  from requests_end [of "quiet_world no_bots" "replicate 14 (Ev_run 0)", unfolded l, OF this]
  show ?thesis by this
qed

end
