(* ===== verification/Bot_Stop.thy ===== *)
theory Bot_Stop
  imports Bot_Registry Shutdown "HOL-Library.Multiset"
begin

section \<open>Stopping the bots at the end of the program (StopBot in whatsapp.go, StopUserBot in bot_lifecycle.go)\<close>

text \<open>
  \<open>StopBot\<close> starts one goroutine that ranges over the map and starts a goroutine for each bot; when all of these
  have ended it closes \<open>done\<close> and then saves the contexts of the dialogs. \<open>StopBot\<close> itself returns when
  \<open>done\<close> is closed or after five seconds. \<open>stop_step\<close> is one step of one of these goroutines: \<open>sp_visited\<close>
  are the keys that \<open>Range\<close> has visited, \<open>sp_running\<close> the bots whose goroutine has not ended, and
  \<open>sp_returned\<close> how \<open>StopBot\<close> has returned. A goroutine may take any time, as \<open>stopCalls\<close> waits for others.
\<close>

datatype stop_return = Stop_done | Stop_timeout

record stopping =
  sp_bots :: bots
  sp_visited :: "u32 list"
  sp_ranged :: bool
  sp_running :: "nat list"
  sp_done :: bool
  sp_saved :: bool
  sp_timer :: bool
  sp_returned :: "stop_return option"

definition stop_begin :: "bots \<Rightarrow> stopping" where
  "stop_begin s = \<lparr>sp_bots = s, sp_visited = [], sp_ranged = False, sp_running = [], sp_done = False, sp_saved = False,
     sp_timer = False, sp_returned = None\<rparr>"

inductive stop_step :: "stopping \<Rightarrow> stopping \<Rightarrow> bool" where
  visit: "\<not> sp_ranged p \<Longrightarrow> lookup_bot u (sp_bots p) = Some i \<Longrightarrow> u \<notin> set (sp_visited p) \<Longrightarrow>
    stop_step p (p\<lparr>sp_visited := sp_visited p @ [u], sp_running := i # sp_running p\<rparr>)"
| ranged: "\<not> sp_ranged p \<Longrightarrow> \<forall>(u, i) \<in> set (bt_map (sp_bots p)). u \<in> set (sp_visited p) \<Longrightarrow>
    stop_step p (p\<lparr>sp_ranged := True\<rparr>)"
| stop_one: "i \<in> set (sp_running p) \<Longrightarrow>
    stop_step p (p\<lparr>sp_bots := stop_bot i (sp_bots p), sp_running := remove1 i (sp_running p)\<rparr>)"
| all_stopped: "sp_ranged p \<Longrightarrow> sp_running p = [] \<Longrightarrow> \<not> sp_done p \<Longrightarrow> stop_step p (p\<lparr>sp_done := True\<rparr>)"
| save: "sp_done p \<Longrightarrow> \<not> sp_saved p \<Longrightarrow> stop_step p (p\<lparr>sp_saved := True\<rparr>)"
| timer: "\<not> sp_timer p \<Longrightarrow> stop_step p (p\<lparr>sp_timer := True\<rparr>)"
| return_done: "sp_done p \<Longrightarrow> sp_returned p = None \<Longrightarrow> stop_step p (p\<lparr>sp_returned := Some Stop_done\<rparr>)"
| return_timeout: "sp_timer p \<Longrightarrow> sp_returned p = None \<Longrightarrow> stop_step p (p\<lparr>sp_returned := Some Stop_timeout\<rparr>)"

inductive_cases stop_step_cases: "stop_step p q"

subsection \<open>The bots while they are being stopped\<close>

lemma stop_bot_simps [simp]:
  "bt_map (stop_bot i s) = bt_map s" "lookup_bot u (stop_bot i s) = lookup_bot u s"
  "length (bt_bots (stop_bot i s)) = length (bt_bots s)"
  by (simp_all add: stop_bot_def)

lemma stop_all_bots_simps [simp]:
  "bt_map (stop_all_bots is s) = bt_map s" "lookup_bot u (stop_all_bots is s) = lookup_bot u s"
  "length (bt_bots (stop_all_bots is s)) = length (bt_bots s)"
  unfolding stop_all_bots_def by (induction "is" arbitrary: s) simp_all

text \<open>What a bot is after \<open>StopUserBot\<close>: one that had stopped before is left as it was.\<close>

definition stopped_bot :: "bot \<Rightarrow> bot" where
  "stopped_bot b = (if bo_stopped b then b else b\<lparr>bo_stopped := True, bo_cancelled := True, bo_disconnected := True\<rparr>)"

lemma stopped_bot_idem [simp]: "stopped_bot (stopped_bot b) = stopped_bot b" "bo_stopped (stopped_bot b)"
  "bo_user (stopped_bot b) = bo_user b"
  by (simp_all add: stopped_bot_def)

lemma stop_bot_nth: "i < length (bt_bots s) \<Longrightarrow> bt_bots (stop_bot i s) ! j = (if j = i then stopped_bot (bt_bots s ! j) else bt_bots s ! j)"
  by (simp add: stop_bot_def stopped_bot_def nth_update_at)

lemma stop_all_nth:
  "\<forall>i \<in> set is. i < length (bt_bots s) \<Longrightarrow>
     bt_bots (stop_all_bots is s) ! j = (if j \<in> set is then stopped_bot (bt_bots s ! j) else bt_bots s ! j)"
  unfolding stop_all_bots_def by (induction "is" arbitrary: s) (auto simp: stop_bot_nth)

lemma stop_all_Cons_snoc: "stop_all_bots (is @ [i]) s = stop_bot i (stop_all_bots is s)"
  by (simp add: stop_all_bots_def)

text \<open>The calls of a bot are ended once: the flag is set by compare-and-swap.\<close>

lemma stop_all_fx:
  assumes "distinct is" "\<forall>i \<in> set is. i < length (bt_bots s)"
  shows "bt_fx (stop_all_bots is s) =
    bt_fx s @ map (\<lambda>i. Bx_stop_calls (bo_user (bt_bots s ! i)) ''bot_stopped'') (filter (\<lambda>i. \<not> bo_stopped (bt_bots s ! i)) is)"
  using assms
proof (induction "is" rule: rev_induct)
  case (snoc i "is")
  then have "bt_bots (stop_all_bots is s) ! i = bt_bots s ! i" by (simp add: stop_all_nth)
  then show ?case using snoc by (simp add: stop_all_Cons_snoc) (simp add: stop_bot_def)
qed (simp add: stop_all_bots_def)

subsection \<open>The invariant of \<open>StopBot\<close>\<close>

definition cell_of :: "bots \<Rightarrow> u32 \<Rightarrow> nat" where
  "cell_of s u = the (lookup_bot u s)"

definition stop_inv :: "bots \<Rightarrow> stopping \<Rightarrow> nat list \<Rightarrow> bool" where
  "stop_inv s p ended \<longleftrightarrow>
     sp_bots p = stop_all_bots ended s \<and>
     mset (map (cell_of s) (sp_visited p)) = mset (sp_running p) + mset ended \<and>
     distinct (sp_visited p) \<and> (\<forall>u \<in> set (sp_visited p). lookup_bot u s \<noteq> None) \<and>
     (sp_ranged p \<longrightarrow> {u. lookup_bot u s \<noteq> None} \<subseteq> set (sp_visited p)) \<and>
     (sp_done p \<longrightarrow> sp_ranged p \<and> sp_running p = []) \<and> (sp_saved p \<longrightarrow> sp_done p) \<and>
     (sp_returned p = Some Stop_done \<longrightarrow> sp_done p) \<and> (sp_returned p = Some Stop_timeout \<longrightarrow> sp_timer p)"

lemma stop_inv_begin: "stop_inv s (stop_begin s) []"
  by (simp add: stop_inv_def stop_begin_def stop_all_bots_def)

lemma lookup_in_map: "lookup_bot u s \<noteq> None \<longleftrightarrow> (\<exists>i. (u, i) \<in> set (bt_map s))"
  by (metis lookup_bot_def map_of_SomeD not_None_eq weak_map_of_SomeI)

lemma stop_inv_step:
  assumes step: "stop_step p q" and inv: "stop_inv s p ended"
  shows "\<exists>ended'. stop_inv s q ended'"
  using step
proof (cases rule: stop_step.cases)
  case (visit u i)
  then have "lookup_bot u s = Some i" using inv by (simp add: stop_inv_def)
  then show ?thesis
    using visit inv by (intro exI [of _ ended]) (auto simp: stop_inv_def cell_of_def)
next
  case ranged
  have "u \<in> set (sp_visited p)" if "lookup_bot u s \<noteq> None" for u
    using ranged(3) that lookup_in_map [of u s] inv by (auto simp: stop_inv_def)
  then show ?thesis using ranged inv by (intro exI [of _ ended]) (auto simp: stop_inv_def)
next
  case (stop_one i)
  then show ?thesis
    using inv by (intro exI [of _ "ended @ [i]"]) (auto simp: stop_inv_def stop_all_Cons_snoc)
qed (rule exI [of _ ended], use inv in \<open>simp add: stop_inv_def\<close>)+

lemma stop_inv_reach: "stop_step\<^sup>*\<^sup>* (stop_begin s) p \<Longrightarrow> \<exists>ended. stop_inv s p ended"
  by (induction rule: rtranclp_induct) (use stop_inv_begin stop_inv_step in blast)+

text \<open>Different users have different cells, so no bot is stopped twice.\<close>

lemma ended_cells:
  assumes inv: "bots_inv s" and p: "stop_inv s p ended"
  shows "distinct ended" "\<forall>i \<in> set ended. i < length (bt_bots s)"
    "sp_running p = [] \<Longrightarrow> set ended = cell_of s ` set (sp_visited p)"
proof -
  have "inj_on (cell_of s) (set (sp_visited p))"
  proof (rule inj_onI)
    fix u v assume "u \<in> set (sp_visited p)" "v \<in> set (sp_visited p)" "cell_of s u = cell_of s v"
    moreover obtain i j where "lookup_bot u s = Some i" "lookup_bot v s = Some j"
      using p calculation(1,2) unfolding stop_inv_def by blast
    ultimately show "u = v" using bots_invD(2) [OF inv, of u i] bots_invD(2) [OF inv, of v j] by (auto simp: cell_of_def)
  qed
  then have "distinct (map (cell_of s) (sp_visited p))" using p by (simp add: stop_inv_def distinct_map)
  moreover have m: "mset (map (cell_of s) (sp_visited p)) = mset (sp_running p @ ended)" using p by (simp add: stop_inv_def)
  ultimately have "distinct (sp_running p @ ended)" using mset_eq_imp_distinct_iff by blast
  then show "distinct ended" by simp
  have set: "set (sp_running p @ ended) = cell_of s ` set (sp_visited p)" using mset_eq_setD [OF m] by simp
  then show "sp_running p = [] \<Longrightarrow> set ended = cell_of s ` set (sp_visited p)" by simp
  show "\<forall>i \<in> set ended. i < length (bt_bots s)"
  proof
    fix i assume "i \<in> set ended"
    then obtain u where "u \<in> set (sp_visited p)" "i = cell_of s u" using set by auto
    then show "i < length (bt_bots s)" using p bots_invD(1) [OF inv, of u] by (auto simp: stop_inv_def cell_of_def)
  qed
qed

lemma all_stopped_cells:
  assumes "bots_inv s" "stop_inv s p ended" "sp_done p" "lookup_bot u s = Some i"
  shows "bt_bots (sp_bots p) ! i = stopped_bot (bt_bots s ! i)"
proof -
  note cells = ended_cells [OF assms(1,2)]
  have "u \<in> set (sp_visited p)" "sp_running p = []" "sp_bots p = stop_all_bots ended s"
    using assms by (auto simp: stop_inv_def)
  then have "i \<in> set ended" using cells(3) assms(4) by (force simp: cell_of_def)
  then show ?thesis using cells(2) \<open>sp_bots p = _\<close> by (simp add: stop_all_nth)
qed

text \<open>C6: \<open>StopBot\<close> returns by \<open>done\<close> only when every registered bot has stopped, its context cancelled and its
  client disconnected unless it had stopped before; it returns otherwise only after its five seconds. Whatever the
  order in which the goroutines run, each bot's calls are ended at most once, no entry of the map is removed, and
  bots that are not registered are left alone. The contexts are saved after the last bot has stopped.\<close>

theorem stop_bot_correct:
  assumes "bots_inv s" "stop_step\<^sup>*\<^sup>* (stop_begin s) p"
  shows "(sp_returned p = Some Stop_done \<or> sp_saved p \<longrightarrow>
        (\<forall>u i. lookup_bot u s = Some i \<longrightarrow> bt_bots (sp_bots p) ! i = stopped_bot (bt_bots s ! i)))
    \<and> (sp_returned p = Some Stop_timeout \<longrightarrow> sp_timer p)
    \<and> (\<forall>i. bt_bots (sp_bots p) ! i \<in> {bt_bots s ! i, stopped_bot (bt_bots s ! i)})
    \<and> (\<forall>i. (\<forall>u. lookup_bot u s \<noteq> Some i) \<longrightarrow> bt_bots (sp_bots p) ! i = bt_bots s ! i)
    \<and> bt_map (sp_bots p) = bt_map s
    \<and> (\<exists>is. distinct is \<and> bt_fx (sp_bots p) = bt_fx s @ map (\<lambda>i. Bx_stop_calls (bo_user (bt_bots s ! i)) ''bot_stopped'') is)"
proof -
  obtain ended where p: "stop_inv s p ended" using stop_inv_reach [OF assms(2)] by blast
  note cells = ended_cells [OF assms(1) p]
  have bots: "sp_bots p = stop_all_bots ended s" using p by (simp add: stop_inv_def)
  note all = all_stopped_cells [OF assms(1) p]
  have visited: "\<exists>u. lookup_bot u s = Some i" if "i \<in> set ended" for i
  proof -
    have "mset (map (cell_of s) (sp_visited p)) = mset (sp_running p @ ended)" using p by (simp add: stop_inv_def)
    then have "i \<in> cell_of s ` set (sp_visited p)" using that mset_eq_setD by fastforce
    then show ?thesis using p by (force simp: stop_inv_def cell_of_def)
  qed
  have nth: "bt_bots (sp_bots p) ! i = (if i \<in> set ended then stopped_bot (bt_bots s ! i) else bt_bots s ! i)" for i
    using cells(2) by (simp add: bots stop_all_nth)
  have fx: "\<exists>is. distinct is \<and> bt_fx (sp_bots p) = bt_fx s @ map (\<lambda>i. Bx_stop_calls (bo_user (bt_bots s ! i)) ''bot_stopped'') is"
    using stop_all_fx [OF cells(1,2)] distinct_filter [OF cells(1)] bots by metis
  have "sp_returned p = Some Stop_done \<or> sp_saved p \<longrightarrow> sp_done p" "sp_returned p = Some Stop_timeout \<longrightarrow> sp_timer p"
    using p by (auto simp: stop_inv_def)
  moreover have "bt_bots (sp_bots p) ! i = bt_bots s ! i" if "\<forall>u. lookup_bot u s \<noteq> Some i" for i
    using visited [of i] that by (auto simp: nth)
  moreover have "bt_bots (sp_bots p) ! i \<in> {bt_bots s ! i, stopped_bot (bt_bots s ! i)}" for i by (simp add: nth)
  moreover have "bt_map (sp_bots p) = bt_map s" by (simp add: bots)
  ultimately show ?thesis using all fx by blast
qed

subsection \<open>\<open>StopBot\<close> returns\<close>

definition registered :: "bots \<Rightarrow> u32 set" where
  "registered s = {u. lookup_bot u s \<noteq> None}"

lemma finite_registered [simp]: "finite (registered s)"
proof -
  have "registered s = dom (map_of (bt_map s))" by (auto simp: registered_def lookup_bot_def)
  then show ?thesis by (simp add: finite_dom_map_of)
qed

definition stop_work :: "bots \<Rightarrow> stopping \<Rightarrow> nat" where
  "stop_work s p =
     2 * card (registered s - set (sp_visited p)) + length (sp_running p) + (if sp_ranged p then 0 else 1)
     + (if sp_done p then 0 else 1) + (if sp_saved p then 0 else 1) + (if sp_timer p then 0 else 1)
     + (if sp_returned p = None then 1 else 0)"

lemma stop_work_step:
  assumes "stop_step p q" and inv: "stop_inv s p ended"
  shows "stop_work s q < stop_work s p"
  using assms(1)
proof (cases rule: stop_step.cases)
  case (visit u i)
  then have u: "u \<in> registered s - set (sp_visited p)" using inv by (simp add: stop_inv_def registered_def)
  then have "registered s - insert u (set (sp_visited p)) = (registered s - set (sp_visited p)) - {u}" by blast
  then have "Suc (card (registered s - insert u (set (sp_visited p)))) = card (registered s - set (sp_visited p))"
    using card_Suc_Diff1 [OF _ u] by simp
  then show ?thesis using visit by (simp add: stop_work_def)
next
  case (stop_one i)
  then have "length (remove1 i (sp_running p)) < length (sp_running p)"
    using length_pos_if_in_set [of i "sp_running p"] by (simp add: length_remove1)
  then show ?thesis using stop_one by (simp add: stop_work_def)
qed (simp_all add: stop_work_def)

lemma stop_run_bounded:
  "(stop_step ^^ n) (stop_begin s) p \<Longrightarrow> n + stop_work s p \<le> stop_work s (stop_begin s)"
proof (induction n arbitrary: p)
  case (Suc n)
  then obtain q where q: "(stop_step ^^ n) (stop_begin s) q" "stop_step q p" by auto
  obtain ended where "stop_inv s q ended" using stop_inv_reach relpowp_imp_rtranclp q(1) by metis
  then show ?case using Suc.IH [OF q(1)] stop_work_step [OF q(2)] by fastforce
qed simp

text \<open>Until all bots have stopped there is a step that does not save or return.\<close>

lemma stop_progress:
  assumes inv: "stop_inv s p ended" and "\<not> sp_done p"
  shows "\<exists>q. stop_step p q \<and> sp_saved q = sp_saved p \<and> sp_returned q = sp_returned p \<and> sp_timer q = sp_timer p"
proof (cases "sp_running p")
  case Nil
  show ?thesis
  proof (cases "sp_ranged p")
    case True
    then show ?thesis using all_stopped [OF True Nil assms(2)] by (intro exI [of _ "p\<lparr>sp_done := True\<rparr>"]) simp
  next
    case False
    show ?thesis
    proof (cases "\<forall>(u, i) \<in> set (bt_map (sp_bots p)). u \<in> set (sp_visited p)")
      case True
      show ?thesis using ranged [OF False True] by (intro exI [of _ "p\<lparr>sp_ranged := True\<rparr>"]) simp
    next
      case unseen: False
      then obtain u where u: "u \<notin> set (sp_visited p)" "lookup_bot u (sp_bots p) \<noteq> None"
        using lookup_in_map [of _ "sp_bots p"] by blast
      then obtain i where "lookup_bot u (sp_bots p) = Some i" by blast
      from visit [OF False this u(1)] show ?thesis
        by (intro exI [of _ "p\<lparr>sp_visited := sp_visited p @ [u], sp_running := i # sp_running p\<rparr>"]) simp
    qed
  qed
next
  case (Cons i rest)
  then have "i \<in> set (sp_running p)" by simp
  from stop_one [OF this] show ?thesis
    by (intro exI [of _ "p\<lparr>sp_bots := stop_bot i (sp_bots p), sp_running := remove1 i (sp_running p)\<rparr>"]) simp
qed

lemma stop_reaches_done:
  assumes "stop_inv s p ended" "\<not> sp_saved p" "sp_returned p = None" "\<not> sp_timer p"
  shows "\<exists>q. stop_step\<^sup>*\<^sup>* p q \<and> sp_done q \<and> \<not> sp_saved q \<and> sp_returned q = None \<and> \<not> sp_timer q"
  using assms
proof (induction "stop_work s p" arbitrary: p ended rule: less_induct)
  case less
  show ?case
  proof (cases "sp_done p")
    case False
    obtain q where next_step: "stop_step p q" "sp_saved q = sp_saved p" "sp_returned q = sp_returned p" "sp_timer q = sp_timer p"
      using stop_progress [OF less.prems(1) False] by (elim exE conjE)
    then have q: "stop_step p q" "\<not> sp_saved q" "sp_returned q = None" "\<not> sp_timer q" using less.prems(2-4) by simp_all
    obtain ended' where "stop_inv s q ended'" using stop_inv_step [OF q(1) less.prems(1)] by blast
    have "\<exists>r. stop_step\<^sup>*\<^sup>* q r \<and> sp_done r \<and> \<not> sp_saved r \<and> sp_returned r = None \<and> \<not> sp_timer r"
      by (rule less.hyps [OF stop_work_step [OF q(1) less.prems(1)] \<open>stop_inv s q ended'\<close> q(2-4)])
    then obtain r where r: "stop_step\<^sup>*\<^sup>* q r" "sp_done r" "\<not> sp_saved r" "sp_returned r = None" "\<not> sp_timer r"
      by (elim exE conjE)
    have "stop_step\<^sup>*\<^sup>* p r" by (rule converse_rtranclp_into_rtranclp [of stop_step, OF q(1) r(1)])
    with r(2-) show ?thesis by (intro exI [of _ r] conjI)
  qed (use less.prems in blast)
qed

text \<open>C30: \<open>StopBot\<close> ends: with n registered bots a run has at most 2n + 5 steps, a run that can go no further has
  returned and saved the contexts, and at any moment the return needs the timer only, however long a bot takes.\<close>

theorem stop_bot_ends:
  assumes "(stop_step ^^ n) (stop_begin s) p"
  shows "n \<le> 2 * card (registered s) + 5
    \<and> ((\<nexists>q. stop_step p q) \<longrightarrow> sp_returned p \<noteq> None \<and> sp_saved p)
    \<and> (sp_returned p = None \<longrightarrow> (\<exists>q. stop_step\<^sup>*\<^sup>* p q \<and> sp_returned q = Some Stop_timeout \<and> sp_bots q = sp_bots p))"
proof -
  obtain ended where inv: "stop_inv s p ended" using stop_inv_reach relpowp_imp_rtranclp assms by metis
  have "n \<le> 2 * card (registered s) + 5"
    using stop_run_bounded [OF assms] by (simp add: stop_work_def stop_begin_def)
  moreover have "sp_returned p \<noteq> None \<and> sp_saved p" if stuck: "\<nexists>q. stop_step p q"
  proof -
    have "sp_done p" using stop_progress [OF inv] stuck by blast
    then show ?thesis using stuck return_done [of p] save [of p] by blast
  qed
  moreover have "\<exists>q. stop_step\<^sup>*\<^sup>* p q \<and> sp_returned q = Some Stop_timeout \<and> sp_bots q = sp_bots p" if r: "sp_returned p = None"
  proof -
    define p' where "p' = p\<lparr>sp_timer := True\<rparr>"
    have "stop_step\<^sup>*\<^sup>* p p'"
    proof (cases "sp_timer p")
      case True
      then have "p' = p" by (cases p) (simp add: p'_def)
      then show ?thesis by simp
    next
      case False
      then show ?thesis using Bot_Stop.timer [of p] by (auto simp: p'_def)
    qed
    moreover have "stop_step p' (p'\<lparr>sp_returned := Some Stop_timeout\<rparr>)" by (rule return_timeout) (simp_all add: p'_def r)
    ultimately show ?thesis by (intro exI [of _ "p'\<lparr>sp_returned := Some Stop_timeout\<rparr>"]) (auto simp: p'_def)
  qed
  ultimately show ?thesis by blast
qed

subsection \<open>\<open>StopBot\<close> within the end of the program\<close>

text \<open>
  The steps of \<open>Shutdown\<close> with \<open>StopBot\<close> in the place of its step \<open>bots\<close>: it begins with the signal, and the modules
  are added when it has returned. Once \<open>main\<close> has returned no goroutine goes on.
\<close>

record ending =
  en_app :: app_state
  en_stop :: stopping

inductive end_step :: "ending \<Rightarrow> ending \<Rightarrow> bool" where
  other: "\<not> ap_exit (en_app e) \<Longrightarrow> app_step (en_app e) a \<Longrightarrow> ap_bots_stopped a = ap_bots_stopped (en_app e) \<Longrightarrow>
    end_step e (e\<lparr>en_app := a\<rparr>)"
| stopping: "\<not> ap_exit (en_app e) \<Longrightarrow> ap_cancelled (en_app e) \<Longrightarrow> stop_step (en_stop e) p \<Longrightarrow>
    end_step e (e\<lparr>en_stop := p\<rparr>)"
| stop_returned: "\<not> ap_exit (en_app e) \<Longrightarrow> \<not> ap_bots_stopped (en_app e) \<Longrightarrow> sp_returned (en_stop e) \<noteq> None \<Longrightarrow>
    end_step e (e\<lparr>en_app := (en_app e)\<lparr>ap_bots_stopped := True, ap_pending := ap_pending (en_app e) + 4\<rparr>\<rparr>)"

definition end_begin :: "bots \<Rightarrow> ending" where
  "end_begin s = \<lparr>en_app = app_start, en_stop = stop_begin s\<rparr>"

lemma stop_saved_mono: "stop_step\<^sup>*\<^sup>* p q \<Longrightarrow> sp_returned p \<noteq> None \<Longrightarrow> sp_returned q = sp_returned p"
proof (induction rule: rtranclp_induct)
  case (step q r)
  from step.hyps(2) step.IH step.prems show ?case by (cases rule: stop_step.cases) auto
qed simp

lemma end_refines:
  assumes "end_step\<^sup>*\<^sup>* (end_begin s) e"
  shows "reachable (en_app e) \<and> stop_step\<^sup>*\<^sup>* (stop_begin s) (en_stop e)
    \<and> (sp_returned (en_stop e) \<noteq> None \<longrightarrow> ap_cancelled (en_app e))
    \<and> (ap_bots_stopped (en_app e) \<longrightarrow> sp_returned (en_stop e) \<noteq> None)"
  using assms
proof (induction rule: rtranclp_induct)
  case base
  show ?case by (simp add: end_begin_def app_start_def stop_begin_def)
next
  case (step e f)
  then have IH: "reachable (en_app e)" "stop_step\<^sup>*\<^sup>* (stop_begin s) (en_stop e)"
    "sp_returned (en_stop e) \<noteq> None \<longrightarrow> ap_cancelled (en_app e)"
    "ap_bots_stopped (en_app e) \<longrightarrow> sp_returned (en_stop e) \<noteq> None" by blast+
  from step.hyps(2) show ?case
  proof (cases rule: end_step.cases)
    case (other a)
    then have "reachable a" using IH(1) by simp
    moreover have "ap_cancelled (en_app e) \<Longrightarrow> ap_cancelled a"
      using other(3) by (auto elim!: app_step_cases simp: close_done_ch_def)
    ultimately show ?thesis using other IH by simp
  next
    case (stopping p)
    then have "sp_returned (en_stop e) \<noteq> None \<Longrightarrow> sp_returned p \<noteq> None"
      using stop_saved_mono [OF r_into_rtranclp [of stop_step]] by metis
    then show ?thesis using stopping IH by (auto intro: rtranclp.rtrancl_into_rtrancl)
  next
    case stop_returned
    then have "app_step (en_app e) ((en_app e)\<lparr>ap_bots_stopped := True, ap_pending := ap_pending (en_app e) + 4\<rparr>)"
      using IH(3) by (intro Shutdown.bots) simp_all
    then show ?thesis using stop_returned IH by (auto intro: rtranclp.rtrancl_into_rtrancl)
  qed
qed

text \<open>C29: with \<open>StopBot\<close> in all its steps the end of the program is still a run of the machine of \<open>Shutdown\<close>, and
  the database is closed only when every registered bot has been stopped, or \<open>StopBot\<close> has given up after its five
  seconds, or the emergency timer has fired.\<close>

theorem end_order:
  assumes "bots_inv s" "end_step\<^sup>*\<^sup>* (end_begin s) e"
  shows "reachable (en_app e)
    \<and> (ap_db_closed (en_app e) \<longrightarrow> ap_timer (en_app e) \<or> sp_timer (en_stop e) \<or>
        (\<forall>u i. lookup_bot u s = Some i \<longrightarrow> bt_bots (sp_bots (en_stop e)) ! i = stopped_bot (bt_bots s ! i)))"
proof -
  have r: "reachable (en_app e)" "stop_step\<^sup>*\<^sup>* (stop_begin s) (en_stop e)"
    "ap_bots_stopped (en_app e) \<longrightarrow> sp_returned (en_stop e) \<noteq> None"
    using end_refines [OF assms(2)] by blast+
  obtain ended where inv: "stop_inv s (en_stop e) ended" using stop_inv_reach [OF r(2)] by blast
  have "sp_returned (en_stop e) = Some Stop_done \<or> sp_timer (en_stop e)"
    if "ap_db_closed (en_app e)" "\<not> ap_timer (en_app e)"
  proof -
    have "ap_bots_stopped (en_app e)" using app_inv_reachable [OF r(1)] that by (auto simp: app_inv_def)
    then obtain how where "sp_returned (en_stop e) = Some how" using r(3) by blast
    then show ?thesis using inv by (cases how) (simp_all add: stop_inv_def)
  qed
  moreover have "sp_returned (en_stop e) = Some Stop_done \<Longrightarrow> sp_done (en_stop e)" using inv by (simp add: stop_inv_def)
  ultimately show ?thesis using r(1) all_stopped_cells [OF assms(1) inv] by blast
qed

text \<open>The contexts of the dialogs need not be saved: \<open>done\<close> is closed before \<open>SaveAllContextDuringExit\<close> is called, and
  nothing waits for that call. Whatever bots there are, the program can stop them all in time, end every module and
  leave without any timer having fired and without having saved.\<close>

lemma exit_without_saving:
  shows "\<exists>e. end_step\<^sup>*\<^sup>* (end_begin s) e \<and> ap_exit (en_app e) \<and> sp_returned (en_stop e) = Some Stop_done
    \<and> \<not> sp_timer (en_stop e) \<and> \<not> ap_timer (en_app e) \<and> ap_pending (en_app e) = 0 \<and> \<not> sp_saved (en_stop e)"
proof -
  note step = rtranclp.rtrancl_into_rtrancl [of end_step]
  define a1 where "a1 = app_start\<lparr>ap_cancelled := True\<rparr>"
  have 1: "end_step\<^sup>*\<^sup>* (end_begin s) \<lparr>en_app = a1, en_stop = stop_begin s\<rparr>"
    using other [of "end_begin s" a1] signal [of app_start] by (auto simp: end_begin_def a1_def app_start_def)
  have live: "\<not> ap_exit a1" "ap_cancelled a1" by (simp_all add: a1_def app_start_def)
  have run: "end_step\<^sup>*\<^sup>* \<lparr>en_app = a1, en_stop = p\<rparr> \<lparr>en_app = a1, en_stop = q\<rparr>" if "stop_step\<^sup>*\<^sup>* p q" for p q
    using that
  proof (induction rule: rtranclp_induct)
    case (step q r)
    then show ?case using stopping [of "\<lparr>en_app = a1, en_stop = q\<rparr>" r] live by (auto intro: rtranclp.rtrancl_into_rtrancl)
  qed simp
  obtain p where p: "stop_step\<^sup>*\<^sup>* (stop_begin s) p" "sp_done p" "\<not> sp_saved p" "sp_returned p = None" "\<not> sp_timer p"
    using stop_reaches_done [OF stop_inv_begin [of s]] by (auto simp: stop_begin_def)
  define q where "q = p\<lparr>sp_returned := Some Stop_done\<rparr>"
  have "stop_step\<^sup>*\<^sup>* (stop_begin s) q" using p(1) return_done [OF p(2,4)] by (auto simp: q_def)
  then have 2: "end_step\<^sup>*\<^sup>* (end_begin s) \<lparr>en_app = a1, en_stop = q\<rparr>"
    using rtranclp_trans [OF 1 run] by blast
  define pend where "pend n = a1\<lparr>ap_bots_stopped := True, ap_pending := n\<rparr>" for n
  have 3: "end_step \<lparr>en_app = a1, en_stop = q\<rparr> \<lparr>en_app = pend 5, en_stop = q\<rparr>"
    using stop_returned [of "\<lparr>en_app = a1, en_stop = q\<rparr>"] by (simp add: live pend_def q_def a1_def app_start_def)
  have producers: "end_step\<^sup>*\<^sup>* \<lparr>en_app = pend n, en_stop = q\<rparr> \<lparr>en_app = pend 0, en_stop = q\<rparr>" for n
  proof (induction n)
    case (Suc n)
    have "app_step (pend (Suc n)) (pend n)" using producer [of "pend (Suc n)" n] by (simp add: pend_def)
    then have "end_step \<lparr>en_app = pend (Suc n), en_stop = q\<rparr> \<lparr>en_app = pend n, en_stop = q\<rparr>"
      using other [of "\<lparr>en_app = pend (Suc n), en_stop = q\<rparr>" "pend n"] by (simp add: pend_def live)
    then show ?case using Suc by (rule converse_rtranclp_into_rtranclp)
  qed simp
  define d c x where "d = close_done_ch (pend 0\<lparr>ap_drained := True\<rparr>)" and "c = d\<lparr>ap_db_closed := True\<rparr>" and "x = c\<lparr>ap_exit := True\<rparr>"
  have at: "d = pend 0\<lparr>ap_drained := True, ap_done := True, ap_closes := 1\<rparr>"
    by (simp add: d_def close_done_ch_def pend_def a1_def app_start_def)
  have app: "app_step (pend 0) d" "app_step d c" "app_step c x"
    using drain [of "pend 0"] close_db [of d] leave [of c]
    by (simp_all add: c_def x_def flip: d_def, simp_all add: at pend_def a1_def app_start_def)
  have final: "end_step \<lparr>en_app = pend 0, en_stop = q\<rparr> \<lparr>en_app = d, en_stop = q\<rparr>"
    "end_step \<lparr>en_app = d, en_stop = q\<rparr> \<lparr>en_app = c, en_stop = q\<rparr>"
    "end_step \<lparr>en_app = c, en_stop = q\<rparr> \<lparr>en_app = x, en_stop = q\<rparr>"
    using other [of "\<lparr>en_app = pend 0, en_stop = q\<rparr>" d] other [of "\<lparr>en_app = d, en_stop = q\<rparr>" c]
      other [of "\<lparr>en_app = c, en_stop = q\<rparr>" x] app
    by (simp_all add: at c_def x_def pend_def a1_def app_start_def)
  have "end_step\<^sup>*\<^sup>* (end_begin s) \<lparr>en_app = x, en_stop = q\<rparr>"
    by (rule step [OF step [OF step [OF rtranclp_trans [OF step [OF 2 3] producers] final(1)] final(2)] final(3)])
  then show ?thesis
    by (intro exI [of _ "\<lparr>en_app = x, en_stop = q\<rparr>"]) (use p in \<open>simp add: x_def c_def at q_def pend_def a1_def app_start_def\<close>)
qed

subsection \<open>Concrete instances\<close>

text \<open>One registered bot.\<close>

definition one_bot :: "dev_store \<Rightarrow> bots" where
  "one_bot st = no_bots\<lparr>bt_bots := [fresh_bot 7 st (auth_assistant 7)], bt_map := [(7, 0)]\<rparr>"

lemma one_bot_simps:
  "bots_inv (one_bot st)" "lookup_bot u (one_bot st) = (if u = 7 then Some 0 else None)"
  "bt_bots (one_bot st) = [fresh_bot 7 st (auth_assistant 7)]" "registered (one_bot st) = {7}"
  by (auto simp: one_bot_def bots_inv_def lookup_bot_def registered_def split: if_splits)

lemma one_bot_done: "\<exists>p. stop_step\<^sup>*\<^sup>* (stop_begin (one_bot st)) p \<and> sp_returned p = Some Stop_done"
proof -
  obtain p where p: "stop_step\<^sup>*\<^sup>* (stop_begin (one_bot st)) p" "sp_done p" "sp_returned p = None"
    using stop_reaches_done [OF stop_inv_begin [of "one_bot st"]] by (auto simp: stop_begin_def)
  then show ?thesis
    using return_done [OF p(2,3)] by (intro exI [of _ "p\<lparr>sp_returned := Some Stop_done\<rparr>"]) auto
qed

theorem stop_bot_correct_witness:
  "\<exists>s p. lookup_bot 7 s = Some 0 \<and> \<not> bo_cancelled (bt_bots s ! 0) \<and> stop_step\<^sup>*\<^sup>* (stop_begin s) p
     \<and> sp_returned p = Some Stop_done \<and> bo_cancelled (bt_bots (sp_bots p) ! 0)"
proof -
  let ?s = "one_bot undefined"
  obtain p where p: "stop_step\<^sup>*\<^sup>* (stop_begin ?s) p" "sp_returned p = Some Stop_done" using one_bot_done by blast
  have "bt_bots (sp_bots p) ! 0 = stopped_bot (fresh_bot 7 undefined (auth_assistant 7))"
    using stop_bot_correct [OF one_bot_simps(1) p(1)] p(2) by (simp add: one_bot_simps)
  then have "bo_cancelled (bt_bots (sp_bots p) ! 0)" by (simp add: stopped_bot_def)
  then show ?thesis using p by (intro exI [of _ ?s] exI [of _ p]) (simp add: one_bot_simps)
qed

theorem stop_bot_ends_witness:
  "\<exists>n p. (stop_step ^^ n) (stop_begin (one_bot undefined)) p \<and> n \<le> 7 \<and> sp_returned p = Some Stop_done"
proof -
  obtain p where p: "stop_step\<^sup>*\<^sup>* (stop_begin (one_bot undefined)) p" "sp_returned p = Some Stop_done" using one_bot_done by blast
  obtain n where n: "(stop_step ^^ n) (stop_begin (one_bot undefined)) p" using rtranclp_imp_relpowp [OF p(1)] by blast
  then show ?thesis using stop_bot_ends [OF n] p(2) by (intro exI [of _ n] exI [of _ p]) (simp add: one_bot_simps)
qed

text \<open>A whole end of the program.\<close>

lemma one_bot_end:
  "\<exists>e. end_step\<^sup>*\<^sup>* (end_begin (one_bot st)) e \<and> ap_db_closed (en_app e) \<and> \<not> ap_timer (en_app e) \<and> \<not> sp_timer (en_stop e)"
proof -
  obtain e where e: "end_step\<^sup>*\<^sup>* (end_begin (one_bot st)) e" "ap_exit (en_app e)" "\<not> sp_timer (en_stop e)" "\<not> ap_timer (en_app e)"
    using exit_without_saving [of "one_bot st"] by blast
  then have "ap_db_closed (en_app e)" using end_refines [OF e(1)] app_inv_reachable by (auto simp: app_inv_def)
  then show ?thesis using e by blast
qed

theorem end_order_witness:
  "\<exists>e. end_step\<^sup>*\<^sup>* (end_begin (one_bot undefined)) e \<and> ap_db_closed (en_app e)
     \<and> bo_cancelled (bt_bots (sp_bots (en_stop e)) ! 0)"
proof -
  obtain e where e: "end_step\<^sup>*\<^sup>* (end_begin (one_bot undefined)) e" "ap_db_closed (en_app e)" "\<not> ap_timer (en_app e)"
    "\<not> sp_timer (en_stop e)" using one_bot_end by blast
  have "bt_bots (sp_bots (en_stop e)) ! 0 = stopped_bot (fresh_bot 7 undefined (auth_assistant 7))"
    using end_order [OF one_bot_simps(1) e(1)] e(2-4) by (simp add: one_bot_simps)
  then show ?thesis using e by (auto simp: stopped_bot_def)
qed

end
