(* ===== verification/Bot_Tables.thy ===== *)
theory Bot_Tables
  imports Bot_Registry
begin

section \<open>The tables behind the bots (repository/mysql/repository.go)\<close>

text \<open>
  The two SELECTs of the repository over the rows of their five tables, with SQL's joins, and what \<open>Scan\<close> makes of
  a row. A list of rows stands for a table; the order of a result, which SQL leaves open, is that of the channels.
  A join condition on a NULL is not met. Integers of the database are \<open>int\<close>, as the driver hands them over.
\<close>

record user_model =
  um_user :: u32
  um_model :: "int option"
  um_provider :: "int option"
  um_active :: "int option"

record gpt =
  gp_key :: int
  gp_name :: "string option"
  gp_assistant :: "string option"
  gp_data :: driver_value

record notify_row =
  nf_user :: u32
  nf_start :: "int option"
  nf_end :: "int option"
  nf_target :: "int option"

record tables =
  tb_channels :: channels
  tb_users :: "u32 list"
  tb_models :: "user_model list"
  tb_gpts :: "gpt list"
  tb_notify :: "notify_row list"

record sql_row =
  sq_user :: u32
  sq_whats :: "string option"
  sq_enabled :: bool
  sq_name :: "string option"
  sq_assistant :: "string option"
  sq_data :: driver_value
  sq_provider :: "int option"
  sq_start :: "int option"
  sq_end :: "int option"
  sq_target :: "int option"

subsection \<open>The queries\<close>

definition left_join :: "('a \<Rightarrow> 'b \<Rightarrow> bool) \<Rightarrow> 'a list \<Rightarrow> 'b list \<Rightarrow> ('a \<times> 'b option) list" where
  "left_join on xs ys =
     concat (map (\<lambda>x. case filter (on x) ys of [] \<Rightarrow> [(x, None)] | ms \<Rightarrow> map (\<lambda>y. (x, Some y)) ms) xs)"

definition inner_join :: "('a \<Rightarrow> 'b \<Rightarrow> bool) \<Rightarrow> 'a list \<Rightarrow> 'b list \<Rightarrow> ('a \<times> 'b) list" where
  "inner_join on xs ys = concat (map (\<lambda>x. map (Pair x) (filter (on x) ys)) xs)"

text \<open>The columns that both queries select.\<close>

definition select_columns :: "u32 \<times> string option \<times> bool \<Rightarrow> user_model option \<Rightarrow> gpt option \<Rightarrow> notify_row option \<Rightarrow> sql_row" where
  "select_columns c m g n =
     \<lparr>sq_user = fst c, sq_whats = fst (snd c), sq_enabled = snd (snd c),
      sq_name = Option.bind g gp_name, sq_assistant = Option.bind g gp_assistant,
      sq_data = (case g of Some g \<Rightarrow> gp_data g | None \<Rightarrow> Db_null), sq_provider = Option.bind m um_provider,
      sq_start = Option.bind n nf_start, sq_end = Option.bind n nf_end, sq_target = Option.bind n nf_target\<rparr>"

text \<open>
  The three outer joins. \<open>key\<close> is the column that the queries join on, \<open>c.UserId\<close> in one and \<open>u.Id\<close> in the other,
  and \<open>chan\<close> the row of \<open>channels\<close>.
\<close>

definition active_model :: "u32 \<Rightarrow> user_model \<Rightarrow> bool" where
  "active_model uid m \<longleftrightarrow> uid = um_user m \<and> um_active m = Some 1"

definition model_gpt :: "user_model option \<Rightarrow> gpt \<Rightarrow> bool" where
  "model_gpt m g \<longleftrightarrow> Option.bind m um_model = Some (gp_key g)"

definition join_details :: "('c \<Rightarrow> u32) \<Rightarrow> ('c \<Rightarrow> u32 \<times> string option \<times> bool) \<Rightarrow> tables \<Rightarrow> 'c list \<Rightarrow> sql_row list" where
  "join_details key chan t cs =
     map (\<lambda>(((c, m), g), n). select_columns (chan c) m g n)
       (left_join (\<lambda>((c, _), _) n. key c = nf_user n)
         (left_join (\<lambda>(_, m). model_gpt m)
           (left_join (\<lambda>c. active_model (key c)) cs (tb_models t))
           (tb_gpts t))
         (tb_notify t))"

definition select_bot_users :: "tables \<Rightarrow> sql_row list" where
  "select_bot_users t =
     filter (\<lambda>r. sq_whats r \<noteq> None \<and> sq_enabled r) (join_details fst (\<lambda>c. c) t (tb_channels t))"

definition select_bot_user :: "u32 \<Rightarrow> tables \<Rightarrow> sql_row list" where
  "select_bot_user uid t =
     filter (\<lambda>r. sq_user r = uid \<and> sq_whats r \<noteq> None)
       (join_details snd fst t (inner_join (\<lambda>c u. fst c = u) (tb_channels t) (tb_users t)))"

subsection \<open>Reading a row (Scan)\<close>

text \<open>What \<open>database/sql\<close> makes of a number for \<open>NullByte\<close> and \<open>NullBool\<close>. The error is the column's name.\<close>

definition scan_null_byte :: "string \<Rightarrow> int option \<Rightarrow> string + byte option" where
  "scan_null_byte col v =
     (case v of None \<Rightarrow> Inr None | Some n \<Rightarrow> if 0 \<le> n \<and> n \<le> 255 then Inr (Some (of_int n)) else Inl col)"

definition scan_null_bool :: "string \<Rightarrow> int option \<Rightarrow> string + bool option" where
  "scan_null_bool col v =
     (case v of None \<Rightarrow> Inr None | Some n \<Rightarrow> if n = 0 then Inr (Some False) else if n = 1 then Inr (Some True) else Inl col)"

definition scan_columns :: "sql_row \<Rightarrow> string + wa_row" where
  "scan_columns r =
     (case sq_whats r of None \<Rightarrow> Inl ''Whats'' | Some session \<Rightarrow>
     (case null_bytes_scan (sq_data r) of Inl _ \<Rightarrow> Inl ''Data'' | Inr data \<Rightarrow>
     (case scan_null_byte ''Provider'' (sq_provider r) of Inl c \<Rightarrow> Inl c | Inr provider \<Rightarrow>
     (case scan_null_bool ''Start'' (sq_start r) of Inl c \<Rightarrow> Inl c | Inr start \<Rightarrow>
     (case scan_null_bool ''End'' (sq_end r) of Inl c \<Rightarrow> Inl c | Inr stop \<Rightarrow>
     (case scan_null_bool ''Target'' (sq_target r) of Inl c \<Rightarrow> Inl c | Inr goal \<Rightarrow>
        Inr \<lparr>rw_user = sq_user r, rw_session = session, rw_enabled = sq_enabled r, rw_name = sq_name r,
          rw_assistant = sq_assistant r, rw_data = data, rw_provider = provider, rw_start = start, rw_end = stop,
          rw_target = goal\<rparr>))))))"

text \<open>\<open>GetWaUserBotUsers\<close> and \<open>GetWaUser\<close> on the tables; \<open>QueryRow\<close> reads the first row of its result.\<close>

definition bot_users_of :: "(byte list \<Rightarrow> string + model_data) \<Rightarrow> byte \<Rightarrow> tables \<Rightarrow> read_error + wa_user list" where
  "bot_users_of unpack open_ai t =
     get_wa_user_bot_users unpack open_ai (Inr (map scan_columns (select_bot_users t), None))"

definition bot_user_of :: "(byte list \<Rightarrow> string + model_data) \<Rightarrow> byte \<Rightarrow> tables \<Rightarrow> u32 \<Rightarrow> read_error + wa_user" where
  "bot_user_of unpack open_ai t uid =
     get_wa_user unpack open_ai uid
       (case select_bot_user uid t of
          [] \<Rightarrow> Inr None
        | r # _ \<Rightarrow> (case scan_columns r of Inl c \<Rightarrow> Inl (Db_error c) | Inr w \<Rightarrow> Inr (Some w)))"

subsection \<open>The rows of a channel\<close>

text \<open>
  Nothing is assumed of the keys of the tables: a channel may be joined to several models, assistants and
  notifications, and so have several rows. They depend on this channel only.
\<close>

definition rows_of :: "tables \<Rightarrow> u32 \<times> string option \<times> bool \<Rightarrow> sql_row list" where
  "rows_of t c = join_details fst (\<lambda>c. c) t [c]"

lemma left_join_simps [simp]: "left_join on [] ys = []" "left_join on (xs @ xs') ys = left_join on xs ys @ left_join on xs' ys"
  by (simp_all add: left_join_def)

lemma left_join_map: "left_join on (map f xs) ys = map (\<lambda>(x, y). (f x, y)) (left_join (\<lambda>x. on (f x)) xs ys)"
  by (induction xs) (simp_all add: left_join_def comp_def split: list.split)

lemma left_join_from: "(x, y) \<in> set (left_join on xs ys) \<Longrightarrow> x \<in> set xs"
  by (auto simp: left_join_def neq_Nil_conv split: list.splits)

lemma left_join_Nil [simp]: "left_join on xs ys = [] \<longleftrightarrow> xs = []"
  by (cases xs) (auto simp: left_join_def split: list.split)

lemma join_details_rows: "join_details fst (\<lambda>c. c) t cs = concat (map (rows_of t) cs)"
proof (induction cs)
  case (Cons c cs)
  have "join_details fst (\<lambda>c. c) t ([c] @ cs) = rows_of t c @ join_details fst (\<lambda>c. c) t cs"
    unfolding join_details_def rows_of_def left_join_simps map_append by (rule refl)
  then show ?case using Cons.IH by simp
qed (simp add: join_details_def)

lemma join_details_map: "join_details snd fst t (map (\<lambda>c. (c, fst c)) cs) = join_details fst (\<lambda>c. c) t cs"
  by (simp add: join_details_def left_join_map comp_def split_def)

lemma rows_of_channel:
  "r \<in> set (rows_of t c) \<Longrightarrow> sq_user r = fst c \<and> sq_whats r = fst (snd c) \<and> sq_enabled r = snd (snd c)"
  by (auto simp: rows_of_def join_details_def select_columns_def dest!: left_join_from)

lemma rows_of_some: "rows_of t c \<noteq> []"
  by (simp add: rows_of_def join_details_def)

lemma rows_of_channels [simp]: "rows_of (t\<lparr>tb_channels := ch\<rparr>) c = rows_of t c"
  by (simp add: rows_of_def join_details_def)

lemma inner_join_users:
  "inner_join (\<lambda>c u. fst c = u) cs us = map (\<lambda>c. (c, fst c)) (concat (map (\<lambda>c. replicate (count_list us (fst c)) c) cs))"
proof -
  have "map (Pair c) (filter (\<lambda>u. fst c = u) us) = replicate (count_list us (fst c)) (c, fst c)" for c :: "'a \<times> 'b"
    by (induction us) auto
  then show ?thesis by (simp add: inner_join_def map_concat comp_def)
qed

text \<open>The queries, channel by channel. The query for one user repeats the rows of its channel for each row of \<open>users\<close>.\<close>

definition listed :: "u32 \<times> string option \<times> bool \<Rightarrow> bool" where
  "listed c \<longleftrightarrow> fst (snd c) \<noteq> None \<and> snd (snd c)"

lemma filter_concat_all:
  assumes "\<And>x y. x \<in> set xs \<Longrightarrow> y \<in> set (f x) \<Longrightarrow> P y = Q x"
  shows "filter P (concat (map f xs)) = concat (map f (filter Q xs))"
  using assms
proof (induction xs)
  case (Cons x xs)
  then have "filter P (f x) = (if Q x then f x else [])"
    by (metis (full_types) filter_False filter_True list.set_intros(1))
  then show ?case using Cons by simp
qed simp

lemma select_bot_users_rows: "select_bot_users t = concat (map (rows_of t) (filter listed (tb_channels t)))"
  unfolding select_bot_users_def join_details_rows
  by (rule filter_concat_all) (auto simp: listed_def dest: rows_of_channel)

lemma select_bot_user_rows: "select_bot_user uid t =
  concat (map (rows_of t) (filter (\<lambda>c. fst c = uid \<and> fst (snd c) \<noteq> None)
    (concat (map (\<lambda>c. replicate (count_list (tb_users t) (fst c)) c) (tb_channels t)))))"
  unfolding select_bot_user_def inner_join_users join_details_map join_details_rows
  by (rule filter_concat_all) (auto dest: rows_of_channel)

lemma select_bot_user_set:
  "set (select_bot_user uid t) = {r. uid \<in> set (tb_users t) \<and>
     (\<exists>c \<in> set (tb_channels t). r \<in> set (rows_of t c) \<and> fst c = uid \<and> fst (snd c) \<noteq> None)}"
  unfolding select_bot_user_rows
  by (auto simp: count_list_0_iff)

lemma select_bot_users_set:
  "set (select_bot_users t) = {r. \<exists>c \<in> set (tb_channels t). r \<in> set (rows_of t c) \<and> listed c}"
  unfolding select_bot_users_rows by auto

lemma scan_columns_user [simp]:
  "scan_columns r = Inr w \<Longrightarrow> rw_user w = sq_user r \<and> rw_enabled w = sq_enabled r \<and> Some (rw_session w) = sq_whats r"
  by (auto simp: scan_columns_def split: option.splits sum.splits)

lemma scan_rows_read [simp]:
  "scan_rows unpack open_ai (map Inr ws) = Inr (map (\<lambda>w. fill_wa_user_fields unpack open_ai w (blank_user w)) ws)"
  by (induction ws) (simp_all add: scan_wa_user_def)

lemma scan_rows_Inl [simp]: "Inl c \<in> set rows \<Longrightarrow> \<exists>c. scan_rows unpack open_ai rows = Inl (Scan_failed c)"
  by (induction rows) (auto simp: scan_wa_user_def split: sum.split)

lemma scan_rows_Inr:
  assumes "scan_rows unpack open_ai rows = Inr us"
  obtains ws where "rows = map Inr ws" "us = map (\<lambda>w. fill_wa_user_fields unpack open_ai w (blank_user w)) ws"
proof -
  have "\<forall>row \<in> set rows. \<exists>w. row = Inr w"
    using assms scan_rows_Inl [of _ rows unpack open_ai] by (metis Inr_not_Inl old.sum.exhaust)
  then obtain ws where "rows = map Inr ws" by (metis ex_map_conv)
  with that assms show thesis by auto
qed

lemma own_row_tables: "own_row (e\<lparr>be_user := bot_user_of unpack open_ai t\<rparr>)"
proof -
  have "sq_user r = uid" if "select_bot_user uid t = r # rs" for uid r rs
    using that by (auto simp: select_bot_user_def filter_eq_Cons_iff)
  then show ?thesis
    by (auto simp: own_row_def bot_user_of_def get_wa_user_def blank_user_def split: sum.splits option.splits list.splits)
qed

subsection \<open>Properties\<close>

abbreviation record_of :: "(byte list \<Rightarrow> string + model_data) \<Rightarrow> byte \<Rightarrow> wa_row \<Rightarrow> wa_user" where
  "record_of unpack open_ai w \<equiv> fill_wa_user_fields unpack open_ai w (blank_user w)"

text \<open>The records that are read for the list, and for one user.\<close>

lemma bot_users_of_Inr:
  "(\<exists>us. bot_users_of unpack open_ai t = Inr us) \<longleftrightarrow> (\<forall>r \<in> set (select_bot_users t). \<exists>w. scan_columns r = Inr w)"
proof
  assume "\<exists>us. bot_users_of unpack open_ai t = Inr us"
  then obtain us where "scan_rows unpack open_ai (map scan_columns (select_bot_users t)) = Inr us"
    by (auto simp: bot_users_of_def get_wa_user_bot_users_def split: sum.splits)
  then obtain ws where "map scan_columns (select_bot_users t) = map Inr ws" by (rule scan_rows_Inr)
  then have "scan_columns ` set (select_bot_users t) = Inr ` set ws" by (metis set_map)
  then show "\<forall>r \<in> set (select_bot_users t). \<exists>w. scan_columns r = Inr w" by blast
next
  assume "\<forall>r \<in> set (select_bot_users t). \<exists>w. scan_columns r = Inr w"
  then have "\<forall>y \<in> set (map scan_columns (select_bot_users t)). \<exists>w. y = Inr w" by auto
  then obtain ws where "map scan_columns (select_bot_users t) = map Inr ws" unfolding ex_map_conv [symmetric] by blast
  then show "\<exists>us. bot_users_of unpack open_ai t = Inr us" by (simp add: bot_users_of_def get_wa_user_bot_users_def)
qed

lemma bot_users_of_set:
  assumes "bot_users_of unpack open_ai t = Inr us"
  shows "set us = {record_of unpack open_ai w | w r. r \<in> set (select_bot_users t) \<and> scan_columns r = Inr w}"
proof -
  have "scan_rows unpack open_ai (map scan_columns (select_bot_users t)) = Inr us"
    using assms by (auto simp: bot_users_of_def get_wa_user_bot_users_def split: sum.splits)
  then obtain ws where ws: "map scan_columns (select_bot_users t) = map Inr ws" "us = map (record_of unpack open_ai) ws"
    by (rule scan_rows_Inr)
  have "scan_columns ` set (select_bot_users t) = Inr ` set ws" using ws(1) by (metis set_map)
  then have "w \<in> set ws \<longleftrightarrow> (\<exists>r \<in> set (select_bot_users t). scan_columns r = Inr w)" for w
    by (metis (no_types, lifting) image_iff sum.inject(2))
  then show ?thesis unfolding ws(2) set_map by blast
qed

lemma bot_user_of_Inr:
  assumes "bot_user_of unpack open_ai t uid = Inr u"
  obtains r w where "r \<in> set (select_bot_user uid t)" "scan_columns r = Inr w" "u = record_of unpack open_ai w"
    "wu_user u = uid" "wu_enabled u = sq_enabled r" "Some (wu_session u) = sq_whats r"
proof -
  obtain r rs w where r: "select_bot_user uid t = r # rs" "scan_columns r = Inr w" "u = record_of unpack open_ai w"
    using assms by (auto simp: bot_user_of_def get_wa_user_def split: list.splits sum.splits)
  then have "r \<in> set (select_bot_user uid t)" by simp
  then have "sq_user r = uid" unfolding select_bot_user_set by (auto dest: rows_of_channel)
  then show thesis using that [of r w] r scan_columns_user [OF r(2)] by (simp add: blank_user_def)
qed

lemma enabled_rows:
  assumes "r \<in> set (select_bot_user uid t)"
  shows "sq_enabled r \<longleftrightarrow> r \<in> set (select_bot_users t)"
  using assms unfolding select_bot_user_set select_bot_users_set
  by (auto simp: listed_def dest: rows_of_channel)

lemma bot_user_of_listed:
  assumes us: "bot_users_of unpack open_ai t = Inr us" and uid: "uid \<in> wu_user ` set us"
    and on: "\<forall>c \<in> set (tb_channels t). fst c = uid \<longrightarrow> snd (snd c)"
  shows "bot_user_of unpack open_ai t uid \<in>
    (if uid \<in> set (tb_users t) then Inr ` {u \<in> set us. wu_user u = uid} else {Inl (User_not_found uid)})"
proof (cases "uid \<in> set (tb_users t)")
  case True
  obtain r w where "r \<in> set (select_bot_users t)" "scan_columns r = Inr w" "sq_user r = uid"
    using uid unfolding bot_users_of_set [OF us] by (auto simp: blank_user_def)
  then have "r \<in> set (select_bot_user uid t)"
    using True unfolding select_bot_users_set select_bot_user_set
    by (simp add: listed_def) (metis option.discI option.exhaust rows_of_channel)
  then obtain q qs where q: "select_bot_user uid t = q # qs" by (cases "select_bot_user uid t") auto
  then have "q \<in> set (select_bot_user uid t)" by simp
  moreover from this have "sq_enabled q" "sq_user q = uid"
    using on unfolding select_bot_user_set by (auto dest: rows_of_channel)
  ultimately have sel: "q \<in> set (select_bot_users t)" using enabled_rows by blast
  then obtain v where v: "scan_columns q = Inr v" using bot_users_of_Inr us by blast
  then have "bot_user_of unpack open_ai t uid = Inr (record_of unpack open_ai v)"
    by (simp add: bot_user_of_def get_wa_user_def q)
  moreover have "record_of unpack open_ai v \<in> set us" using sel v unfolding bot_users_of_set [OF us] by blast
  moreover have "wu_user (record_of unpack open_ai v) = uid"
    using scan_columns_user [OF v] \<open>sq_user q = uid\<close> by (simp add: blank_user_def)
  ultimately show ?thesis using True by auto
next
  case False
  then have "set (select_bot_user uid t) = {}" unfolding select_bot_user_set by simp
  then show ?thesis using False by (simp add: bot_user_of_def get_wa_user_def)
qed


text \<open>What \<open>UpdateWhatsBotData\<close> leaves in the table, where it succeeds.\<close>

lemma update_whats_bot_data_ok:
  assumes "update_whats_bot_data d uid mk session b ch = (None, ch')"
  obtains stored where "(if mk \<noteq> zero_key then tx_encrypt d mk session else Inr session) = Inr stored"
    "ch' = AList.update uid (Some stored, b) ch" "uid \<in> fst ` set ch"
  using assms that
  by (auto simp: update_whats_bot_data_def map_of_eq_None_iff split: option.splits sum.splits if_split_asm)

lemma map_fst_update: "u \<in> fst ` set xs \<Longrightarrow> map fst (AList.update u v xs) = map fst xs"
  by (induction xs) auto

lemma update_rows:
  assumes "distinct (map fst cs)" "c \<in> set (AList.update uid v cs)" "fst c \<noteq> uid \<or> c \<noteq> (uid, v)"
  shows "fst c \<noteq> uid \<and> c \<in> set cs"
proof -
  have "distinct (map fst (AList.update uid v cs))" using assms(1) by (rule distinct_update)
  then have "map_of (AList.update uid v cs) (fst c) = Some (snd c)" using assms(2) by simp
  then show ?thesis using assms by (auto simp: update_conv' split: if_splits dest: map_of_SomeD)
qed

lemma filter_update_other:
  "v \<noteq> uid \<Longrightarrow> uid \<in> fst ` set cs \<Longrightarrow> filter (\<lambda>c. fst c = v \<and> P c) (concat (map (\<lambda>c. replicate (n (fst c)) c) (AList.update uid x cs)))
     = filter (\<lambda>c. fst c = v \<and> P c) (concat (map (\<lambda>c. replicate (n (fst c)) c) cs))"
  by (induction cs) auto

lemma bot_user_of_other:
  assumes "uid \<in> fst ` set (tb_channels t)" "v \<noteq> uid"
  shows "bot_user_of unpack open_ai (t\<lparr>tb_channels := AList.update uid x (tb_channels t)\<rparr>) v = bot_user_of unpack open_ai t v"
proof -
  have "rows_of (t\<lparr>tb_channels := ch\<rparr>) = rows_of t" for ch by (simp add: fun_eq_iff)
  then show ?thesis
    using filter_update_other [OF assms(2,1), of "\<lambda>c. fst (snd c) \<noteq> None" "count_list (tb_users t)" x]
    by (simp only: bot_user_of_def select_bot_user_rows) simp
qed

text \<open>C19: a session that \<open>UpdateWhatsBotData\<close> has stored for a user is the session that starting the user's bot opens. Stored
  under a key it is encrypted, and opens as long as the key service, asked or remembered, still gives that key; with
  the key of zeros, which stands for no key, it is stored as it is and opens whatever the key service does. The
  channel is enabled as was asked, and what is read for every other user is as before. A user has one row of
  \<open>channels\<close>; the cipher takes back what it gave, and does not take a plain session for an encrypted one.\<close>

theorem stored_session_opens:
  assumes "distinct (map fst (tb_channels t))" "update_whats_bot_data d uid mk session b (tb_channels t) = (None, ch)"
    and "\<And>stored. mk \<noteq> zero_key \<Longrightarrow> tx_encrypt d mk session = Inr stored \<Longrightarrow>
      be_encrypted e stored \<and> be_decrypt e mk stored = Inr session"
    and "mk \<noteq> zero_key \<Longrightarrow> be_rpc e = Some (Inr mk) \<and> cached_key (be_now e) uid (bt_keys s) \<in> {None, Some mk}"
    and "mk = zero_key \<Longrightarrow> \<not> be_encrypted e session"
    and "bot_user_of unpack open_ai (t\<lparr>tb_channels := ch\<rparr>) uid = Inr u"
  shows "wu_user u = uid \<and> wu_enabled u = b \<and> fst (open_session e uid (wu_session u) s) = Inr session
    \<and> (\<forall>v. v \<noteq> uid \<longrightarrow> bot_user_of unpack open_ai (t\<lparr>tb_channels := ch\<rparr>) v = bot_user_of unpack open_ai t v)"
proof -
  obtain stored where st: "(if mk \<noteq> zero_key then tx_encrypt d mk session else Inr session) = Inr stored"
    and ch: "ch = AList.update uid (Some stored, b) (tb_channels t)" and uid: "uid \<in> fst ` set (tb_channels t)"
    using update_whats_bot_data_ok [OF assms(2)] .
  obtain r where r: "r \<in> set (select_bot_user uid (t\<lparr>tb_channels := ch\<rparr>))" "wu_user u = uid" "wu_enabled u = sq_enabled r"
    "Some (wu_session u) = sq_whats r"
    using assms(6) by (rule bot_user_of_Inr)
  then obtain c where c: "c \<in> set ch" "r \<in> set (rows_of t c)" "fst c = uid"
    unfolding select_bot_user_set by auto
  then have "c = (uid, Some stored, b)" using update_rows [OF assms(1)] unfolding ch by blast
  then have row: "wu_user u = uid" "wu_enabled u = b" "wu_session u = stored"
    using r(2-4) rows_of_channel [OF c(2)] by simp_all
  have "fst (open_session e uid stored s) = Inr session"
  proof (cases "mk = zero_key")
    case True
    then show ?thesis using st assms(5) by (simp add: open_session_def)
  next
    case False
    then have "tx_encrypt d mk session = Inr stored" using st by simp
    from assms(3) [OF False this] show ?thesis
      using assms(4) [OF False] by (auto simp: open_session_def decrypt_session_data_def get_master_key_def split: prod.split)
  qed
  then show ?thesis using row bot_user_of_other [OF uid] by (simp add: ch)
qed

text \<open>A channel whose user is not in \<open>users\<close> is on the list that the program starts with, but no later query finds it:
  its bot is started with the program and can never be restarted.\<close>

lemma channel_without_user:
  assumes "(uid, Some session, True) \<in> set (tb_channels t)" "uid \<notin> set (tb_users t)"
  shows "(\<exists>r \<in> set (select_bot_users t). sq_user r = uid) \<and> bot_user_of unpack open_ai t uid = Inl (User_not_found uid)"
proof
  obtain r where r: "r \<in> set (rows_of t (uid, Some session, True))" using rows_of_some by (meson list.set_sel(1))
  then have "r \<in> set (select_bot_users t)" using assms(1) unfolding select_bot_users_set by (force simp: listed_def)
  then show "\<exists>r \<in> set (select_bot_users t). sq_user r = uid" using rows_of_channel [OF r] by auto
next
  have "set (select_bot_user uid t) = {}" using assms(2) unfolding select_bot_user_set by simp
  then show "bot_user_of unpack open_ai t uid = Inl (User_not_found uid)"
    by (simp add: bot_user_of_def get_wa_user_def)
qed

text \<open>One row that cannot be read leaves the program without the list, and so without any bot.\<close>

lemma unreadable_row_stops_all:
  assumes "r \<in> set (select_bot_users t)" "scan_columns r = Inl c"
  shows "\<exists>c. bot_users_of unpack open_ai t = Inl (Scan_failed c)"
proof -
  have "Inl c \<in> set (map scan_columns (select_bot_users t))" using assms by (force simp: image_iff)
  from scan_rows_Inl [OF this, of unpack open_ai] show ?thesis
    by (auto simp: bot_users_of_def get_wa_user_bot_users_def)
qed

subsection \<open>Instances\<close>

definition example_tables :: tables where
  "example_tables = \<lparr>tb_channels = [(7, Some ''{}'', True), (8, Some ''{}'', False), (9, None, True)], tb_users = [9, 8, 7],
     tb_models = [\<lparr>um_user = 7, um_model = Some 3, um_provider = Some 2, um_active = Some 1\<rparr>],
     tb_gpts = [\<lparr>gp_key = 3, gp_name = Some ''Anna'', gp_assistant = None, gp_data = Db_null\<rparr>],
     tb_notify = [\<lparr>nf_user = 8, nf_start = Some 1, nf_end = None, nf_target = Some 0\<rparr>]\<rparr>"

lemmas read_row_defs = rows_of_def join_details_def left_join_def select_columns_def active_model_def model_gpt_def
  scan_columns_def null_bytes_scan_def scan_null_byte_def scan_null_bool_def fill_wa_user_fields_def blank_user_def


text \<open>A cipher that puts a mark before the text.\<close>

definition example_tx :: tx_env where
  "example_tx = \<lparr>tx_begin = None, tx_lookup = None, tx_encrypt = (\<lambda>_ t. Inr (CHR ''$'' # t)), tx_exec = None, tx_commit = None\<rparr>"

definition example_cipher :: bots_env where
  "example_cipher = example_bots_env\<lparr>be_encrypted := (\<lambda>t. t \<noteq> [] \<and> hd t = CHR ''$''), be_decrypt := (\<lambda>_ t. Inr (tl t)),
     be_rpc := Some (Inr (replicate 32 1))\<rparr>"

theorem stored_session_opens_witness:
  "\<exists>u ch. update_whats_bot_data example_tx 7 (replicate 32 1) ''s'' True (tb_channels example_tables) = (None, ch)
     \<and> bot_user_of (\<lambda>_. Inl []) 1 (example_tables\<lparr>tb_channels := ch\<rparr>) 7 = Inr u
     \<and> wu_session u = ''$s'' \<and> fst (open_session example_cipher 7 (wu_session u) no_bots) = Inr ''s''"
proof -
  let ?ch = "AList.update 7 (Some ''$s'', True) (tb_channels example_tables)"
  have ch: "update_whats_bot_data example_tx 7 (replicate 32 1) ''s'' True (tb_channels example_tables) = (None, ?ch)"
    by (simp add: update_whats_bot_data_def example_tx_def example_tables_def zero_key_def)
  obtain u where u: "bot_user_of (\<lambda>_. Inl []) 1 (example_tables\<lparr>tb_channels := ?ch\<rparr>) 7 = Inr u" "wu_session u = ''$s''"
    by (simp add: select_bot_user_rows bot_user_of_def get_wa_user_def example_tables_def read_row_defs)
  have "distinct (map fst (tb_channels example_tables))" by (simp add: example_tables_def)
  then have "fst (open_session example_cipher 7 (wu_session u) no_bots) = Inr ''s''"
    using stored_session_opens [OF _ ch _ _ _ u(1), of example_cipher no_bots]
    by (simp add: example_tx_def example_cipher_def zero_key_def no_bots_def cached_key_def)
  then show ?thesis using ch u by blast
qed

end
