(* ===== verification/Key_Races.thy ===== *)
theory Key_Races
  imports Master_Keys
begin

section \<open>Requests for master keys at the same time (whatsapp/master_key.go, app/master_key.go)\<close>

text \<open>
  Both caches release their lock while the key service is asked: a request looks under the lock, asks without
  it, and stores the answer under the lock again. \<open>Master_Keys\<close> has the request as one step; here each part is a
  step, and the requests of all goroutines are interleaved with each other and with invalidations.
  \<open>fetch_step\<close> is the same for both caches, which give it their operations.
\<close>

subsection \<open>Requests in parts\<close>

datatype ('k, 'v, 'e) fetch_pc = Looking 'k | Asking 'k | Storing 'k 'v | Returned 'k "'e + 'v"

record ('k, 'v, 'e, 's) fetchers =
  ft_cache :: 's
  ft_calls :: "('k, 'v, 'e) fetch_pc list"

datatype ('k, 'v, 'e) fetch_event = Call_for 'k | Look nat int | Answer nat "'e + 'v" | Put nat int | Forget 'k

fun fetch_key :: "('k, 'v, 'e) fetch_pc \<Rightarrow> 'k" where
  "fetch_key (Looking k) = k"
| "fetch_key (Asking k) = k"
| "fetch_key (Storing k v) = k"
| "fetch_key (Returned k r) = k"

definition at_call :: "nat \<Rightarrow> ('k, 'v, 'e, 's) fetchers \<Rightarrow> ('k, 'v, 'e) fetch_pc option" where
  "at_call j f = (if j < length (ft_calls f) then Some (ft_calls f ! j) else None)"

definition move_call :: "nat \<Rightarrow> ('k, 'v, 'e) fetch_pc \<Rightarrow> ('k, 'v, 'e, 's) fetchers \<Rightarrow> ('k, 'v, 'e, 's) fetchers" where
  "move_call j p f = f\<lparr>ft_calls := (ft_calls f)[j := p]\<rparr>"

fun fetch_step ::
  "(int \<Rightarrow> 'k \<Rightarrow> 's \<Rightarrow> 'v option) \<Rightarrow> (int \<Rightarrow> 'k \<Rightarrow> 'v \<Rightarrow> 's \<Rightarrow> 's) \<Rightarrow> ('k \<Rightarrow> 's \<Rightarrow> 's)
   \<Rightarrow> ('k, 'v, 'e) fetch_event \<Rightarrow> ('k, 'v, 'e, 's) fetchers \<Rightarrow> ('k, 'v, 'e, 's) fetchers" where
  "fetch_step get put forget (Call_for k) f = f\<lparr>ft_calls := ft_calls f @ [Looking k]\<rparr>"
| "fetch_step get put forget (Look j now) f =
     (case at_call j f of
        Some (Looking k) \<Rightarrow>
          (case get now k (ft_cache f) of
             Some v \<Rightarrow> move_call j (Returned k (Inr v)) f
           | None \<Rightarrow> move_call j (Asking k) f)
      | _ \<Rightarrow> f)"
| "fetch_step get put forget (Answer j r) f =
     (case at_call j f of
        Some (Asking k) \<Rightarrow>
          (case r of Inl e \<Rightarrow> move_call j (Returned k (Inl e)) f | Inr v \<Rightarrow> move_call j (Storing k v) f)
      | _ \<Rightarrow> f)"
| "fetch_step get put forget (Put j now) f =
     (case at_call j f of
        Some (Storing k v) \<Rightarrow> move_call j (Returned k (Inr v)) (f\<lparr>ft_cache := put now k v (ft_cache f)\<rparr>)
      | _ \<Rightarrow> f)"
| "fetch_step get put forget (Forget k) f = f\<lparr>ft_cache := forget k (ft_cache f)\<rparr>"

definition no_fetchers :: "'s \<Rightarrow> ('k, 'v, 'e, 's) fetchers" where
  "no_fetchers s = \<lparr>ft_cache = s, ft_calls = []\<rparr>"

lemma move_call_simps [simp]:
  "ft_cache (move_call j p f) = ft_cache f" "length (ft_calls (move_call j p f)) = length (ft_calls f)"
  by (simp_all add: move_call_def)

lemma at_call_move [simp]: "at_call i (move_call j p f) = (if i = j \<and> at_call j f \<noteq> None then Some p else at_call i f)"
  by (simp add: at_call_def move_call_def nth_list_update)

lemma at_call_cache [simp]: "at_call i (f\<lparr>ft_cache := s\<rparr>) = at_call i f"
  by (simp add: at_call_def)

lemma at_call_append [simp]:
  "at_call i (f\<lparr>ft_calls := ft_calls f @ [p]\<rparr>) = (if i = length (ft_calls f) then Some p else at_call i f)"
  by (simp add: at_call_def nth_append)

subsection \<open>Where a key comes from\<close>

text \<open>
  \<open>run evs\<close> is the state after the events \<open>evs\<close>. The service has given \<open>v\<close> to the request \<open>i\<close> while it was asking for \<open>k\<close>; \<open>v\<close>
  is kept for \<open>k\<close>: it was the last one stored for \<open>k\<close>, within the time to live before \<open>now\<close>, and not forgotten
  since; the request \<open>i\<close> for \<open>k\<close> has looked when \<open>v\<close> was kept.
\<close>

definition answered_to :: "(('k, 'v, 'e) fetch_event list \<Rightarrow> ('k, 'v, 'e, 's) fetchers) \<Rightarrow> ('k, 'v, 'e) fetch_event list \<Rightarrow> nat \<Rightarrow> 'k \<Rightarrow> 'v \<Rightarrow> bool" where
  "answered_to run evs i k v \<longleftrightarrow>
     (\<exists>n < length evs. evs ! n = Answer i (Inr v) \<and> at_call i (run (take n evs)) = Some (Asking k))"

definition kept :: "int \<Rightarrow> (('k, 'v, 'e) fetch_event list \<Rightarrow> ('k, 'v, 'e, 's) fetchers) \<Rightarrow> ('k, 'v, 'e) fetch_event list \<Rightarrow> int \<Rightarrow> 'k \<Rightarrow> 'v \<Rightarrow> bool" where
  "kept ttl run evs now k v \<longleftrightarrow>
     (\<exists>n i t. n < length evs \<and> evs ! n = Put i t \<and> at_call i (run (take n evs)) = Some (Storing k v) \<and> now < t + ttl
        \<and> (\<forall>m. n < m \<and> m < length evs \<longrightarrow> evs ! m \<noteq> Forget k
             \<and> (\<forall>j t' v'. evs ! m = Put j t' \<longrightarrow> at_call j (run (take m evs)) \<noteq> Some (Storing k v'))))"

definition looked_up :: "int \<Rightarrow> (('k, 'v, 'e) fetch_event list \<Rightarrow> ('k, 'v, 'e, 's) fetchers) \<Rightarrow> ('k, 'v, 'e) fetch_event list \<Rightarrow> nat \<Rightarrow> 'k \<Rightarrow> 'v \<Rightarrow> bool" where
  "looked_up ttl run evs i k v \<longleftrightarrow>
     (\<exists>n < length evs. \<exists>now. evs ! n = Look i now \<and> at_call i (run (take n evs)) = Some (Looking k)
        \<and> kept ttl run (take n evs) now k v)"

lemma Ex_less_length_snoc:
  "(\<exists>n < length (xs @ [x]). P (take n (xs @ [x])) ((xs @ [x]) ! n)) \<longleftrightarrow>
     P xs x \<or> (\<exists>n < length xs. P (take n xs) (xs ! n))"
  unfolding length_append_singleton Ex_less_Suc by (simp add: nth_append cong: conj_cong)

lemma answered_to_snoc: "answered_to run (evs @ [ev]) i k v \<longleftrightarrow>
    answered_to run evs i k v \<or> (ev = Answer i (Inr v) \<and> at_call i (run evs) = Some (Asking k))"
  unfolding answered_to_def
  using Ex_less_length_snoc [of evs ev "\<lambda>b x. x = Answer i (Inr v) \<and> at_call i (run b) = Some (Asking k)"] by blast

lemma looked_up_snoc: "looked_up ttl run (evs @ [ev]) i k v \<longleftrightarrow>
    looked_up ttl run evs i k v \<or>
    (\<exists>now. ev = Look i now \<and> at_call i (run evs) = Some (Looking k) \<and> kept ttl run evs now k v)"
  unfolding looked_up_def
  using Ex_less_length_snoc [of evs ev "\<lambda>b x. \<exists>now. x = Look i now \<and> at_call i (run b) = Some (Looking k) \<and> kept ttl run b now k v"]
  by blast

definition stores :: "(('k, 'v, 'e) fetch_event list \<Rightarrow> ('k, 'v, 'e, 's) fetchers) \<Rightarrow> ('k, 'v, 'e) fetch_event list \<Rightarrow> ('k, 'v, 'e) fetch_event \<Rightarrow> 'k \<Rightarrow> 'v \<Rightarrow> int \<Rightarrow> bool" where
  "stores run evs ev k v t \<longleftrightarrow> (\<exists>i. ev = Put i t \<and> at_call i (run evs) = Some (Storing k v))"

lemma kept_stores: "kept ttl run evs now k v \<longleftrightarrow>
    (\<exists>n t. n < length evs \<and> stores run (take n evs) (evs ! n) k v t \<and> now < t + ttl
       \<and> (\<forall>m. n < m \<and> m < length evs \<longrightarrow> evs ! m \<noteq> Forget k \<and> (\<forall>v' t'. \<not> stores run (take m evs) (evs ! m) k v' t')))"
  unfolding kept_def stores_def by blast

lemma last_index:
  "(\<exists>n t. n < Suc l \<and> A n t \<and> (\<forall>m. n < m \<and> m < Suc l \<longrightarrow> B m)) \<longleftrightarrow>
     (\<exists>t. A l t) \<or> (B l \<and> (\<exists>n t. n < l \<and> A n t \<and> (\<forall>m. n < m \<and> m < l \<longrightarrow> B m)))" (is "?l \<longleftrightarrow> ?r")
proof
  assume ?l
  then obtain n t where n: "n < Suc l" "A n t" "\<forall>m. n < m \<and> m < Suc l \<longrightarrow> B m" by blast
  then have "n = l \<or> n < l \<and> B l \<and> (\<forall>m. n < m \<and> m < l \<longrightarrow> B m)" by (simp add: less_Suc_eq) blast
  then show ?r using n(2) by blast
next
  assume ?r
  then show ?l
  proof
    assume "\<exists>t. A l t"
    then show ?l by (intro exI [of _ l]) auto
  next
    assume "B l \<and> (\<exists>n t. n < l \<and> A n t \<and> (\<forall>m. n < m \<and> m < l \<longrightarrow> B m))"
    then obtain n t where n: "B l" "n < l" "A n t" "\<forall>m. n < m \<and> m < l \<longrightarrow> B m" by blast
    then show ?l by (intro exI [of _ n] exI [of _ t]) (auto simp: less_Suc_eq)
  qed
qed

lemma kept_snoc: "kept ttl run (evs @ [ev]) now k v \<longleftrightarrow>
    (\<exists>t. stores run evs ev k v t \<and> now < t + ttl)
    \<or> (ev \<noteq> Forget k \<and> (\<forall>v' t'. \<not> stores run evs ev k v' t') \<and> kept ttl run evs now k v)"
proof -
  define A where "A es n t \<longleftrightarrow> stores run (take n es) (es ! n) k v t \<and> now < t + ttl" for es n t
  define B where "B es m \<longleftrightarrow> es ! m \<noteq> Forget k \<and> (\<forall>v' t'. \<not> stores run (take m es) (es ! m) k v' t')" for es m
  have kept: "kept ttl run es now k v \<longleftrightarrow>
      (\<exists>n t. n < length es \<and> A es n t \<and> (\<forall>m. n < m \<and> m < length es \<longrightarrow> B es m))" for es
    unfolding kept_stores A_def B_def by blast
  have "A (evs @ [ev]) n t = A evs n t" "B (evs @ [ev]) n = B evs n" if "n < length evs" for n t
    using that by (simp_all add: A_def B_def nth_append)
  then have "(\<exists>n t. n < length evs \<and> A (evs @ [ev]) n t \<and> (\<forall>m. n < m \<and> m < length evs \<longrightarrow> B (evs @ [ev]) m))
      \<longleftrightarrow> kept ttl run evs now k v"
    unfolding kept by (metis (no_types, lifting))
  then show ?thesis
    unfolding kept [of "evs @ [ev]"] length_append_singleton last_index by (simp add: A_def B_def conj_assoc)
qed

lemma not_kept_Nil [simp]: "\<not> kept ttl run [] now k v" "\<not> answered_to run [] i k v" "\<not> looked_up ttl run [] i k v"
  by (simp_all add: kept_def answered_to_def looked_up_def)

context ttl_cache
begin

abbreviation step :: "('k, 'v, 'e) fetch_event \<Rightarrow> ('k, 'v, 'e, 's) fetchers \<Rightarrow> ('k, 'v, 'e, 's) fetchers" where
  "step \<equiv> fetch_step get put forget"

text \<open>A request alone is \<open>fetch\<close>.\<close>

lemma fetch_in_parts:
  "fold step [Call_for k, Look 0 now, Answer 0 src, Put 0 later] (no_fetchers s) =
     (case fetch src now later k s of (r, s) \<Rightarrow> \<lparr>ft_cache = s, ft_calls = [Returned k r]\<rparr>)"
proof (cases "get now k s")
  case None
  then show ?thesis
    by (cases src) (simp_all add: fetch_asks no_fetchers_def at_call_def move_call_def)
qed (simp add: fetch_cached no_fetchers_def at_call_def move_call_def)

abbreviation run :: "'s \<Rightarrow> ('k, 'v, 'e) fetch_event list \<Rightarrow> ('k, 'v, 'e, 's) fetchers" where
  "run s evs \<equiv> fold step evs (no_fetchers s)"

lemma storing_answered: "at_call i (run s evs) = Some (Storing k v) \<Longrightarrow> answered_to (run s) evs i k v"
proof (induction evs rule: rev_induct)
  case (snoc ev evs)
  then show ?case
    by (cases ev) (auto simp: answered_to_snoc split: if_splits option.splits fetch_pc.splits sum.splits)
qed (simp add: no_fetchers_def at_call_def)

text \<open>What is in the cache is what is kept, exactly.\<close>

lemma step_get_stores:
  "stores (run s) evs ev k v t \<Longrightarrow>
     get now k (ft_cache (step ev (run s evs))) = (if now < t + ttl then Some v else None)"
  by (auto simp: stores_def get_put)

lemma step_get_other:
  assumes "\<And>v t. \<not> stores (run s) evs ev k v t"
  shows "get now k (ft_cache (step ev (run s evs))) = (if ev = Forget k then None else get now k (ft_cache (run s evs)))"
proof (cases ev)
  case (Put j t)
  then have "at_call j (run s evs) = Some (Storing k' v) \<Longrightarrow> k \<noteq> k'" for k' v using assms by (auto simp: stores_def)
  then show ?thesis by (auto simp: Put get_put_other split: option.split fetch_pc.split)
next
  case (Forget k')
  then show ?thesis by (cases "k' = k") (simp_all add: get_forget get_forget_other)
qed (auto split: option.split fetch_pc.split sum.split)

lemma cache_kept:
  assumes "\<And>now k. get now k s = None"
  shows "get now k (ft_cache (run s evs)) = Some v \<longleftrightarrow> kept ttl (run s) evs now k v"
proof (induction evs rule: rev_induct)
  case Nil
  then show ?case using assms by (simp add: no_fetchers_def)
next
  case (snoc ev evs)
  show ?case
  proof (cases "\<exists>v t. stores (run s) evs ev k v t")
    case True
    then obtain v0 t0 where st: "stores (run s) evs ev k v0 t0" by blast
    then have "stores (run s) evs ev k v' t' \<longleftrightarrow> v' = v0 \<and> t' = t0" for v' t' by (auto simp: stores_def)
    then show ?thesis using step_get_stores [OF st] by (auto simp: kept_snoc)
  next
    case False
    then show ?thesis using snoc step_get_other [of s evs ev k] by (auto simp: kept_snoc)
  qed
qed

lemma returned_from:
  assumes "\<And>now k. get now k s = None"
  shows "at_call i (run s evs) = Some (Returned k (Inr v)) \<Longrightarrow>
    answered_to (run s) evs i k v \<or> looked_up ttl (run s) evs i k v"
proof (induction evs rule: rev_induct)
  case (snoc ev evs)
  show ?case
  proof (cases "at_call i (run s evs) = Some (Returned k (Inr v))")
    case True
    then show ?thesis using snoc.IH by (auto simp: answered_to_snoc looked_up_snoc)
  next
    case False
    then consider j now where "ev = Look j now" "i = j" "at_call i (run s evs) = Some (Looking k)" "get now k (ft_cache (run s evs)) = Some v"
      | "at_call i (run s evs) = Some (Storing k v)"
      using snoc.prems by (cases ev) (auto split: if_splits option.splits fetch_pc.splits sum.splits)
    then show ?thesis
    proof cases
      case 1
      then show ?thesis using cache_kept [OF assms] by (auto simp: looked_up_snoc)
    next
      case 2
      then show ?thesis using storing_answered by (auto simp: answered_to_snoc)
    qed
  qed
qed (simp add: no_fetchers_def at_call_def)

lemma kept_given:
  assumes "kept ttl (run s) evs now k v"
  shows "\<exists>i. answered_to (run s) evs i k v"
proof -
  obtain n i t where n: "n < length evs" "at_call i (run s (take n evs)) = Some (Storing k v)"
    using assms unfolding kept_def by blast
  then obtain m where m: "m < n" "evs ! m = Answer i (Inr v)" "at_call i (run s (take m evs)) = Some (Asking k)"
    using storing_answered [OF n(2)] by (auto simp: answered_to_def min_def)
  then show ?thesis using n(1) unfolding answered_to_def by (intro exI [of _ i] exI [of _ m]) simp
qed

text \<open>An answer that was on its way when the key was invalidated is stored all the same.\<close>

lemma forget_overtaken:
  assumes "get now k s = None" "later < now' + ttl"
  shows "get later k (ft_cache (fold step [Call_for k, Look 0 now, Answer 0 (Inr v), Forget k, Put 0 now'] (no_fetchers s))) = Some v"
  using assms by (simp add: no_fetchers_def at_call_def move_call_def get_put)

end

subsection \<open>Properties of the two caches\<close>

type_synonym bot_key_event = "(u32, master_key, rpc_error) fetch_event"
type_synonym app_key_event = "(u32, master_key, string) fetch_event"

definition bot_key_run :: "bot_key_event list \<Rightarrow> (u32, master_key, rpc_error, master_keys) fetchers" where
  "bot_key_run evs = fold (fetch_step cached_key store_key invalidate_master_key) evs (no_fetchers [])"

definition app_key_run :: "app_key_event list \<Rightarrow> (u32, master_key, string, key_items) fetchers" where
  "app_key_run evs = fold (fetch_step app_cached_key app_store_key app_invalidate_master_key) evs (no_fetchers [])"

text \<open>C22: however the requests of all goroutines for master keys, the answers of the key service and the
  invalidations are interleaved, in both caches: a request for a user's key returns only the key that the service gave to this
  very request, or the one that was kept for this user when it looked. Exactly this one is in memory: the key of the last
  request for this user that stored one, less than five minutes ago, if it was not invalidated since; and it is a key that the
  service gave to a request for this same user. A request that no other comes between is the request of the sequential model.\<close>

theorem keys_of_their_users:
  "(at_call i (bot_key_run evs) = Some (Returned uid (Inr key)) \<longrightarrow>
      answered_to bot_key_run evs i uid key \<or> looked_up (300 * second) bot_key_run evs i uid key)
   \<and> (cached_key now uid (ft_cache (bot_key_run evs)) = Some key \<longleftrightarrow> kept (300 * second) bot_key_run evs now uid key)
   \<and> (kept (300 * second) bot_key_run evs now uid key \<longrightarrow> (\<exists>j. answered_to bot_key_run evs j uid key))
   \<and> (at_call i (app_key_run evs') = Some (Returned uid (Inr key)) \<longrightarrow>
      answered_to app_key_run evs' i uid key \<or> looked_up (300 * second) app_key_run evs' i uid key)
   \<and> (app_cached_key now uid (ft_cache (app_key_run evs')) = Some key \<longleftrightarrow> kept (300 * second) app_key_run evs' now uid key)
   \<and> (kept (300 * second) app_key_run evs' now uid key \<longrightarrow> (\<exists>j. answered_to app_key_run evs' j uid key))
   \<and> bot_key_run [Call_for uid, Look 0 t0, Answer 0 rpc, Put 0 t1] =
       (case get_master_key rpc t0 t1 uid [] of (r, ks) \<Rightarrow> \<lparr>ft_cache = ks, ft_calls = [Returned uid r]\<rparr>)"
proof -
  have none: "cached_key now uid [] = None" "app_cached_key now uid [] = None" for now uid
    by (simp_all add: cached_key_def app_cached_key_def)
  note bot = bot_keys.returned_from [of "[]", OF none(1)] bot_keys.cache_kept [of "[]", OF none(1)] bot_keys.kept_given [of "[]"]
  note app = app_keys.returned_from [of "[]", OF none(2)] app_keys.cache_kept [of "[]", OF none(2)] app_keys.kept_given [of "[]"]
  have ttl: "master_key_cache_ttl = 300 * second" "5 * 60 * second = 300 * second" by (simp_all add: master_key_cache_ttl_def)
  note bot = bot [unfolded ttl] and app = app [unfolded ttl]
  show ?thesis
    unfolding bot_key_run_def [abs_def] app_key_run_def [abs_def]
    by (intro conjI impI)
      (erule bot(1) | rule bot(2) | erule bot(3) | erule app(1) | rule app(2) | erule app(3) | rule bot_keys.fetch_in_parts)+
qed

theorem keys_of_their_users_witness:
  "(answered_to bot_key_run [Call_for 7, Call_for 8, Look 0 0, Look 1 0, Answer 1 (Inr [8]), Answer 0 (Inr [7]), Put 0 1, Put 1 1] 0 7 [7]
    \<or> looked_up (300 * second) bot_key_run
        [Call_for 7, Call_for 8, Look 0 0, Look 1 0, Answer 1 (Inr [8]), Answer 0 (Inr [7]), Put 0 1, Put 1 1] 0 7 [7])
   \<and> kept (300 * second) bot_key_run
        [Call_for 7, Call_for 8, Look 0 0, Look 1 0, Answer 1 (Inr [8]), Answer 0 (Inr [7]), Put 0 1, Put 1 1] 2 8 [8]"
proof -
  let ?evs = "[Call_for 7, Call_for 8, Look 0 0, Look 1 0, Answer 1 (Inr [8]), Answer 0 (Inr [7]), Put 0 1, Put 1 1] :: bot_key_event list"
  have "at_call 0 (bot_key_run ?evs) = Some (Returned 7 (Inr [7]))"
    by (simp add: bot_key_run_def no_fetchers_def at_call_def move_call_def cached_key_def)
  moreover have "cached_key 2 8 (ft_cache (bot_key_run ?evs)) = Some [8]"
    by (simp add: bot_key_run_def no_fetchers_def at_call_def move_call_def cached_key_def store_key_def
        master_key_cache_ttl_def second_def)
  ultimately show ?thesis
    using keys_of_their_users [of 0 ?evs 7 "[7]"] keys_of_their_users [of 0 ?evs 8 "[8]" 2] by blast
qed

text \<open>But a key that was invalidated because it did not decrypt can come back: a request that had asked before the
  invalidation stores the old key after it, and the next request is answered from memory.\<close>

lemma invalidated_key_returns:
  "cached_key 1 uid (ft_cache (bot_key_run [Call_for uid, Look 0 0, Answer 0 (Inr old), Forget uid, Put 0 1])) = Some old"
  unfolding bot_key_run_def
  by (rule bot_keys.forget_overtaken) (simp_all add: cached_key_def master_key_cache_ttl_def second_def)

end
