(* ===== verification/App_Start.thy ===== *)
theory App_Start
  imports Channels Master_Keys Responders
begin

section \<open>The start of the application and its sessions (cmd/main.go, app/app.go)\<close>

text \<open>
  \<open>main\<close> reads where Redis is from the environment; \<open>New\<close> makes the parts: without the database or the key
  service there is no program, without Redis there is one that remembers no respondents. \<open>Starter\<close> takes the
  dialogs that \<open>initializeUserChannels\<close> has put into the queue \<open>startCh\<close> and runs a session for each; \<open>uReader\<close>
  writes the messages of the modules to the log.
\<close>

subsection \<open>Redis\<close>

record redis_config =
  rc_addr :: string
  rc_password :: string
  rc_db :: int

text \<open>\<open>getenv\<close> gives the empty text for a variable that is not set. A number that cannot be read is 0.\<close>

definition read_redis_config :: "(string \<Rightarrow> string) \<Rightarrow> redis_config" where
  "read_redis_config getenv =
     \<lparr>rc_addr = getenv ''REDIS_ADDR'', rc_password = getenv ''REDIS_PASSWORD'',
      rc_db = (let s = getenv ''REDIS_DB'' in
               if s \<noteq> [] then (case parse_int 64 s of Inr n \<Rightarrow> n | Inl _ \<Rightarrow> 0) else 0)\<rparr>"

text \<open>The client, if it answers: \<open>ping\<close> is the error of the first ping. A client that does not answer is closed.\<close>

definition connect_redis :: "(redis_config \<Rightarrow> string option) \<Rightarrow> redis_config \<Rightarrow> redis_config option" where
  "connect_redis ping cfg =
     (if rc_addr cfg = [] then None
      else case ping cfg of None \<Rightarrow> Some cfg | Some _ \<Rightarrow> None)"

subsection \<open>The parts (app.New, whatsapp.New)\<close>

datatype start_failure = Database_unavailable string | Key_service_unavailable string

text \<open>What \<open>whatsapp.New\<close> makes: no bots, no keys, no dialogs with an operator, a queue of a hundred starts.\<close>

record 'm user_parts =
  up_cache :: "redis_config option"
  up_keys :: master_keys
  up_operators :: "u64 list"
  up_starts :: "'m chan"

definition new_user_parts :: "redis_config option \<Rightarrow> 'm user_parts" where
  "new_user_parts redis = \<lparr>up_cache = redis, up_keys = [], up_operators = [], up_starts = make_chan 100\<rparr>"

record 'm application =
  an_keys :: key_items
  an_user :: "'m user_parts"

text \<open>An error of the database or of the key service ends the program (\<open>logger.Fatal\<close>).\<close>

definition new_application ::
  "string option \<Rightarrow> string option \<Rightarrow> (redis_config \<Rightarrow> string option) \<Rightarrow> redis_config \<Rightarrow> start_failure + 'm application" where
  "new_application db_err rpc_err ping cfg =
     (case db_err of
        Some t \<Rightarrow> Inl (Database_unavailable t)
      | None \<Rightarrow>
          (case rpc_err of
             Some t \<Rightarrow> Inl (Key_service_unavailable t)
           | None \<Rightarrow> Inr \<lparr>an_keys = [], an_user = new_user_parts (connect_redis ping cfg)\<rparr>))"

text \<open>\<open>NewRedisCache\<close> and the three operations of a store of respondents over it.\<close>

definition new_redis_cache :: "redis_config option \<Rightarrow> (redis_config \<Rightarrow> 'c) \<Rightarrow> 'c option" where
  "new_redis_cache redis client = map_option client redis"

definition cache_set :: "(string \<Rightarrow> string \<Rightarrow> int \<Rightarrow> string option) \<Rightarrow> u32 \<Rightarrow> u64 \<Rightarrow> string option" where
  "cache_set put uid sid = put (known_responder_key uid sid) ''1'' (168 * 3600 * second)"

definition store_set_known :: "(string \<Rightarrow> string \<Rightarrow> int \<Rightarrow> string option) option \<Rightarrow> u32 \<Rightarrow> u64 \<Rightarrow> string option" where
  "store_set_known cache uid sid = (case cache of None \<Rightarrow> None | Some put \<Rightarrow> cache_set put uid sid)"

lemma new_application_cases:
  "new_application db_err rpc_err ping cfg = Inr a \<Longrightarrow>
     db_err = None \<and> rpc_err = None \<and> an_user a = new_user_parts (connect_redis ping cfg)"
  by (auto simp: new_application_def split: option.splits)

text \<open>Redis is optional: whether it is there never decides whether the program starts; when it is not configured or
  does not answer, no mark is read, written or preloaded, and every one of these operations succeeds.\<close>

theorem redis_is_optional:
  "((\<exists>a. (new_application db_err rpc_err ping cfg :: start_failure + 'm application) = Inr a) \<longleftrightarrow> db_err = None \<and> rpc_err = None)
   \<and> (\<forall>a. (new_application db_err rpc_err ping cfg :: start_failure + 'm application) = Inr a \<longrightarrow>
        (rc_addr cfg = [] \<or> ping cfg \<noteq> None \<longrightarrow>
           (\<forall>ex scan put uid sid.
              store_known (new_redis_cache (up_cache (an_user a)) ex) uid sid = (False, None)
              \<and> store_load_user (new_redis_cache (up_cache (an_user a)) scan) uid = Inr []
              \<and> store_set_known (new_redis_cache (up_cache (an_user a)) put) uid sid = None))
        \<and> (rc_addr cfg \<noteq> [] \<and> ping cfg = None \<longrightarrow> up_cache (an_user a) = Some cfg))"
  by (auto simp: new_application_def connect_redis_def new_user_parts_def new_redis_cache_def store_known_def
      store_load_user_def store_set_known_def split: option.split)

subsection \<open>The queue of starts (initializeUserChannels, Starter)\<close>

text \<open>
  A start is what \<open>initializeUserChannels\<close> offers to the queue: the dialog, the respondent and the channel.
  \<open>se_errors\<close> are the errors that a session has sent on its channel, \<open>ss_log\<close> those that were logged, with the
  session's number.
\<close>

type_synonym dialog_start = "u64 \<times> u64 \<times> bool \<times> model_ch option"

record session =
  se_start :: dialog_start
  se_errors :: "string option list"
  se_ended :: bool

record starts =
  ss_queue :: "dialog_start chan"
  ss_sessions :: "session list"
  ss_log :: "(nat \<times> string) list"

definition starts_of :: "chan_effect list \<Rightarrow> dialog_start list" where
  "starts_of fx = concat (map (\<lambda>x. case x of Cx_start d r m c \<Rightarrow> [(d, r, m, c)] | _ \<Rightarrow> []) fx)"

text \<open>Setting up a dialog: the environment's room is that of the queue.\<close>

definition set_up_dialog :: "chan_env \<Rightarrow> u32 \<Rightarrow> u64 \<Rightarrow> string \<Rightarrow> starts \<Rightarrow> chan_error option \<times> chan_effect list \<times> starts" where
  "set_up_dialog e uid sid name s =
     (case initialize_user_channels (e\<lparr>ch_start_room := \<not> chan_full (ss_queue s)\<rparr>) uid sid name of
        (err, fx) \<Rightarrow> (err, fx, s\<lparr>ss_queue := fold chan_offer (starts_of fx) (ss_queue s)\<rparr>))"

text \<open>One turn of \<open>Starter\<close>: a session is started for the next dialog; with an empty queue it waits.\<close>

definition starter_turn :: "starts \<Rightarrow> starts" where
  "starter_turn s =
     (case chan_recv (ss_queue s) of
        (Received d, q) \<Rightarrow>
          s\<lparr>ss_queue := q, ss_sessions := ss_sessions s @ [\<lparr>se_start = d, se_errors = [], se_ended = False\<rparr>]\<rparr>
      | _ \<Rightarrow> s)"

text \<open>The goroutine of a session reads an error; \<open>nil\<close> is not logged.\<close>

definition session_error :: "nat \<Rightarrow> string option \<Rightarrow> starts \<Rightarrow> starts" where
  "session_error i err s =
     (if i < length (ss_sessions s) \<and> \<not> se_ended (ss_sessions s ! i) then
        s\<lparr>ss_sessions := update_at (\<lambda>x. x\<lparr>se_errors := se_errors x @ [err]\<rparr>) i (ss_sessions s),
          ss_log := ss_log s @ (case err of Some t \<Rightarrow> [(i, t)] | None \<Rightarrow> [])\<rparr>
      else s)"

definition session_end :: "nat \<Rightarrow> starts \<Rightarrow> starts" where
  "session_end i s = s\<lparr>ss_sessions := update_at (\<lambda>x. x\<lparr>se_ended := True\<rparr>) i (ss_sessions s)\<rparr>"

datatype start_event = Set_up chan_env u32 u64 string | Turn | Session_error nat "string option" | Session_end nat

fun start_step :: "start_event \<Rightarrow> starts \<Rightarrow> starts" where
  "start_step (Set_up e uid sid name) s = snd (snd (set_up_dialog e uid sid name s))"
| "start_step Turn s = starter_turn s"
| "start_step (Session_error i err) s = session_error i err s"
| "start_step (Session_end i) s = session_end i s"

definition no_starts :: starts where
  "no_starts = \<lparr>ss_queue = make_chan 100, ss_sessions = [], ss_log = []\<rparr>"

text \<open>The dialogs whose set-up has reported success with a start, in order.\<close>

fun accepted_starts :: "start_event list \<Rightarrow> starts \<Rightarrow> dialog_start list" where
  "accepted_starts [] s = []"
| "accepted_starts (ev # evs) s =
     (case ev of
        Set_up e uid sid name \<Rightarrow>
          (case set_up_dialog e uid sid name s of
             (None, fx, _) \<Rightarrow> starts_of fx
           | (Some _, fx, _) \<Rightarrow> [])
      | _ \<Rightarrow> []) @ accepted_starts evs (start_step ev s)"

subsection \<open>Lemmas\<close>

lemma starts_of_simps [simp]:
  "starts_of [] = []" "starts_of (Cx_start d r m c # fx) = (d, r, m, c) # starts_of fx"
  "starts_of (Cx_clean d # fx) = starts_of fx" "starts_of (Cx_listen r c # fx) = starts_of fx"
  by (simp_all add: starts_of_def)

text \<open>A set-up offers at most one start, only with success and only when there is room.\<close>

lemma starts_of_set_up:
  "initialize_user_channels e uid sid name = (err, fx) \<Longrightarrow>
     starts_of fx = [] \<or> err = None \<and> ch_start_room e \<and> (\<exists>d. starts_of fx = [d])"
  by (auto simp: initialize_user_channels_def init_user_channels_def Let_def
      split: option.splits sum.splits prod.splits if_splits)

lemma set_up_dialog_cases:
  obtains (nothing) err fx where "set_up_dialog e uid sid name s = (err, fx, s)" "starts_of fx = []"
  | (offered) fx d where "set_up_dialog e uid sid name s = (None, fx, s\<lparr>ss_queue := chan_offer d (ss_queue s)\<rparr>)"
      "starts_of fx = [d]" "\<not> chan_full (ss_queue s)"
proof -
  obtain err fx where r: "initialize_user_channels (e\<lparr>ch_start_room := \<not> chan_full (ss_queue s)\<rparr>) uid sid name = (err, fx)"
    by fastforce
  consider "starts_of fx = []" | d where "err = None" "\<not> chan_full (ss_queue s)" "starts_of fx = [d]"
    using starts_of_set_up [OF r] by auto
  then show thesis
    using r by cases (auto simp: set_up_dialog_def intro: that)
qed

definition starts_inv :: "dialog_start list \<Rightarrow> starts \<Rightarrow> bool" where
  "starts_inv accepted s \<longleftrightarrow>
     ch_cap (ss_queue s) = 100 \<and> length (ch_buf (ss_queue s)) \<le> 100 \<and>
     map se_start (ss_sessions s) = ch_taken (ss_queue s) \<and> chan_stream (ss_queue s) = accepted \<and>
     (\<forall>i. map snd (filter (\<lambda>(j, _). j = i) (ss_log s)) =
        (if i < length (ss_sessions s) then [t. Some t \<leftarrow> se_errors (ss_sessions s ! i)] else []))"

lemma starts_inv_set_up:
  assumes inv: "starts_inv acc s"
  shows "starts_inv (acc @ (case set_up_dialog e uid sid name s of (None, fx, _) \<Rightarrow> starts_of fx | (Some _, fx, _) \<Rightarrow> []))
    (snd (snd (set_up_dialog e uid sid name s)))"
proof (cases rule: set_up_dialog_cases [of e uid sid name s])
  case (nothing err fx)
  then show ?thesis using inv by (cases err) simp_all
next
  case (offered fx d)
  then show ?thesis
    using inv chan_offer_bound [of "ss_queue s" d] by (simp add: starts_inv_def chan_stream_offer)
qed

lemma starts_inv_turn:
  assumes inv: "starts_inv acc s"
  shows "starts_inv acc (starter_turn s)"
proof (cases "ch_buf (ss_queue s)")
  case Nil
  then show ?thesis using inv by (simp add: starter_turn_def chan_recv_def)
next
  case (Cons d q)
  have "map snd (filter (\<lambda>(j, _). j = length (ss_sessions s)) (ss_log s)) = []"
    using inv by (simp add: starts_inv_def)
  then show ?thesis
    using inv Cons by (auto simp: starts_inv_def starter_turn_def chan_recv_def chan_stream_def nth_append less_Suc_eq)
qed

lemma starts_inv_error:
  assumes inv: "starts_inv acc s"
  shows "starts_inv acc (session_error i err s)"
proof (cases "i < length (ss_sessions s) \<and> \<not> se_ended (ss_sessions s ! i)")
  case True
  then show ?thesis
    using inv by (auto simp: starts_inv_def session_error_def nth_update_at map_update_at split: option.split)
qed (use inv in \<open>auto simp: session_error_def\<close>)

lemma starts_inv_end:
  assumes inv: "starts_inv acc s"
  shows "starts_inv acc (session_end i s)"
proof -
  have same: "se_errors (update_at (\<lambda>x. x\<lparr>se_ended := True\<rparr>) i (ss_sessions s) ! j) = se_errors (ss_sessions s ! j)" for j
    by (cases "i < length (ss_sessions s)") (simp_all add: nth_update_at)
  show ?thesis using inv by (simp add: starts_inv_def session_end_def same map_update_at)
qed

lemma starts_inv_run: "starts_inv acc s \<Longrightarrow> starts_inv (acc @ accepted_starts evs s) (fold start_step evs s)"
proof (induction evs arbitrary: acc s)
  case (Cons ev evs)
  show ?case
  proof (cases ev)
    case (Set_up e uid sid name)
    show ?thesis
      using Cons.IH [OF starts_inv_set_up [OF Cons.prems, of e uid sid name]] by (simp add: Set_up)
  next
    case Turn
    then show ?thesis using Cons.IH [OF starts_inv_turn [OF Cons.prems]] by simp
  next
    case (Session_error i err)
    then show ?thesis using Cons.IH [OF starts_inv_error [OF Cons.prems]] by simp
  next
    case (Session_end i)
    then show ?thesis using Cons.IH [OF starts_inv_end [OF Cons.prems]] by simp
  qed
qed simp

subsection \<open>Properties\<close>


text \<open>A respondent without a channel gets one, and its session reports an error.\<close>

definition example_chan_env :: chan_env where
  "example_chan_env = \<lparr>ch_has_db = True, ch_has_model = True, ch_has_assistant = True, ch_dialog = (\<lambda>_ sid _. Inr (100 + sid)),
     ch_get_first = (\<lambda>_. Inl []), ch_resp_model = (\<lambda>_ _ _. (True, None)), ch_get_second = (\<lambda>_. (None, None)),
     ch_start_room = False\<rparr>"


text \<open>A dialog that finds the queue full is lost: its set-up reports the error after the listener for answers was
  started, and from then on, as the channel of the dialog is there and open, every set-up for the respondent reports
  success and starts nothing.\<close>

theorem full_queue_loses_dialog:
  assumes "set_up_dialog e uid sid name s = (Some Start_full, fx, s')"
    and "mc_rx_open ch" "ch_get_first e' sid = Inr ch" "ch_has_db e'" "ch_has_model e'" "ch_has_assistant e'"
    and "ch_dialog e' uid sid name' = Inr d"
  shows "s' = s \<and> chan_full (ss_queue s) \<and> (\<exists>c. Cx_listen sid c \<in> set fx) \<and> set_up_dialog e' uid sid name' s'' = (None, [], s'')"
proof -
  have r: "initialize_user_channels (e\<lparr>ch_start_room := \<not> chan_full (ss_queue s)\<rparr>) uid sid name = (Some Start_full, fx)"
    and s': "s' = s\<lparr>ss_queue := fold chan_offer (starts_of fx) (ss_queue s)\<rparr>"
    using assms(1) by (auto simp: set_up_dialog_def split: prod.splits)
  have none: "starts_of fx = []" using starts_of_set_up [OF r] by simp
  have "chan_full (ss_queue s) \<and> (\<exists>c. Cx_listen sid c \<in> set fx) \<and> uid \<noteq> 0 \<and> sid \<noteq> 0"
    using r by (auto simp: initialize_user_channels_def init_user_channels_def validate_responder_def dialog_id_for_user_def Let_def
        split: option.splits sum.splits prod.splits if_splits)
  then show ?thesis
    using s' none assms(2-)
    by (simp add: set_up_dialog_def initialize_user_channels_def init_user_channels_def validate_responder_def dialog_id_for_user_def Let_def)
qed

subsection \<open>The log of the modules (uReader)\<close>

datatype log_level = Log_info | Log_error | Log_warn | Log_debug

record log_msg =
  lg_level :: byte
  lg_mod :: string
  lg_msg :: string

definition level_of :: "byte \<Rightarrow> log_level option" where
  "level_of n =
     (if n = 0 then Some Log_info else if n = 1 then Some Log_error else if n = 2 then Some Log_warn
      else if n = 3 then Some Log_debug else None)"

text \<open>A message with any other level is dropped.\<close>

fun u_reader :: "log_msg list \<Rightarrow> (log_level \<times> string \<times> string) list" where
  "u_reader [] = []"
| "u_reader (m # ms) =
     (case level_of (lg_level m) of
        Some l \<Rightarrow> (l, lg_mod m, lg_msg m) # u_reader ms
      | None \<Rightarrow> u_reader ms)"

end
