(* ===== verification/Spec2Isabelle.thy ===== *)
theory Spec2Isabelle
  imports Call_Watch Call_Service Auth_Safety Http_Handlers Contacts Bot_Messages Media
    Bot_Phases Event_Reauth Operator_Mode Telemetry Shutdown Bot_Races Bot_Stop Bot_Tables Key_Races App_Start
begin

text \<open>
  A verification development for air_whatsbot, a server that runs WhatsApp bots for its users: each bot is a
  WhatsApp client whose messages and calls an AI assistant answers. Paths below are under
  \<open>src/internal/\<close>; \<open>w/\<close> stands for \<open>src/internal/whatsapp/\<close>.

  \<^bold>\<open>The program and its model.\<close> \<open>User\<close> (\<open>w/whatsapp.go\<close>) owns a map from users to bots, the operator mode
  of the dialogs, a cache of master keys and a registry of authorisations. Bots are started from stored sessions,
  stopped and restarted by HTTP requests, made anew by a QR authorisation, and end when their client loses its
  login. A bot handles the client's events: a message goes through filters to the respondent's record, to the CRM
  and into the channel of the dialog, whose answers a listener sends back; a call is answered or placed, its
  audio is exchanged with a realtime session, and its events can be followed over gRPC.

  Each theory holds one component: its state as a record, its operations as functions in the order of the
  code, then lemmas and properties. State is passed explicitly, and what an operation does to the outside is a list of
  effects in its state. Errors are values. A mutex or a goroutine makes a step: the steps of a component are its
  operations, and invariants are proved over all sequences of them; where the code takes an operation in several
  accesses to shared state, a theory of its own (\<open>Bot_Races\<close>, \<open>Bot_Stop\<close>, \<open>Key_Races\<close>) interleaves these. Code outside the repository (the WhatsApp and
  call libraries, the model, the CRM, Redis, MySQL, ciphers, JSON, time) is a parameter: a function or a record of
  answers. Strings are lists of bytes, so the Russian texts the code compares are written as UTF-8.

  \<^item> \<^bold>\<open>GoLib\<close>: the part of Go's library that the code uses: \<open>ParseUint\<close>, \<open>ParseInt\<close>, formatting, \<open>Fields\<close>,
    \<open>TrimSpace\<close>, channels with a buffer, update of a list in place; and the locales \<open>closable\<close> (a resource closed
    once), \<open>sync_map\<close> (laws of a concurrent map) and \<open>codec\<close> (what is printed is parsed back).
  \<^item> \<^bold>\<open>Wa_Types\<close>: addresses and the client; \<^bold>\<open>Messages\<close> (\<open>w/messages\<close>): text, kind, sender, files and filter of a
    message.
  \<^item> \<^bold>\<open>Responders\<close> (\<open>w/responder\<close>, \<open>w/bot_responder.go\<close>): records of respondents, whose pointers are cells of
    a store, and the marks of known ones in Redis, which are read back as they were written.
  \<^item> \<^bold>\<open>Channels\<close> (\<open>w/bot_channels.go\<close>): the set-up of a dialog and the listener for answers; \<^bold>\<open>Operator_Mode\<close>
    (\<open>DisableOperatorMode\<close>).
  \<^item> \<^bold>\<open>Bot_Messages\<close> (\<open>w/bot_event.go\<close>, \<open>w/bot_message.go\<close>, \<open>sendFirstContactMessage\<close>): which messages are refused
    without effect and how an accepted one is delivered. \<^bold>\<open>Event_Reauth\<close> joins it to the registry: which events
    end a bot.
  \<^item> \<^bold>\<open>Media\<close> (\<open>w/bot_media.go\<close>, \<open>w/bot_typing.go\<close>): downloads with three attempts, answers, typing.
  \<^item> \<^bold>\<open>Master_Keys\<close> (\<open>w/master_key.go\<close>, \<open>app/master_key.go\<close>): two caches, both models of the locale \<open>ttl_cache\<close>.
    \<^bold>\<open>Key_Races\<close>: the requests of all goroutines in the parts that the lock makes of them, proved once for both caches.
  \<^item> \<^bold>\<open>Device_Store\<close> (\<open>w/devicestore\<close>) and \<^bold>\<open>Repository\<close> (\<open>repository/mysql\<close>): restoring a device from its stored
    session, saving it, and the table of channels. \<^bold>\<open>Bot_Tables\<close>: the two SELECTs as joins of tables, so that a session that
    was saved is the one that a bot is started with.
  \<^item> \<^bold>\<open>Bots\<close> and \<^bold>\<open>Bot_Registry\<close> (\<open>w/user_bots.go\<close>, \<open>w/bot_lifecycle.go\<close>, \<open>w/user_subscription.go\<close>,
    \<open>w/user_auth.go\<close>, \<open>w/bot_auth.go\<close>, \<open>w/reauth.go\<close>): bots are cells of a list, the map gives the cell of a user;
    the invariant is that a bot that is not cancelled is the one its user has in the map. \<^bold>\<open>Bot_Phases\<close>: for each user
    the registry refines a machine with the phases absent, running and stopped. \<^bold>\<open>Bot_Steps\<close> has the same operations as a
    program counter and its accesses to the shared state, and shows that a request that runs alone is its operation;
    \<^bold>\<open>Bot_Races\<close> interleaves the requests of all users: each point of a request has an assertion, which the steps for other
    users keep, and two overlapping starts for one user show where the code needs a lock.
  \<^item> \<^bold>\<open>Auth\<close> and \<^bold>\<open>Auth_Safety\<close> (\<open>w/auth\<close>): the registry of authorisations, the flow from the QR code to the new
    bot, and what its client sees.
  \<^item> \<^bold>\<open>Http_Handlers\<close> (\<open>delivery/http/server.go\<close>, \<open>w/handlers\<close>), \<^bold>\<open>Metrics\<close> and \<^bold>\<open>Telemetry\<close> (\<open>metrics\<close>) and
    \<^bold>\<open>Contacts\<close> (\<open>w/contacts\<close>): the HTTP routes, their counters, the registration of the metrics and the gauges, and the
    streams of an authorisation and of the contacts.
  \<^item> \<^bold>\<open>Call_Events\<close> (\<open>w/calls/events.go\<close>), \<^bold>\<open>Call_Audio\<close> (\<open>w/calls/audio.go\<close>), \<^bold>\<open>Calls\<close>, \<^bold>\<open>Call_Safety\<close> and
    \<^bold>\<open>Call_Watch\<close> (\<open>w/calls/calls.go\<close>): the event hub as a log, audio conversion and framing, the call manager of a
    bot, its invariant and its time limits. \<^bold>\<open>Call_Service\<close> (\<open>w/bot_calls.go\<close>, \<open>w/user_calls.go\<close>,
    \<open>delivery/rpc/server.go\<close>): the calls of all users behind the gRPC server.
  \<^item> \<^bold>\<open>Shutdown\<close> (\<open>Run\<close> in \<open>app/app.go\<close>, \<open>db/db.go\<close>): the steps from the signal to the exit as an inductive
    relation. \<^bold>\<open>Bot_Stop\<close> puts \<open>StopBot\<close> (\<open>w/whatsapp.go\<close>) with all its goroutines in the place of one of these steps.
    \<^bold>\<open>App_Start\<close> (\<open>cmd/main.go\<close>, \<open>New\<close>, \<open>Starter\<close> and \<open>uReader\<close> in \<open>app/app.go\<close>): what the program starts with, and the queue
    of dialogs for which sessions are started.

  \<^bold>\<open>Bounds and termination.\<close> No definition uses fuel: loops are structural recursion over the lists they range over, the
  download loop counts its attempts up to 3, and the wait for a WebSocket client ends with the states the flow sends.
  A request for a bot makes at most 14 accesses (\<open>steps_left\<close>), and \<open>StopBot\<close> at most 2n + 5 steps for n bots.
  A send that would block for ever is a value of its own (\<open>Subscribe_hangs\<close>, \<open>Msg_waits\<close>, \<open>Relay_waits\<close>), and
  properties say when it cannot occur. Numbers keep their width (\<open>u32\<close>, \<open>u64\<close>, signed readings by \<open>sint\<close>).

  \<^bold>\<open>Assumptions of the model.\<close> A handler of one message runs as one step; the goroutine of the first contact is
  a later step of its own, as is the goroutine that connects a bot. In \<open>Bots\<close> and the theories over it an operation of the
  registry is one step, which \<open>Bot_Races\<close> justifies for requests of different users; for requests of the same user the
  properties of these theories assume that they come one after the other. \<open>open_session\<close> and making a bot are one access
  in \<open>Bot_Steps\<close>, as the cache of keys has a lock of its own and a new bot is seen by nobody else. The keys of the tables
  (\<open>keyed\<close>) are those of the database's schema, which is not in the repository. Pauses are not modelled. White space and case are
  those of ASCII; the text of an address is ASCII, so that its runes are its bytes. After a success event the QR
  channel brings no second one. Samples of audio are rationals; infinities and NaN do not occur.

  \<^bold>\<open>Not modelled.\<close> The texts of the log; durations, buckets and the exporter of the metrics; code generated by protoc; the
  constructors of the libraries that \<open>app.New\<close> calls; the sockets of the HTTP and gRPC servers; the set-up of the log
  and the modes in \<open>cmd/main.go\<close>, which calls a library; interface declarations and methods that only forward a call.
\<close>

end
